(* ===== verification/Prelude.thy ===== *)
theory Prelude
  imports Main "HOL-Library.Word" "HOL-Library.Char_ord" "HOL-Library.List_Lexorder"
    "HOL-Library.Multiset"
begin

text \<open>
  Shared vocabulary of the development: bytes and Go strings (a Go string is a byte sequence, and
  so is a HOL \<open>string\<close>), the ranges of Go's integer types, the theorem collections the component
  theories fill, and generic lemmas on lists that several components use.
\<close>

section \<open>Theorem collections\<close>

named_theorems json_simps \<open>evaluation of the JSON scanner and its writers\<close>

section \<open>Bytes and Go strings\<close>

text \<open>The byte value of a character, as the number Go's \<open>byte\<close> has.\<close>

abbreviation code :: "char \<Rightarrow> nat" where
  "code c \<equiv> of_char c"

abbreviation byte :: "nat \<Rightarrow> char" where
  "byte n \<equiv> char_of n"

lemma code_less_256 [simp]: "code c < 256"
proof -
  have "code c = code c mod 256"
    by (metis char_of_char of_char_of)
  then show ?thesis
    by (metis mod_less_divisor zero_less_numeral)
qed

lemma code_byte: "n < 256 \<Longrightarrow> code (byte n) = n"
  by (simp add: of_char_of)

lemma byte_code [simp]: "byte (code c) = c"
  by simp

lemma byte_eq_iff: "n < 256 \<Longrightarrow> byte n = c \<longleftrightarrow> n = code c"
  by (metis code_byte byte_code)

section \<open>Go integers\<close>

definition minInt64 :: int where
  "minInt64 = - 9223372036854775808"

definition maxInt64 :: int where
  "maxInt64 = 9223372036854775807"

definition is_int64 :: "int \<Rightarrow> bool" where
  "is_int64 n \<longleftrightarrow> minInt64 \<le> n \<and> n \<le> maxInt64"

section \<open>Errors\<close>

text \<open>
  A Go \<open>error\<close> is a value: \<open>None\<close> is the nil error. The constructors name the place an error comes
  from; the ones with a string carry the message text the source builds.
\<close>

datatype error =
    ErrSyscall string
  | ErrJson
  | ErrKafka
  | ErrNoFiles
  | ErrMsg string

type_synonym 'a result = "error + 'a"

section \<open>Lists\<close>

lemma takeWhile_append_stop:
  "(\<And>x. x \<in> set xs \<Longrightarrow> P x) \<Longrightarrow> \<not> P y \<Longrightarrow> takeWhile P (xs @ y # ys) = xs"
  by (induction xs) auto

lemma length_dropWhile_less [simp]: "length (dropWhile P xs) \<le> length xs"
  by (induction xs) auto

lemma map_of_filter_fst:
  "map_of (filter (\<lambda>p. fst p \<noteq> x) xs) y = (if y = x then None else map_of xs y)"
  by (induction xs) auto

text \<open>The entries of an association list with distinct keys, one of them apart.\<close>

lemma mset_remove_key:
  assumes "distinct (map fst kvs)" "map_of kvs k = Some v"
  shows "mset kvs = add_mset (k, v) (mset (filter (\<lambda>p. fst p \<noteq> k) kvs))"
  using assms
proof (induction kvs)
  case (Cons p kvs)
  show ?case
  proof (cases "fst p = k")
    case True
    then have "k \<notin> fst ` set kvs"
      using Cons.prems(1) by auto
    then have "filter (\<lambda>p. fst p \<noteq> k) kvs = kvs"
      by (auto intro!: filter_True)
    then show ?thesis
      using True Cons.prems(2) by (cases p) simp
  next
    case False
    then show ?thesis
      using Cons by (cases p) auto
  qed
qed simp

end
