(* ===== verification/Metrics.thy ===== *)
theory Metrics
  imports Prelude
begin

text \<open>
  The helpers of \<open>internal/metrics/metrics.go\<close>. The Prometheus client is a third-party package, so
  the state is the sequence of calls the helpers make on its collectors, oldest first; what a gauge
  or a counter reads after them is computed from that sequence below.
\<close>

datatype collector =
    Connections | MessagesTotal | QueueDepth | QueueDropsTotal | KafkaWrites | KafkaWriteLatency
  | KafkaHealthyGauge | FallbackFiles | FallbackWritesTotal | FallbackReplaysTotal

datatype collector_op = Inc | Dec | Set int | Observe int

text \<open>A call: the collector, its label values, the operation.\<close>

type_synonym metric_call = "collector \<times> string list \<times> collector_op"

type_synonym metrics = "metric_call list"

definition metrics_init :: metrics where
  "metrics_init = [(KafkaHealthyGauge, [], Set 1)]"

definition ConnInc :: "metrics \<Rightarrow> metrics" where
  "ConnInc m = m @ [(Connections, [], Inc)]"

definition ConnDec :: "metrics \<Rightarrow> metrics" where
  "ConnDec m = m @ [(Connections, [], Dec)]"

definition MessageObserved :: "string \<Rightarrow> string \<Rightarrow> metrics \<Rightarrow> metrics" where
  "MessageObserved topic outcome m = m @ [(MessagesTotal, [topic, outcome], Inc)]"

definition QueueDepthSetForQueue :: "string \<Rightarrow> nat \<Rightarrow> metrics \<Rightarrow> metrics" where
  "QueueDepthSetForQueue queue n m = m @ [(QueueDepth, [queue], Set (int n))]"

definition QueueDepthSet :: "nat \<Rightarrow> metrics \<Rightarrow> metrics" where
  "QueueDepthSet n m = QueueDepthSetForQueue ''default'' n m"

definition QueueDropInc :: "metrics \<Rightarrow> metrics" where
  "QueueDropInc m = m @ [(QueueDropsTotal, [], Inc)]"

text \<open>The observed latency is kept in nanoseconds.\<close>

definition KafkaWrite :: "string \<Rightarrow> string \<Rightarrow> int \<Rightarrow> metrics \<Rightarrow> metrics" where
  "KafkaWrite topic outcome elapsed m =
     m @ [(KafkaWrites, [topic, outcome], Inc), (KafkaWriteLatency, [topic], Observe elapsed)]"

definition KafkaHealthy :: "bool \<Rightarrow> metrics \<Rightarrow> metrics" where
  "KafkaHealthy ok m = m @ [(KafkaHealthyGauge, [], Set (if ok then 1 else 0))]"

definition FallbackFilesSet :: "nat \<Rightarrow> metrics \<Rightarrow> metrics" where
  "FallbackFilesSet n m = m @ [(FallbackFiles, [], Set (int n))]"

definition FallbackWriteInc :: "metrics \<Rightarrow> metrics" where
  "FallbackWriteInc m = m @ [(FallbackWritesTotal, [], Inc)]"

definition FallbackReplay :: "string \<Rightarrow> metrics \<Rightarrow> metrics" where
  "FallbackReplay outcome m = m @ [(FallbackReplaysTotal, [outcome], Inc)]"

section \<open>Reading the collectors\<close>

text \<open>Number of times a call was made.\<close>

definition calls :: "metric_call \<Rightarrow> metrics \<Rightarrow> nat" where
  "calls c m = count (mset m) c"

text \<open>A gauge: the last value set, moved by later increments and decrements.\<close>

fun gauge_step :: "collector \<Rightarrow> string list \<Rightarrow> metric_call \<Rightarrow> int \<Rightarrow> int" where
  "gauge_step c ls (c', ls', op) v =
     (if c' = c \<and> ls' = ls then
        (case op of Inc \<Rightarrow> v + 1 | Dec \<Rightarrow> v - 1 | Set n \<Rightarrow> n | Observe _ \<Rightarrow> v)
      else v)"

definition gauge :: "collector \<Rightarrow> string list \<Rightarrow> metrics \<Rightarrow> int" where
  "gauge c ls m = fold (gauge_step c ls) m 0"

lemma gauge_append: "gauge c ls (m @ ys) = fold (gauge_step c ls) ys (gauge c ls m)"
  by (simp add: gauge_def)

lemma calls_append [simp]: "calls c (m @ ys) = calls c m + calls c ys"
  by (simp add: calls_def)

lemma calls_Nil [simp]: "calls c [] = 0"
  by (simp add: calls_def)

lemma calls_Cons [simp]: "calls c (x # m) = (if x = c then 1 else 0) + calls c m"
  by (simp add: calls_def)

end
