(* ===== verification/Go_Strings.thy ===== *)
theory Go_Strings
  imports Prelude "HOL-Library.Sublist"
begin

text \<open>
  What the program uses of Go's \<open>strings\<close> and \<open>strconv\<close>: suffix tests, decimal formatting and
  parsing of 64-bit integers, with the clamped value Go returns beside a range error.
\<close>

section \<open>strings.HasSuffix, strings.TrimSuffix\<close>

definition HasSuffix :: "string \<Rightarrow> string \<Rightarrow> bool" where
  "HasSuffix s suf \<longleftrightarrow> suffix suf s"

definition TrimSuffix :: "string \<Rightarrow> string \<Rightarrow> string" where
  "TrimSuffix s suf = (if HasSuffix s suf then take (length s - length suf) s else s)"

lemma HasSuffix_append [simp]: "HasSuffix (s @ suf) suf"
  by (simp add: HasSuffix_def suffix_def)

lemma TrimSuffix_append [simp]: "TrimSuffix (s @ suf) suf = s"
  by (simp add: TrimSuffix_def)

section \<open>strconv.FormatInt, base 10\<close>

definition digit_char :: "nat \<Rightarrow> char" where
  "digit_char d = byte (48 + d)"

fun fmt_nat :: "nat \<Rightarrow> string" where
  "fmt_nat n = (if n < 10 then [digit_char n] else fmt_nat (n div 10) @ [digit_char (n mod 10)])"

declare fmt_nat.simps [simp del]

definition FormatInt :: "int \<Rightarrow> string" where
  "FormatInt n = (if n < 0 then CHR ''-'' # fmt_nat (nat (- n)) else fmt_nat (nat n))"

section \<open>strconv.ParseInt with base 10 and bit size 64\<close>

definition is_digit :: "char \<Rightarrow> bool" where
  "is_digit c \<longleftrightarrow> 48 \<le> code c \<and> code c \<le> 57"

definition digit_val :: "char \<Rightarrow> nat" where
  "digit_val c = code c - 48"

datatype num_error = ErrSyntax | ErrRange

text \<open>The digits of an unsigned number; \<open>None\<close> where a character is not a digit.\<close>

fun parse_digits :: "nat \<Rightarrow> string \<Rightarrow> nat option" where
  "parse_digits acc [] = Some acc"
| "parse_digits acc (c # cs) =
     (if is_digit c then parse_digits (acc * 10 + digit_val c) cs else None)"

definition parse_nat :: "string \<Rightarrow> nat option" where
  "parse_nat s = (if s = [] then None else parse_digits 0 s)"

definition clamp_int64 :: "int \<Rightarrow> int \<times> num_error option" where
  "clamp_int64 n =
     (if n < minInt64 then (minInt64, Some ErrRange)
      else if maxInt64 < n then (maxInt64, Some ErrRange)
      else (n, None))"

text \<open>
  \<open>strconv.ParseInt(s, 10, 64)\<close> returns a number and an error. On a syntax error the number is 0,
  on a range error it is the nearest bound: a caller that drops the error still sees that number.
\<close>

fun ParseInt :: "string \<Rightarrow> int \<times> num_error option" where
  "ParseInt [] = (0, Some ErrSyntax)"
| "ParseInt (c # cs) =
     (if c = CHR ''-'' then
        (case parse_nat cs of None \<Rightarrow> (0, Some ErrSyntax) | Some n \<Rightarrow> clamp_int64 (- int n))
      else
        (case parse_nat (if c = CHR ''+'' then cs else c # cs) of
           None \<Rightarrow> (0, Some ErrSyntax)
         | Some n \<Rightarrow> clamp_int64 (int n)))"

section \<open>Decimal round trip\<close>

lemma is_digit_digit_char [simp]: "d < 10 \<Longrightarrow> is_digit (digit_char d)"
  by (simp add: is_digit_def digit_char_def of_char_of)

lemma digit_val_digit_char [simp]: "d < 10 \<Longrightarrow> digit_val (digit_char d) = d"
  by (simp add: digit_val_def digit_char_def of_char_of)

lemma parse_digits_append:
  "parse_digits acc (xs @ ys) =
     (case parse_digits acc xs of None \<Rightarrow> None | Some n \<Rightarrow> parse_digits n ys)"
  by (induction xs arbitrary: acc) auto

lemma fmt_nat_nonempty [simp]: "fmt_nat n \<noteq> []"
  by (subst fmt_nat.simps) simp

lemma fmt_nat_digits: "\<forall>c \<in> set (fmt_nat n). is_digit c"
proof (induction n rule: fmt_nat.induct)
  case (1 n)
  show ?case
    by (subst fmt_nat.simps) (use "1.IH" in auto)
qed

lemma parse_digits_fmt_nat: "parse_digits 0 (fmt_nat n) = Some n"
proof (induction n rule: fmt_nat.induct)
  case (1 n)
  show ?case
    by (subst fmt_nat.simps) (use "1.IH" in \<open>auto simp: parse_digits_append\<close>)
qed

lemma parse_nat_fmt_nat [simp]: "parse_nat (fmt_nat n) = Some n"
  by (simp add: parse_nat_def parse_digits_fmt_nat)

lemma not_digit_sign: "\<not> is_digit (CHR ''-'')" "\<not> is_digit (CHR ''+'')"
  by (simp_all add: is_digit_def)

lemma hd_fmt_nat: "is_digit (hd (fmt_nat n))"
  using fmt_nat_digits [of n] by simp

lemma ParseInt_fmt_nat: "ParseInt (fmt_nat n) = clamp_int64 (int n)"
proof -
  obtain c cs where eq: "fmt_nat n = c # cs"
    by (cases "fmt_nat n") auto
  then have "is_digit c"
    using hd_fmt_nat [of n] by simp
  then have "c \<noteq> CHR ''-''" and "c \<noteq> CHR ''+''"
    using not_digit_sign by auto
  then show ?thesis
    using parse_nat_fmt_nat [of n] eq by simp
qed

theorem ParseInt_FormatInt: "is_int64 n \<Longrightarrow> ParseInt (FormatInt n) = (n, None)"
proof (cases "n < 0")
  case True
  assume "is_int64 n"
  with True show ?thesis
    by (simp add: FormatInt_def is_int64_def clamp_int64_def)
next
  case False
  assume "is_int64 n"
  with False show ?thesis
    by (simp add: FormatInt_def ParseInt_fmt_nat is_int64_def clamp_int64_def)
qed

lemma ParseInt_range: "is_int64 (fst (ParseInt s))"
  by (cases s)
    (auto simp: is_int64_def clamp_int64_def minInt64_def maxInt64_def split: option.splits)

lemma FormatInt_nonempty [simp]: "FormatInt n \<noteq> []"
  by (simp add: FormatInt_def)

end
