(* ===== verification/World.thy ===== *)
theory World
  imports Metrics Go_Strings
begin

text \<open>
  The outside of the gateway's writers: the fallback directory, the clock, the Kafka client and the
  metrics. What the outside answers is an input of the model: \<open>fault n\<close>, \<open>clock n\<close> and
  \<open>kafka_err n\<close> are the outcomes of the \<open>n\<close>-th interaction, whatever they may be, and \<open>step\<close> counts
  the interactions. The directory maps entry names to inodes, so that an open file keeps its
  contents when its name is renamed or removed. Every path the fallback writer builds lies directly
  in its directory and is represented by its base name.
\<close>

record kmessage =
  Key :: "string option"
  Value :: "string option"

record world =
  step :: nat
  fault :: "nat \<Rightarrow> nat option"
  clock :: "nat \<Rightarrow> int"
  kafka_err :: "nat \<Rightarrow> bool"
  dirents :: "(string \<times> nat) list"
  inodes :: "nat \<Rightarrow> string"
  next_ino :: nat
  kafka_calls :: "(string \<times> kmessage \<times> bool) list"
  mets :: metrics
  panicked :: bool

definition tick :: "world \<Rightarrow> world" where
  "tick w = w\<lparr>step := Suc (step w)\<rparr>"

definition metric :: "(metrics \<Rightarrow> metrics) \<Rightarrow> world \<Rightarrow> world" where
  "metric f w = w\<lparr>mets := f (mets w)\<rparr>"

text \<open>A Go run-time panic: the process stops; the flag records that it happened.\<close>

definition panic :: "world \<Rightarrow> world" where
  "panic w = w\<lparr>panicked := True\<rparr>"

section \<open>System calls\<close>

text \<open>Outcome of the next interaction: \<open>Some n\<close> is a failure, after \<open>n\<close> bytes where it moves data.\<close>

abbreviation failing :: "world \<Rightarrow> nat option" where
  "failing w \<equiv> fault w (step w)"

definition time_Now :: "world \<Rightarrow> int \<times> world" where
  "time_Now w = (clock w (step w), tick w)"

definition os_MkdirAll :: "world \<Rightarrow> error option \<times> world" where
  "os_MkdirAll w = (if failing w = None then None else Some (ErrSyscall ''mkdir''), tick w)"

text \<open>\<open>os.ReadDir\<close> returns the entries sorted by name.\<close>

definition os_ReadDir :: "world \<Rightarrow> (error + string list) \<times> world" where
  "os_ReadDir w =
     (if failing w = None then Inr (sort (map fst (dirents w))) else Inl (ErrSyscall ''readdir''), tick w)"

definition unlink :: "string \<Rightarrow> (string \<times> nat) list \<Rightarrow> (string \<times> nat) list" where
  "unlink name ds = filter (\<lambda>p. fst p \<noteq> name) ds"

definition os_Rename :: "string \<Rightarrow> string \<Rightarrow> world \<Rightarrow> error option \<times> world" where
  "os_Rename from to w =
     (case (failing w, map_of (dirents w) from) of
        (None, Some i) \<Rightarrow> (None, (tick w)\<lparr>dirents := (to, i) # unlink to (unlink from (dirents w))\<rparr>)
      | _ \<Rightarrow> (Some (ErrSyscall ''rename''), tick w))"

definition os_Remove :: "string \<Rightarrow> world \<Rightarrow> error option \<times> world" where
  "os_Remove name w =
     (case (failing w, map_of (dirents w) name) of
        (None, Some i) \<Rightarrow> (None, (tick w)\<lparr>dirents := unlink name (dirents w)\<rparr>)
      | _ \<Rightarrow> (Some (ErrSyscall ''remove''), tick w))"

text \<open>\<open>os.OpenFile\<close> for appending, creating the file when the name is free.\<close>

definition os_OpenFile :: "string \<Rightarrow> world \<Rightarrow> (error + nat) \<times> world" where
  "os_OpenFile name w =
     (if failing w \<noteq> None then (Inl (ErrSyscall ''open''), tick w)
      else case map_of (dirents w) name of
        Some i \<Rightarrow> (Inr i, tick w)
      | None \<Rightarrow>
          (Inr (next_ino w),
           (tick w)\<lparr>dirents := (name, next_ino w) # dirents w, next_ino := Suc (next_ino w),
                    inodes := (inodes w)(next_ino w := [])\<rparr>))"

definition os_Open :: "string \<Rightarrow> world \<Rightarrow> (error + nat) \<times> world" where
  "os_Open name w =
     (case (failing w, map_of (dirents w) name) of
        (None, Some i) \<Rightarrow> (Inr i, tick w)
      | _ \<Rightarrow> (Inl (ErrSyscall ''open''), tick w))"

text \<open>A write that fails may have moved a prefix of the bytes.\<close>

definition file_Write :: "nat \<Rightarrow> string \<Rightarrow> world \<Rightarrow> error option \<times> world" where
  "file_Write i body w =
     (case failing w of
        None \<Rightarrow> (None, (tick w)\<lparr>inodes := (inodes w)(i := inodes w i @ body)\<rparr>)
      | Some n \<Rightarrow>
          (Some (ErrSyscall ''write''), (tick w)\<lparr>inodes := (inodes w)(i := inodes w i @ take n body)\<rparr>))"

definition file_Close :: "world \<Rightarrow> error option \<times> world" where
  "file_Close w = (if failing w = None then None else Some (ErrSyscall ''close''), tick w)"

definition file_Sync :: "world \<Rightarrow> error option \<times> world" where
  "file_Sync w = (if failing w = None then None else Some (ErrSyscall ''sync''), tick w)"

section \<open>Well-formed directories\<close>

definition wf_world :: "world \<Rightarrow> bool" where
  "wf_world w \<longleftrightarrow> distinct (map fst (dirents w)) \<and> (\<forall>i \<in> snd ` set (dirents w). i < next_ino w)"

definition no_faults :: "world \<Rightarrow> bool" where
  "no_faults w \<longleftrightarrow> (\<forall>n. fault w n = None)"

lemma no_faultsD [simp]: "no_faults w \<Longrightarrow> fault w n = None"
  by (simp add: no_faults_def)

lemma no_faults_tick [simp]: "no_faults (tick w) = no_faults w" "no_faults (metric f w) = no_faults w"
  by (simp_all add: tick_def metric_def no_faults_def)

lemma distinct_unlink: "distinct (map fst ds) \<Longrightarrow> distinct (map fst (unlink x ds))"
  by (simp add: unlink_def distinct_map_filter)

lemma map_of_unlink: "map_of (unlink x ds) y = (if y = x then None else map_of ds y)"
  by (simp add: unlink_def map_of_filter_fst)

lemma fst_unlink [simp]: "fst ` set (unlink x ds) = fst ` set ds - {x}"
  by (force simp: unlink_def)

lemma set_unlink: "set (unlink x ds) = {p \<in> set ds. fst p \<noteq> x}"
  by (simp add: unlink_def)

end
