(* ===== verification/Go_Json.thy ===== *)
theory Go_Json
  imports Go_Strings
begin

text \<open>
  What the program uses of Go's \<open>unicode/utf8\<close> and \<open>encoding/json\<close> (the v1 package): the scanner
  that checks validity, string quoting with HTML escaping and its inverse, the compaction applied
  to a \<open>json.RawMessage\<close>, the writer of a struct, and the reader of a flat struct. The scanner is
  the library's own push-down automaton, one state per step function; \<open>stateEndTop\<close> is \<open>EndValue\<close>
  with an empty stack, which accepts the same bytes.
\<close>

section \<open>UTF-8\<close>

definition is_cont :: "char \<Rightarrow> bool" where
  "is_cont c \<longleftrightarrow> 128 \<le> code c \<and> code c \<le> 191"

text \<open>The range of the second byte that a given first byte allows.\<close>

definition second_ok :: "char \<Rightarrow> char \<Rightarrow> bool" where
  "second_ok a b \<longleftrightarrow>
     (if code a = 224 then 160 else if code a = 240 then 144 else 128) \<le> code b \<and>
     code b \<le> (if code a = 237 then 159 else if code a = 244 then 143 else 191)"

text \<open>
  Length of the well-formed sequence at the head of a string, 0 where \<open>utf8.DecodeRune\<close> returns
  \<open>RuneError\<close> (width 1, or 0 on the empty string).
\<close>

fun utf8_len :: "string \<Rightarrow> nat" where
  "utf8_len [] = 0"
| "utf8_len (a # r) =
     (if code a < 128 then 1
      else if 194 \<le> code a \<and> code a \<le> 223 then
        (case r of b # _ \<Rightarrow> if is_cont b then 2 else 0 | _ \<Rightarrow> 0)
      else if 224 \<le> code a \<and> code a \<le> 239 then
        (case r of b # c # _ \<Rightarrow> if second_ok a b \<and> is_cont c then 3 else 0 | _ \<Rightarrow> 0)
      else if 240 \<le> code a \<and> code a \<le> 244 then
        (case r of b # c # d # _ \<Rightarrow> if second_ok a b \<and> is_cont c \<and> is_cont d then 4 else 0
         | _ \<Rightarrow> 0)
      else 0)"

declare utf8_len.simps(2) [simp del]

fun ValidString :: "string \<Rightarrow> bool" where
  "ValidString [] = True"
| "ValidString (c # cs) =
     (let n = utf8_len (c # cs) in n \<noteq> 0 \<and> ValidString (drop (n - 1) cs))"

text \<open>\<open>utf8.EncodeRune\<close>.\<close>

definition EncodeRune :: "nat \<Rightarrow> string" where
  "EncodeRune r =
     (if r < 128 then [byte r]
      else if r < 2048 then [byte (192 + r div 64), byte (128 + r mod 64)]
      else if 55296 \<le> r \<and> r < 57344 \<or> 1114111 < r then [byte 239, byte 191, byte 189]
      else if r < 65536 then
        [byte (224 + r div 4096), byte (128 + r div 64 mod 64), byte (128 + r mod 64)]
      else [byte (240 + r div 262144), byte (128 + r div 4096 mod 64),
            byte (128 + r div 64 mod 64), byte (128 + r mod 64)])"

text \<open>The string with every ill-formed byte replaced by U+FFFD.\<close>

fun ToValid :: "string \<Rightarrow> string" where
  "ToValid [] = []"
| "ToValid (c # cs) =
     (let n = utf8_len (c # cs) in
      if n = 0 then EncodeRune 65533 @ ToValid cs
      else take n (c # cs) @ ToValid (drop (n - 1) cs))"

declare ValidString.simps(2) [simp del] ToValid.simps(2) [simp del]

section \<open>Quoting strings\<close>

definition hex_char :: "nat \<Rightarrow> char" where
  "hex_char d = (if d < 10 then byte (48 + d) else byte (87 + d))"

definition u00 :: "char \<Rightarrow> string" where
  "u00 c = [CHR 0x5C, CHR ''u'', CHR ''0'', CHR ''0'', hex_char (code c div 16), hex_char (code c mod 16)]"

text \<open>One ASCII byte of a quoted string, HTML escaping on.\<close>

definition quote_ascii :: "char \<Rightarrow> string" where
  "quote_ascii c =
     (if c = CHR 0x5C \<or> c = CHR 0x22 then [CHR 0x5C, c]
      else if code c = 8 then [CHR 0x5C, CHR ''b'']
      else if code c = 12 then [CHR 0x5C, CHR ''f'']
      else if code c = 10 then [CHR 0x5C, CHR ''n'']
      else if code c = 13 then [CHR 0x5C, CHR ''r'']
      else if code c = 9 then [CHR 0x5C, CHR ''t'']
      else if code c < 32 \<or> c = CHR ''<'' \<or> c = CHR ''>'' \<or> c = CHR ''&'' then u00 c
      else [c])"

text \<open>U+2028 and U+2029, which the writer escapes for JavaScript's sake.\<close>

definition is_2028 :: "string \<Rightarrow> bool" where
  "is_2028 s \<longleftrightarrow> (case s of a # b # c # _ \<Rightarrow>
     code a = 226 \<and> code b = 128 \<and> (code c = 168 \<or> code c = 169) | _ \<Rightarrow> False)"

definition u202 :: "char \<Rightarrow> string" where
  "u202 c = [CHR 0x5C, CHR ''u'', CHR ''2'', CHR ''0'', CHR ''2'', hex_char (code c mod 16)]"

definition u_fffd :: string where
  "u_fffd = [CHR 0x5C, CHR ''u'', CHR ''f'', CHR ''f'', CHR ''f'', CHR ''d'']"

fun quote_body :: "string \<Rightarrow> string" where
  "quote_body [] = []"
| "quote_body (c # cs) =
     (if code c < 128 then quote_ascii c @ quote_body cs
      else
        (let n = utf8_len (c # cs) in
         if n = 0 then u_fffd @ quote_body cs
         else if is_2028 (c # cs) then u202 (cs ! 1) @ quote_body (drop 2 cs)
         else take n (c # cs) @ quote_body (drop (n - 1) cs)))"

declare quote_body.simps(2) [simp del]

definition quote :: "string \<Rightarrow> string" where
  "quote s = CHR 0x22 # quote_body s @ [CHR 0x22]"

section \<open>Unquoting strings\<close>

definition hex_val :: "char \<Rightarrow> nat option" where
  "hex_val c =
     (if 48 \<le> code c \<and> code c \<le> 57 then Some (code c - 48)
      else if 97 \<le> code c \<and> code c \<le> 102 then Some (code c - 87)
      else if 65 \<le> code c \<and> code c \<le> 70 then Some (code c - 55)
      else None)"

definition is_hex :: "char \<Rightarrow> bool" where
  "is_hex c \<longleftrightarrow> hex_val c \<noteq> None"

text \<open>\<open>getu4\<close> on the bytes after the backslash and the \<open>u\<close>.\<close>

fun getu4 :: "string \<Rightarrow> nat option" where
  "getu4 (a # b # c # d # _) =
     (case (hex_val a, hex_val b, hex_val c, hex_val d) of
        (Some p, Some q, Some r, Some s) \<Rightarrow> Some (((p * 16 + q) * 16 + r) * 16 + s)
      | _ \<Rightarrow> None)"
| "getu4 _ = None"

definition is_surrogate :: "nat \<Rightarrow> bool" where
  "is_surrogate r \<longleftrightarrow> 55296 \<le> r \<and> r < 57344"

text \<open>A second escape that completes the surrogate pair begun by \<open>r1\<close>.\<close>

definition decode_pair :: "nat \<Rightarrow> string \<Rightarrow> nat option" where
  "decode_pair r1 s =
     (case s of
        a # b # t \<Rightarrow>
          (if a = CHR 0x5C \<and> b = CHR ''u'' then
             (case getu4 t of
                Some r2 \<Rightarrow>
                  (if 55296 \<le> r1 \<and> r1 < 56320 \<and> 56320 \<le> r2 \<and> r2 < 57344
                   then Some ((r1 - 55296) * 1024 + (r2 - 56320) + 65536) else None)
              | None \<Rightarrow> None)
           else None)
      | _ \<Rightarrow> None)"

definition simple_escape :: "char \<Rightarrow> char option" where
  "simple_escape e =
     (if e = CHR 0x22 \<or> e = CHR 0x5C \<or> e = CHR ''/'' \<or> e = CHR 0x27 then Some e
      else if e = CHR ''b'' then Some (byte 8)
      else if e = CHR ''f'' then Some (byte 12)
      else if e = CHR ''n'' then Some (byte 10)
      else if e = CHR ''r'' then Some (byte 13)
      else if e = CHR ''t'' then Some (byte 9)
      else None)"

fun unquote_body :: "string \<Rightarrow> string option" where
  "unquote_body [] = Some []"
| "unquote_body (c # cs) =
     (if c = CHR 0x5C then
        (case cs of
           [] \<Rightarrow> None
         | e # r \<Rightarrow>
             (case simple_escape e of
                Some b \<Rightarrow> map_option (Cons b) (unquote_body r)
              | None \<Rightarrow>
                  if e = CHR ''u'' then
                    (case getu4 r of
                       None \<Rightarrow> None
                     | Some rr \<Rightarrow>
                         if is_surrogate rr then
                           (case decode_pair rr (drop 4 r) of
                              Some dec \<Rightarrow> map_option ((@) (EncodeRune dec)) (unquote_body (drop 10 r))
                            | None \<Rightarrow> map_option ((@) (EncodeRune 65533)) (unquote_body (drop 4 r)))
                         else map_option ((@) (EncodeRune rr)) (unquote_body (drop 4 r)))
                  else None))
      else if c = CHR 0x22 \<or> code c < 32 then None
      else if code c < 128 then map_option (Cons c) (unquote_body cs)
      else
        (let n = utf8_len (c # cs) in
         if n = 0 then map_option ((@) (EncodeRune 65533)) (unquote_body cs)
         else map_option ((@) (take n (c # cs))) (unquote_body (drop (n - 1) cs))))"

declare unquote_body.simps(2) [simp del]

definition unquote :: "string \<Rightarrow> string option" where
  "unquote s =
     (if length s < 2 \<or> hd s \<noteq> CHR 0x22 \<or> last s \<noteq> CHR 0x22 then None
      else unquote_body (butlast (tl s)))"

section \<open>The scanner\<close>

definition is_space :: "char \<Rightarrow> bool" where
  "is_space c \<longleftrightarrow> c = CHR '' '' \<or> code c = 9 \<or> code c = 13 \<or> code c = 10"

datatype scan_state =
    BeginValue | BeginValueOrEmpty | BeginStringOrEmpty | BeginString
  | InString | InStringEsc | InStringEscU | InStringEscU1 | InStringEscU12 | InStringEscU123
  | Neg | State1 | State0 | Dot | Dot0 | StateE | ESign | E0
  | StateT | Tr | Tru | StateF | Fa | Fal | Fals | StateN | Nu | Nul
  | EndValue

datatype parse_state = ObjectKey | ObjectValue | ArrayValue

type_synonym scanner = "scan_state \<times> parse_state list"

fun end_value :: "parse_state list \<Rightarrow> char \<Rightarrow> scanner option" where
  "end_value [] c = (if is_space c then Some (EndValue, []) else None)"
| "end_value (p # k) c =
     (if is_space c then Some (EndValue, p # k)
      else case p of
        ObjectKey \<Rightarrow> if c = CHR '':'' then Some (BeginValue, ObjectValue # k) else None
      | ObjectValue \<Rightarrow>
          if c = CHR '','' then Some (BeginString, ObjectKey # k)
          else if c = CHR ''}'' then Some (EndValue, k) else None
      | ArrayValue \<Rightarrow>
          if c = CHR '','' then Some (BeginValue, ArrayValue # k)
          else if c = CHR '']'' then Some (EndValue, k) else None)"

definition push :: "nat \<Rightarrow> scan_state \<Rightarrow> parse_state \<Rightarrow> parse_state list \<Rightarrow> scanner option" where
  "push lim s p k = (if length (p # k) \<le> lim then Some (s, p # k) else None)"

definition begin_value :: "nat \<Rightarrow> parse_state list \<Rightarrow> char \<Rightarrow> scanner option" where
  "begin_value lim k c =
     (if is_space c then Some (BeginValue, k)
      else if c = CHR ''{'' then push lim BeginStringOrEmpty ObjectKey k
      else if c = CHR ''['' then push lim BeginValueOrEmpty ArrayValue k
      else if c = CHR 0x22 then Some (InString, k)
      else if c = CHR ''-'' then Some (Neg, k)
      else if c = CHR ''0'' then Some (State0, k)
      else if c = CHR ''t'' then Some (StateT, k)
      else if c = CHR ''f'' then Some (StateF, k)
      else if c = CHR ''n'' then Some (StateN, k)
      else if is_digit c then Some (State1, k)
      else None)"

definition begin_string :: "parse_state list \<Rightarrow> char \<Rightarrow> scanner option" where
  "begin_string k c =
     (if is_space c then Some (BeginString, k)
      else if c = CHR 0x22 then Some (InString, k) else None)"

definition state0 :: "parse_state list \<Rightarrow> char \<Rightarrow> scanner option" where
  "state0 k c =
     (if c = CHR ''.'' then Some (Dot, k)
      else if c = CHR ''e'' \<or> c = CHR ''E'' then Some (StateE, k)
      else end_value k c)"

definition expect :: "bool \<Rightarrow> scan_state \<Rightarrow> parse_state list \<Rightarrow> scanner option" where
  "expect b s k = (if b then Some (s, k) else None)"

fun scan_step :: "nat \<Rightarrow> scanner \<Rightarrow> char \<Rightarrow> scanner option" where
  "scan_step lim (BeginValue, k) c = begin_value lim k c"
| "scan_step lim (BeginValueOrEmpty, k) c =
     (if is_space c then Some (BeginValueOrEmpty, k)
      else if c = CHR '']'' then end_value k c else begin_value lim k c)"
| "scan_step lim (BeginStringOrEmpty, k) c =
     (if is_space c then Some (BeginStringOrEmpty, k)
      else if c = CHR ''}'' then end_value (ObjectValue # tl k) c else begin_string k c)"
| "scan_step lim (BeginString, k) c = begin_string k c"
| "scan_step lim (InString, k) c =
     (if c = CHR 0x22 then Some (EndValue, k)
      else if c = CHR 0x5C then Some (InStringEsc, k)
      else if code c < 32 then None else Some (InString, k))"
| "scan_step lim (InStringEsc, k) c =
     (if c \<in> {CHR ''b'', CHR ''f'', CHR ''n'', CHR ''r'', CHR ''t'', CHR 0x5C, CHR ''/'', CHR 0x22}
      then Some (InString, k) else expect (c = CHR ''u'') InStringEscU k)"
| "scan_step lim (InStringEscU, k) c = expect (is_hex c) InStringEscU1 k"
| "scan_step lim (InStringEscU1, k) c = expect (is_hex c) InStringEscU12 k"
| "scan_step lim (InStringEscU12, k) c = expect (is_hex c) InStringEscU123 k"
| "scan_step lim (InStringEscU123, k) c = expect (is_hex c) InString k"
| "scan_step lim (Neg, k) c =
     (if c = CHR ''0'' then Some (State0, k) else expect (is_digit c) State1 k)"
| "scan_step lim (State1, k) c = (if is_digit c then Some (State1, k) else state0 k c)"
| "scan_step lim (State0, k) c = state0 k c"
| "scan_step lim (Dot, k) c = expect (is_digit c) Dot0 k"
| "scan_step lim (Dot0, k) c =
     (if is_digit c then Some (Dot0, k)
      else if c = CHR ''e'' \<or> c = CHR ''E'' then Some (StateE, k) else end_value k c)"
| "scan_step lim (StateE, k) c =
     (if c = CHR ''+'' \<or> c = CHR ''-'' then Some (ESign, k) else expect (is_digit c) E0 k)"
| "scan_step lim (ESign, k) c = expect (is_digit c) E0 k"
| "scan_step lim (E0, k) c = (if is_digit c then Some (E0, k) else end_value k c)"
| "scan_step lim (StateT, k) c = expect (c = CHR ''r'') Tr k"
| "scan_step lim (Tr, k) c = expect (c = CHR ''u'') Tru k"
| "scan_step lim (Tru, k) c = expect (c = CHR ''e'') EndValue k"
| "scan_step lim (StateF, k) c = expect (c = CHR ''a'') Fa k"
| "scan_step lim (Fa, k) c = expect (c = CHR ''l'') Fal k"
| "scan_step lim (Fal, k) c = expect (c = CHR ''s'') Fals k"
| "scan_step lim (Fals, k) c = expect (c = CHR ''e'') EndValue k"
| "scan_step lim (StateN, k) c = expect (c = CHR ''u'') Nu k"
| "scan_step lim (Nu, k) c = expect (c = CHR ''l'') Nul k"
| "scan_step lim (Nul, k) c = expect (c = CHR ''l'') EndValue k"
| "scan_step lim (EndValue, k) c = end_value k c"

fun scan_run :: "nat \<Rightarrow> scanner \<Rightarrow> string \<Rightarrow> scanner option" where
  "scan_run lim st [] = Some st"
| "scan_run lim st (c # cs) =
     (case scan_step lim st c of None \<Rightarrow> None | Some st' \<Rightarrow> scan_run lim st' cs)"

text \<open>The states in which the value read so far may end here.\<close>

definition may_end :: "scan_state \<Rightarrow> bool" where
  "may_end s \<longleftrightarrow> s \<in> {EndValue, State0, State1, Dot0, E0}"

text \<open>\<open>scanner.eof\<close>: the scanner is fed one space and must then have ended the top-level value.\<close>

definition scan_eof :: "nat \<Rightarrow> scanner \<Rightarrow> bool" where
  "scan_eof lim st \<longleftrightarrow> scan_step lim st (CHR '' '') = Some (EndValue, [])"

definition maxNestingDepth :: nat where
  "maxNestingDepth = 10000"

definition valid_upto :: "nat \<Rightarrow> string \<Rightarrow> bool" where
  "valid_upto lim s \<longleftrightarrow>
     (case scan_run lim (BeginValue, []) s of None \<Rightarrow> False | Some st \<Rightarrow> scan_eof lim st)"

definition checkValid :: "string \<Rightarrow> bool" where
  "checkValid s = valid_upto maxNestingDepth s"

section \<open>Compaction of raw messages\<close>

text \<open>
  \<open>appendCompact\<close> with HTML escaping: what the writer emits for the byte \<open>c\<close>, with \<open>cs\<close> still to
  come, and how many of the following bytes it has already written in escaped form.
\<close>

definition compact_emit :: "scanner \<Rightarrow> char \<Rightarrow> string \<Rightarrow> string \<times> nat" where
  "compact_emit st c cs =
     (if c = CHR ''<'' \<or> c = CHR ''>'' \<or> c = CHR ''&'' then (u00 c, 0)
      else if is_2028 (c # cs) then (u202 (cs ! 1), 2)
      else if is_space c \<and> fst st \<noteq> InString then ([], 0)
      else ([c], 0))"

fun compact_from :: "nat \<Rightarrow> scanner \<Rightarrow> nat \<Rightarrow> string \<Rightarrow> string option" where
  "compact_from lim st skip [] = (if scan_eof lim st then Some [] else None)"
| "compact_from lim st skip (c # cs) =
     (case scan_step lim st c of
        None \<Rightarrow> None
      | Some st' \<Rightarrow>
          (case skip of
             Suc n \<Rightarrow> compact_from lim st' n cs
           | 0 \<Rightarrow> map_option ((@) (fst (compact_emit st c cs)))
                    (compact_from lim st' (snd (compact_emit st c cs)) cs)))"

definition compact :: "string \<Rightarrow> string option" where
  "compact s = compact_from maxNestingDepth (BeginValue, []) 0 s"

text \<open>
  A \<open>json.RawMessage\<close> as a struct field: the nil slice (\<open>None\<close>) is written as \<open>null\<close>, other
  contents are checked and compacted.
\<close>

definition marshal_raw :: "string option \<Rightarrow> string option" where
  "marshal_raw d = (case d of None \<Rightarrow> compact ''null'' | Some s \<Rightarrow> compact s)"

section \<open>Writing a struct\<close>

fun json_members :: "(string \<times> string) list \<Rightarrow> string" where
  "json_members [] = []"
| "json_members [(k, v)] = quote k @ CHR '':'' # v"
| "json_members ((k, v) # ms) = quote k @ CHR '':'' # v @ CHR '','' # json_members ms"

definition json_object :: "(string \<times> string) list \<Rightarrow> string" where
  "json_object ms = CHR ''{'' # json_members ms @ [CHR ''}'']"

text \<open>A string member with the \<open>omitempty\<close> option.\<close>

definition omit_empty :: "string \<Rightarrow> string \<Rightarrow> (string \<times> string) list" where
  "omit_empty k s = (if s = [] then [] else [(k, quote s)])"

section \<open>Reading a flat struct\<close>

abbreviation skip_ws :: "string \<Rightarrow> string" where
  "skip_ws \<equiv> dropWhile is_space"

text \<open>
  The text of the value at the head of the input and the rest of the input: the scanner, started
  afresh, is run until it has ended the value.
\<close>

fun take_value :: "scanner \<Rightarrow> string \<Rightarrow> string \<times> string" where
  "take_value st [] = ([], [])"
| "take_value st (c # cs) =
     (case scan_step maxNestingDepth st c of
        None \<Rightarrow> ([], c # cs)
      | Some st' \<Rightarrow>
          if st' = (EndValue, []) then (if is_space c then ([], c # cs) else ([c], cs))
          else (let (v, r) = take_value st' cs in (c # v, r)))"

lemma take_value_append: "take_value st s = (v, r) \<Longrightarrow> v @ r = s"
  by (induction s arbitrary: st v r) (auto split: option.splits prod.splits if_splits)

lemma length_take_value: "length (snd (take_value st s)) \<le> length s"
proof -
  obtain v r where eq: "take_value st s = (v, r)"
    by (cases "take_value st s")
  then have "length v + length r = length s"
    using take_value_append [OF eq] by (metis length_append)
  then show ?thesis
    by (simp add: eq)
qed

text \<open>
  The members of an object, from just after its opening brace: key literal and value text, in the
  order of the input. It is applied to text that has passed \<open>checkValid\<close> only.
\<close>

definition value_text :: "string \<Rightarrow> string \<times> string" where
  "value_text s = take_value (BeginValue, []) (skip_ws s)"

lemma length_value_text: "length (snd (value_text s)) \<le> length s"
  unfolding value_text_def using length_take_value length_dropWhile_less le_trans by blast

function object_members :: "string \<Rightarrow> (string \<times> string) list" where
  "object_members s =
     (case skip_ws s of
        [] \<Rightarrow> []
      | c # cs \<Rightarrow>
          if c = CHR ''}'' then []
          else
            (let (k, r1) = value_text s; (v, r2) = value_text (tl (skip_ws r1)) in
             (k, v) # (case skip_ws r2 of
                         [] \<Rightarrow> []
                       | d # ds \<Rightarrow> if d = CHR '','' then object_members ds else [])))"
  by pat_completeness auto
termination
proof (relation "measure length")
  fix s c cs p k r1 q v r2 d ds
  assume p: "p = value_text s" "(k, r1) = p"
    and q: "q = value_text (tl (skip_ws r1))" "(v, r2) = q"
    and d: "skip_ws r2 = d # ds"
  have "length (skip_ws r2) \<le> length r2"
    by simp
  also have "length r2 \<le> length (tl (skip_ws r1))"
    using q length_value_text by (metis snd_conv)
  also have "\<dots> \<le> length r1"
    by (metis length_dropWhile_less length_tl diff_le_self le_trans)
  also have "\<dots> \<le> length s"
    using p length_value_text by (metis snd_conv)
  finally show "(ds, s) \<in> measure length"
    using d by simp
qed simp

declare object_members.simps [simp del]

text \<open>
  \<open>json.Unmarshal\<close> into a pointer to a struct: \<open>None\<close> is an error. A \<open>null\<close> leaves the struct as it
  is; any other value that is not an object is a type error. Keys come back unquoted.
\<close>

definition unmarshal_members :: "string \<Rightarrow> (string \<times> string) list option" where
  "unmarshal_members s =
     (if \<not> checkValid s then None
      else case skip_ws s of
        [] \<Rightarrow> None
      | c # cs \<Rightarrow>
          if c = CHR ''{'' then
            Some (map (\<lambda>(k, v). (case unquote k of Some k' \<Rightarrow> k' | None \<Rightarrow> k, v)) (object_members cs))
          else if c = CHR ''n'' then Some []
          else None)"

text \<open>
  A key selects a field by its exact name or, failing that, case-insensitively; beside the ASCII
  letters only U+017F and U+212A fold to ASCII letters (\<open>s\<close> and \<open>k\<close>).
\<close>

fun foldName :: "string \<Rightarrow> string" where
  "foldName [] = []"
| "foldName (c # cs) =
     (if code c = 197 \<and> cs \<noteq> [] \<and> code (hd cs) = 191 then CHR ''S'' # foldName (tl cs)
      else if code c = 226 \<and> 2 \<le> length cs \<and> code (cs ! 0) = 132 \<and> code (cs ! 1) = 170
      then CHR ''K'' # foldName (drop 2 cs)
      else (if 97 \<le> code c \<and> code c \<le> 122 then byte (code c - 32) else c) # foldName cs)"

definition field_match :: "string \<Rightarrow> string \<Rightarrow> bool" where
  "field_match f k \<longleftrightarrow> foldName k = foldName f"

text \<open>
  One field after all members have been stored, starting from its current value. Later members
  overwrite earlier ones, \<open>null\<close> leaves a string or an integer as it is, and a value of another type
  makes the whole call fail.
\<close>

fun get_string :: "string \<Rightarrow> (string \<times> string) list \<Rightarrow> string \<Rightarrow> string option" where
  "get_string f [] cur = Some cur"
| "get_string f ((k, v) # ms) cur =
     (if field_match f k then
        (if v \<noteq> [] \<and> hd v = CHR 0x22 then
           (case unquote v of None \<Rightarrow> None | Some s \<Rightarrow> get_string f ms s)
         else if v \<noteq> [] \<and> hd v = CHR ''n'' then get_string f ms cur
         else None)
      else get_string f ms cur)"

fun get_int64 :: "string \<Rightarrow> (string \<times> string) list \<Rightarrow> int \<Rightarrow> int option" where
  "get_int64 f [] cur = Some cur"
| "get_int64 f ((k, v) # ms) cur =
     (if field_match f k then
        (if v \<noteq> [] \<and> (hd v = CHR ''-'' \<or> is_digit (hd v)) then
           (case ParseInt v of (n, None) \<Rightarrow> get_int64 f ms n | (_, Some _) \<Rightarrow> None)
         else if v \<noteq> [] \<and> hd v = CHR ''n'' then get_int64 f ms cur
         else None)
      else get_int64 f ms cur)"

fun get_raw :: "string \<Rightarrow> (string \<times> string) list \<Rightarrow> string option \<Rightarrow> string option" where
  "get_raw f [] cur = cur"
| "get_raw f ((k, v) # ms) cur = get_raw f ms (if field_match f k then Some v else cur)"

end
