(* ===== verification/Go_Json_Props.thy ===== *)
theory Go_Json_Props
  imports Go_Json
begin

text \<open>
  Facts about the JSON model: quoting is undone by unquoting (up to the replacement of ill-formed
  UTF-8), the scanner accepts what the writers produce, compaction yields text the reader takes
  apart again, and reading a written struct returns its members.
\<close>

section \<open>UTF-8\<close>

lemma utf8_len_le: "utf8_len s \<le> length s"
  by (cases s) (auto simp: utf8_len.simps(2) split: list.splits)

lemma utf8_len_high:
  assumes "utf8_len (c # cs) = n" "128 \<le> code c" "x \<in> set (take n (c # cs))"
  shows "128 \<le> code x"
  using assms
  by (auto simp: utf8_len.simps(2) is_cont_def second_ok_def split: list.splits if_splits)

lemma utf8_len_take:
  "utf8_len s = n \<Longrightarrow> n \<noteq> 0 \<Longrightarrow> utf8_len (take n s @ t) = n"
  by (cases s) (auto simp: utf8_len.simps(2) split: list.splits if_splits)

lemma utf8_len_ascii: "code c < 128 \<Longrightarrow> utf8_len (c # cs) = 1"
  by (simp add: utf8_len.simps(2))

lemma is_2028_utf8_len: "is_2028 s \<Longrightarrow> utf8_len s = 3"
proof -
  assume "is_2028 s"
  then obtain a b c r where "s = a # b # c # r" "code a = 226" "code b = 128" "code c \<in> {168, 169}"
    by (auto simp: is_2028_def split: list.split_asm)
  then show "utf8_len s = 3"
    by (auto simp: utf8_len.simps(2) second_ok_def is_cont_def)
qed

lemma ToValid_ascii: "code c < 128 \<Longrightarrow> ToValid (c # cs) = c # ToValid cs"
  by (simp add: ToValid.simps(2) utf8_len_ascii)

lemma ToValid_bad: "utf8_len (c # cs) = 0 \<Longrightarrow> ToValid (c # cs) = EncodeRune 65533 @ ToValid cs"
  by (simp add: ToValid.simps(2))

lemma ToValid_multi:
  "utf8_len (c # cs) = n \<Longrightarrow> n \<noteq> 0 \<Longrightarrow>
   ToValid (c # cs) = take n (c # cs) @ ToValid (drop (n - 1) cs)"
  by (simp add: ToValid.simps(2) Let_def)

lemma ToValid_ValidString: "ValidString s \<Longrightarrow> ToValid s = s"
proof (induction s rule: ToValid.induct)
  case (2 c cs)
  define n where "n = utf8_len (c # cs)"
  have n: "n \<noteq> 0" and v: "ValidString (drop (n - 1) cs)"
    using "2.prems" by (simp_all add: ValidString.simps(2) n_def Let_def)
  then have "ToValid (drop (n - 1) cs) = drop (n - 1) cs"
    using "2.IH"(2) [OF n_def] n by simp
  then show ?case
    using n by (simp add: ToValid.simps(2) n_def [symmetric] Let_def) (cases n; simp)
qed simp

section \<open>Quoting is undone by unquoting\<close>

lemma quote_body_ascii: "code c < 128 \<Longrightarrow> quote_body (c # cs) = quote_ascii c @ quote_body cs"
  by (simp add: quote_body.simps(2))

lemma quote_body_bad:
  "128 \<le> code c \<Longrightarrow> utf8_len (c # cs) = 0 \<Longrightarrow> quote_body (c # cs) = u_fffd @ quote_body cs"
  by (simp add: quote_body.simps(2))

lemma quote_body_2028:
  "is_2028 (a # b # c # r) \<Longrightarrow> quote_body (a # b # c # r) = u202 c @ quote_body r"
  using is_2028_utf8_len [of "a # b # c # r"] by (simp add: quote_body.simps(2) [of a] is_2028_def)

lemma quote_body_multi:
  "128 \<le> code c \<Longrightarrow> utf8_len (c # cs) = n \<Longrightarrow> n \<noteq> 0 \<Longrightarrow> \<not> is_2028 (c # cs) \<Longrightarrow>
   quote_body (c # cs) = take n (c # cs) @ quote_body (drop (n - 1) cs)"
  by (simp add: quote_body.simps(2) Let_def)

text \<open>An induction that follows the cases the writer distinguishes.\<close>

lemma quote_cases [case_names Nil Ascii Bad LineSep Multi]:
  assumes "P []"
    and "\<And>c cs. code c < 128 \<Longrightarrow> P cs \<Longrightarrow> P (c # cs)"
    and "\<And>c cs. 128 \<le> code c \<Longrightarrow> utf8_len (c # cs) = 0 \<Longrightarrow> P cs \<Longrightarrow> P (c # cs)"
    and "\<And>a b c r. is_2028 (a # b # c # r) \<Longrightarrow> P r \<Longrightarrow> P (a # b # c # r)"
    and "\<And>c cs n. 128 \<le> code c \<Longrightarrow> utf8_len (c # cs) = n \<Longrightarrow> n \<noteq> 0 \<Longrightarrow>
           \<not> is_2028 (c # cs) \<Longrightarrow> P (drop (n - 1) cs) \<Longrightarrow> P (c # cs)"
  shows "P (s :: string)"
proof (induction s rule: length_induct)
  case (1 s)
  show ?case
  proof (cases s)
    case Nil
    then show ?thesis using assms(1) by simp
  next
    case (Cons c cs)
    have IH: "\<And>t. length t \<le> length cs \<Longrightarrow> P t"
      using 1 Cons by auto
    consider "code c < 128" | "128 \<le> code c" "utf8_len (c # cs) = 0"
      | "is_2028 (c # cs)" | "128 \<le> code c" "utf8_len (c # cs) \<noteq> 0" "\<not> is_2028 (c # cs)"
      by linarith
    then show ?thesis
    proof cases
      case 3
      then obtain b d r where "cs = b # d # r"
        by (auto simp: is_2028_def split: list.splits)
      then show ?thesis
        using 3 Cons IH [of r] assms(4) by simp
    next
      case 4
      then show ?thesis
        using assms(5) [of c cs, OF _ refl] IH Cons by simp
    qed (use Cons IH [of cs] assms(2,3) in simp_all)
  qed
qed

lemma hex_val_hex_char: "d < 16 \<Longrightarrow> hex_val (hex_char d) = Some d"
  by (simp add: hex_val_def hex_char_def of_char_of)

lemma unquote_u00:
  assumes "code c < 128"
  shows "unquote_body (u00 c @ t) = map_option (Cons c) (unquote_body t)"
proof -
  have "getu4 (drop 2 (u00 c @ t)) = Some (code c)"
    using assms by (simp add: u00_def hex_val_hex_char hex_val_def [of "CHR ''0''"])
  moreover have "\<not> is_surrogate (code c)" and "EncodeRune (code c) = [c]"
    using assms by (simp_all add: is_surrogate_def EncodeRune_def)
  ultimately show ?thesis
    by (simp add: u00_def unquote_body.simps(2) [of "CHR 0x5C"] simple_escape_def)
      (cases "unquote_body t"; simp)
qed

lemma unquote_quote_ascii:
  assumes "code c < 128"
  shows "unquote_body (quote_ascii c @ t) = map_option (Cons c) (unquote_body t)"
proof -
  have [simp]: "\<And>n. n < 256 \<Longrightarrow> code c = n \<Longrightarrow> byte n = c"
    by (metis byte_code)
  show ?thesis
    unfolding quote_ascii_def using assms
    by (auto simp: unquote_u00 unquote_body.simps(2) simple_escape_def)
qed

lemma getu4_fffd: "getu4 (CHR ''f'' # CHR ''f'' # CHR ''f'' # CHR ''d'' # t) = Some 65533"
  by (simp add: hex_val_def)

lemma unquote_fffd: "unquote_body (u_fffd @ t) = map_option ((@) (EncodeRune 65533)) (unquote_body t)"
  by (simp add: u_fffd_def unquote_body.simps(2) [of "CHR 0x5C"] simple_escape_def getu4_fffd
      is_surrogate_def del: getu4.simps)

lemma unquote_u202:
  assumes "is_2028 (a # b # c # r)"
  shows "unquote_body (u202 c @ t) = map_option ((@) [a, b, c]) (unquote_body t)"
proof -
  have abc: "code a = 226" "code b = 128" and c: "code c = 168 \<or> code c = 169"
    using assms by (auto simp: is_2028_def)
  have "a = byte 226" "b = byte 128" "c = byte 168 \<or> c = byte 169"
    using abc c by (metis byte_code)+
  then have "[a, b, c] = EncodeRune (code c - 168 + 8232)"
    by (auto simp: EncodeRune_def)
  moreover have "getu4 (drop 2 (u202 c @ t)) = Some (code c - 168 + 8232)"
    using c by (auto simp: u202_def hex_val_hex_char hex_val_def [of "CHR ''0''"] hex_val_def [of "CHR ''2''"])
  moreover have "\<not> is_surrogate (code c - 168 + 8232)"
    using c by (auto simp: is_surrogate_def)
  ultimately show ?thesis
    by (simp add: u202_def unquote_body.simps(2) [of "CHR 0x5C"] simple_escape_def)
qed

lemma unquote_multi:
  assumes "utf8_len (c # cs) = n" "n \<noteq> 0" "128 \<le> code c"
  shows "unquote_body (take n (c # cs) @ t) = map_option ((@) (take n (c # cs))) (unquote_body t)"
proof -
  obtain m where m: "n = Suc m"
    using assms(2) by (cases n) auto
  have len: "length (take n (c # cs)) = n"
    using utf8_len_le [of "c # cs"] assms(1) by simp
  have "utf8_len (take n (c # cs) @ t) = n"
    using assms utf8_len_take by blast
  moreover have "c \<noteq> CHR 0x5C" "c \<noteq> CHR 0x22"
    using assms(3) by auto
  ultimately show ?thesis
    using assms(3) len by (simp add: m unquote_body.simps(2) Let_def)
qed

theorem unquote_body_quote_body: "unquote_body (quote_body s) = Some (ToValid s)"
proof (induction s rule: quote_cases)
  case (LineSep a b c r)
  have "ToValid (a # b # c # r) = [a, b, c] @ ToValid r"
    using ToValid_multi [OF is_2028_utf8_len [OF LineSep(1)]] by simp
  then show ?case
    using LineSep by (simp add: quote_body_2028 unquote_u202)
next
  case (Multi c cs n)
  then show ?case
    by (simp add: quote_body_multi [OF Multi(1-4)] unquote_multi [OF Multi(2,3,1)]
        ToValid_multi [OF Multi(2,3)])
qed (simp_all add: quote_body_ascii quote_body_bad unquote_quote_ascii unquote_fffd ToValid_ascii
    ToValid_bad)

theorem unquote_quote: "unquote (quote s) = Some (ToValid s)"
  by (simp add: unquote_def quote_def unquote_body_quote_body butlast_append)

section \<open>Runs of the scanner\<close>

lemma is_space_simps [simp]:
  "is_space (CHR '' '')" "\<not> is_space (CHR '','')" "\<not> is_space (CHR ''}'')" "\<not> is_space (CHR '':'')"
  "\<not> is_space (CHR 0x22)" "\<not> is_space (CHR ''{'')" "\<not> is_space (CHR '']'')" "\<not> is_space (CHR ''-'')"
  by (simp_all add: is_space_def)

lemma is_space_not_digit: "is_space c \<Longrightarrow> \<not> is_digit c"
  by (auto simp: is_space_def is_digit_def)

lemma scan_eof_iff: "scan_eof lim (s, k) \<longleftrightarrow> k = [] \<and> may_end s"
proof -
  have "end_value k (CHR '' '') = Some (EndValue, k)"
    by (cases k) simp_all
  then show ?thesis
    by (cases s) (auto simp: scan_eof_def may_end_def begin_value_def begin_string_def
        state0_def expect_def is_hex_def hex_val_def is_digit_def)
qed

definition delim :: "char \<Rightarrow> bool" where
  "delim c \<longleftrightarrow> c = CHR '','' \<or> c = CHR ''}'' \<or> c = CHR '':''"

lemma scan_step_may_end:
  "may_end s \<Longrightarrow> delim c \<Longrightarrow> scan_step lim (s, k) c = end_value k c"
  by (auto simp: may_end_def delim_def state0_def is_digit_def)

text \<open>
  A value is read the same way below an enclosing stack, which deepens the nesting; the one state
  that inspects the stack below its own frames needs a frame of its own.
\<close>

definition stack_ok :: "scanner \<Rightarrow> bool" where
  "stack_ok st \<longleftrightarrow> (fst st = BeginStringOrEmpty \<longrightarrow> snd st \<noteq> [])"

lemma end_value_extend:
  "end_value k c = Some (s', k') \<Longrightarrow> end_value (k @ out) c = Some (s', k' @ out) \<and> s' \<noteq> BeginStringOrEmpty"
proof (cases "is_space c")
  case True
  then have *: "end_value l c = Some (EndValue, l)" for l
    by (cases l) simp_all
  then show "end_value k c = Some (s', k') \<Longrightarrow> ?thesis"
    by simp
next
  case False
  assume "end_value k c = Some (s', k')"
  then show ?thesis
    using False by (cases k; cases "hd k") (auto split: if_splits)
qed

lemma begin_value_extend:
  assumes "begin_value lim k c = Some (s', k')"
  shows "begin_value (lim + length out) (k @ out) c = Some (s', k' @ out) \<and> stack_ok (s', k')"
proof -
  have "begin_value (lim + length out) (k @ out) c =
      map_option (\<lambda>(s, k). (s, k @ out)) (begin_value lim k c)"
    by (simp add: begin_value_def push_def)
  moreover have "begin_value lim k c \<noteq> Some (BeginStringOrEmpty, [])"
    by (simp add: begin_value_def push_def)
  ultimately show ?thesis
    using assms by (auto simp: stack_ok_def)
qed

lemma begin_value_mono:
  assumes "begin_value lim k c = Some st'" "lim \<le> lim'"
  shows "begin_value lim' k c = Some st'"
proof -
  have "begin_value lim k c = None \<or> begin_value lim' k c = begin_value lim k c"
    using assms(2) by (simp add: begin_value_def push_def)
  then show ?thesis
    using assms(1) by auto
qed

lemma scan_step_extend:
  assumes "scan_step lim (s, k) c = Some (s', k')" and "stack_ok (s, k)"
  shows "scan_step (lim + length out) (s, k @ out) c = Some (s', k' @ out) \<and> stack_ok (s', k')"
proof (cases s)
  case BeginStringOrEmpty
  then show ?thesis
    using assms end_value_extend [of "ObjectValue # tl k" c s' k' out]
    by (auto simp del: end_value.simps simp: begin_string_def stack_ok_def split: if_split_asm)
qed (use assms begin_value_extend [of lim k c s' k' out] end_value_extend [of k c s' k' out] in
    \<open>auto simp del: end_value.simps
      simp: begin_string_def state0_def expect_def stack_ok_def split: if_split_asm\<close>)

lemma scan_step_mono:
  "scan_step lim st c = Some st' \<Longrightarrow> lim \<le> lim' \<Longrightarrow> scan_step lim' st c = Some st'"
  by (cases "(lim, st, c)" rule: scan_step.cases)
    (auto simp del: end_value.simps dest: begin_value_mono split: if_split_asm)

text \<open>Runs that meet no white space outside strings: what the writers of this library produce.\<close>

fun tight_run :: "nat \<Rightarrow> scanner \<Rightarrow> string \<Rightarrow> scanner option" where
  "tight_run lim st [] = Some st"
| "tight_run lim st (c # cs) =
     (if is_space c \<and> fst st \<noteq> InString then None
      else case scan_step lim st c of None \<Rightarrow> None | Some st' \<Rightarrow> tight_run lim st' cs)"

definition json_value :: "nat \<Rightarrow> string \<Rightarrow> bool" where
  "json_value lim v \<longleftrightarrow> (\<exists>s. tight_run lim (BeginValue, []) v = Some (s, []) \<and> may_end s)"

lemma tight_run_append:
  "tight_run lim st (xs @ ys) =
     (case tight_run lim st xs of None \<Rightarrow> None | Some st' \<Rightarrow> tight_run lim st' ys)"
  by (induction xs arbitrary: st) (auto split: option.splits)

lemma tight_run_scan_run:
  "tight_run lim (s, k) v = Some (s', k') \<Longrightarrow> stack_ok (s, k) \<Longrightarrow>
   scan_run (lim + length out) (s, k @ out) v = Some (s', k' @ out)"
proof (induction v arbitrary: s k)
  case (Cons c cs)
  then obtain s1 k1 where step: "scan_step lim (s, k) c = Some (s1, k1)"
    and rest: "tight_run lim (s1, k1) cs = Some (s', k')"
    by (auto split: if_splits option.splits)
  show ?case
    using scan_step_extend [OF step Cons.prems(2), of out] Cons.IH [OF rest] by simp
qed simp

lemma json_value_run:
  assumes "json_value lim v"
  shows "\<exists>s. scan_run (lim + length out) (BeginValue, out) v = Some (s, out) \<and> may_end s"
  using assms tight_run_scan_run [of lim BeginValue "[]" v _ "[]" out]
  by (auto simp: json_value_def stack_ok_def)

lemma tight_run_ended: "tight_run lim (EndValue, []) xs = Some st \<Longrightarrow> xs = []"
  by (cases xs) (auto split: if_splits)

lemma take_value_tight:
  "tight_run lim st v = Some (s, []) \<Longrightarrow> may_end s \<Longrightarrow> lim \<le> maxNestingDepth \<Longrightarrow>
   st \<noteq> (EndValue, []) \<Longrightarrow> delim c \<Longrightarrow> take_value st (v @ c # r) = (v, c # r)"
proof (induction v arbitrary: st)
  case Nil
  then have "scan_step maxNestingDepth st c = None"
    using scan_step_may_end [of s c maxNestingDepth "[]"] by (auto simp: delim_def)
  then show ?case by simp
next
  case (Cons x xs)
  then obtain st' where x: "\<not> (is_space x \<and> fst st \<noteq> InString)"
    and step: "scan_step lim st x = Some st'" and rest: "tight_run lim st' xs = Some (s, [])"
    by (auto split: if_splits option.splits)
  have step': "scan_step maxNestingDepth st x = Some st'"
    using step Cons.prems(3) scan_step_mono by blast
  show ?case
  proof (cases "st' = (EndValue, [])")
    case True
    have "\<not> is_space x"
      using x step True by (cases st) (auto simp: is_space_def split: if_splits)
    then show ?thesis
      using True step' rest tight_run_ended by fastforce
  next
    case False
    then show ?thesis
      using Cons.IH [OF rest Cons.prems(2,3) False Cons.prems(5)] step' by simp
  qed
qed

lemma json_value_nonempty: "json_value lim v \<Longrightarrow> v \<noteq> [] \<and> \<not> is_space (hd v)"
  by (cases v) (auto simp: json_value_def may_end_def split: if_splits)

lemma value_text_json_value:
  assumes "json_value lim v" "lim \<le> maxNestingDepth" "delim c"
  shows "value_text (v @ c # r) = (v, c # r)"
proof -
  obtain s where s: "tight_run lim (BeginValue, []) v = Some (s, [])" "may_end s"
    using assms(1) by (auto simp: json_value_def)
  obtain x xs where "v = x # xs" "\<not> is_space x"
    using json_value_nonempty [OF assms(1)] by (cases v) auto
  then have "skip_ws (v @ c # r) = v @ c # r"
    by simp
  then show ?thesis
    using take_value_tight [OF s assms(2) _ assms(3), of r] by (simp add: value_text_def)
qed

section \<open>What the writers produce is read back\<close>

lemma is_hex_hex_char: "d < 16 \<Longrightarrow> is_hex (hex_char d)"
  by (simp add: is_hex_def hex_val_hex_char)

lemma is_hex_literals [simp]:
  "is_hex (CHR ''0'')" "is_hex (CHR ''2'')" "is_hex (CHR ''f'')" "is_hex (CHR ''d'')"
  by (simp_all add: is_hex_def hex_val_def)

lemma is_space_hex: "is_hex c \<Longrightarrow> \<not> is_space c"
  by (auto simp: is_hex_def hex_val_def is_space_def)

lemma tight_run_u00: "code c < 256 \<Longrightarrow> tight_run lim (InString, k) (u00 c @ t) = tight_run lim (InString, k) t"
proof -
  have "is_hex (hex_char (code c div 16))" "is_hex (hex_char (code c mod 16))"
    using code_less_256 [of c] by (auto intro!: is_hex_hex_char simp: less_mult_imp_div_less simp del: code_less_256)
  then show ?thesis
    by (simp add: u00_def expect_def is_space_hex is_space_def [of "CHR ''u''"])
qed

lemma tight_run_u202: "tight_run lim (InString, k) (u202 c @ t) = tight_run lim (InString, k) t"
proof -
  have "is_hex (hex_char (code c mod 16))"
    by (simp add: is_hex_hex_char)
  then show ?thesis
    by (simp add: u202_def expect_def is_space_hex is_space_def [of "CHR ''u''"])
qed

lemma tight_run_fffd: "tight_run lim (InString, k) (u_fffd @ t) = tight_run lim (InString, k) t"
  by (simp add: u_fffd_def expect_def is_space_hex is_space_def [of "CHR ''u''"])

lemma tight_run_quote_ascii:
  "tight_run lim (InString, k) (quote_ascii c @ t) = tight_run lim (InString, k) t"
  by (auto simp: quote_ascii_def tight_run_u00 is_space_def)

lemma tight_run_high:
  "(\<And>x. x \<in> set xs \<Longrightarrow> 128 \<le> code x) \<Longrightarrow>
   tight_run lim (InString, k) (xs @ t) = tight_run lim (InString, k) t"
proof (induction xs)
  case (Cons x xs)
  then have "128 \<le> code x"
    by simp
  then have "x \<noteq> CHR 0x22" "x \<noteq> CHR 0x5C" "\<not> code x < 32"
    by auto
  then show ?case
    using Cons by simp
qed simp

lemma tight_run_quote_body:
  "tight_run lim (InString, k) (quote_body s @ t) = tight_run lim (InString, k) t"
proof (induction s arbitrary: t rule: quote_cases)
  case (Multi c cs n)
  then show ?case
    using tight_run_high [of "take n (c # cs)"] utf8_len_high [OF Multi(2,1)]
    by (simp add: quote_body_multi [OF Multi(1-4)])
qed (simp_all add: quote_body_ascii quote_body_bad quote_body_2028 tight_run_quote_ascii
    tight_run_fffd tight_run_u202)

lemma tight_run_quote: "tight_run lim (BeginValue, k) (quote s) = Some (EndValue, k)"
  by (simp add: quote_def begin_value_def tight_run_quote_body)

lemma json_value_quote [simp]: "json_value lim (quote s)"
  by (simp add: json_value_def tight_run_quote may_end_def)

lemma tight_run_digits:
  "(\<And>x. x \<in> set xs \<Longrightarrow> is_digit x) \<Longrightarrow> tight_run lim (State1, k) xs = Some (State1, k)"
  by (induction xs) (auto dest: is_space_not_digit)

lemma fmt_nat_head: "0 < n \<Longrightarrow> hd (fmt_nat n) \<noteq> CHR ''0''"
proof (induction n rule: fmt_nat.induct)
  case (1 n)
  show ?case
  proof (cases "n < 10")
    case True
    then show ?thesis
      using 1 by (simp add: fmt_nat.simps [of n] digit_char_def byte_eq_iff)
  next
    case False
    then show ?thesis
      using 1 by (simp add: fmt_nat.simps [of n])
  qed
qed

lemma fmt_nat_0: "fmt_nat 0 = ''0''"
  by (simp add: fmt_nat.simps digit_char_def byte_eq_iff)

lemma is_digit_not_special:
  assumes "is_digit c"
  shows "\<not> is_space c" "c \<noteq> CHR ''{''" "c \<noteq> CHR ''[''" "c \<noteq> CHR 0x22" "c \<noteq> CHR ''-''"
    "c \<noteq> CHR ''t''" "c \<noteq> CHR ''f''" "c \<noteq> CHR ''n''"
  using assms by (auto simp: is_digit_def is_space_def)

lemma tight_run_fmt_nat:
  assumes "0 < n" "st = (BeginValue, k) \<or> st = (Neg, k)"
  shows "tight_run lim st (fmt_nat n) = Some (State1, k)"
proof -
  obtain c cs where eq: "fmt_nat n = c # cs"
    by (cases "fmt_nat n") auto
  have d: "is_digit c" "\<And>x. x \<in> set cs \<Longrightarrow> is_digit x" and c0: "c \<noteq> CHR ''0''"
    using fmt_nat_digits [of n] fmt_nat_head [OF assms(1)] eq by auto
  have "scan_step lim st c = Some (State1, k)"
    using assms(2) d(1) c0 is_digit_not_special [OF d(1)] by (auto simp: begin_value_def expect_def)
  then show ?thesis
    using assms(2) tight_run_digits [OF d(2)] is_digit_not_special [OF d(1)] by (auto simp: eq)
qed

lemma json_value_FormatInt [simp]: "json_value lim (FormatInt n)"
proof -
  have "\<exists>s. tight_run lim (BeginValue, []) (FormatInt n) = Some (s, []) \<and> may_end s"
  proof (cases n "0::int" rule: linorder_cases)
    case less
    then show ?thesis
      by (simp add: FormatInt_def begin_value_def tight_run_fmt_nat may_end_def)
  next
    case equal
    then show ?thesis
      by (simp add: FormatInt_def fmt_nat_0 begin_value_def may_end_def is_space_def)
  next
    case greater
    then show ?thesis
      by (simp add: FormatInt_def tight_run_fmt_nat may_end_def)
  qed
  then show ?thesis
    by (simp add: json_value_def)
qed

subsection \<open>Compaction\<close>

lemma compact_from_mono:
  "compact_from lim st n s = Some out \<Longrightarrow> lim \<le> lim' \<Longrightarrow> compact_from lim' st n s = Some out"
proof (induction s arbitrary: st n out)
  case Nil
  then show ?case
    by (cases st) (auto simp: scan_eof_iff split: if_splits)
next
  case (Cons c cs)
  then show ?case
    by (auto split: option.splits nat.splits dest: scan_step_mono)
qed

lemma compact_from_Some_iff:
  "(\<exists>out. compact_from lim st n s = Some out) \<longleftrightarrow>
   (case scan_run lim st s of None \<Rightarrow> False | Some st' \<Rightarrow> scan_eof lim st')"
proof (induction s arbitrary: st n)
  case (Cons c cs)
  show ?case
  proof (cases "scan_step lim st c")
    case (Some st')
    then show ?thesis
      using Cons.IH [of st'] by (cases n) simp_all
  qed simp
qed simp

lemma end_value_high: "end_value k c = Some st' \<Longrightarrow> code c < 128"
  by (cases k) (auto simp: is_space_def split: if_split_asm parse_state.splits)

text \<open>Bytes that only a string can hold: they keep the scanner inside it.\<close>

definition string_only :: "char \<Rightarrow> bool" where
  "string_only c \<longleftrightarrow> 128 \<le> code c \<or> c \<in> {CHR ''<'', CHR ''>'', CHR ''&''}"

lemma string_only_rejected:
  assumes "string_only c"
  shows "\<not> is_space c" "\<not> is_digit c" "\<not> is_hex c" "end_value k c = None"
    "begin_value lim k c = None" "begin_string k c = None" "state0 k c = None"
proof -
  show 1: "\<not> is_space c" "\<not> is_digit c" "\<not> is_hex c"
    using assms by (auto simp: string_only_def is_space_def is_digit_def is_hex_def hex_val_def)
  show 2: "end_value k c = None"
    using assms 1 end_value_high [of k c]
    by (cases k; cases "end_value k c") (auto simp: string_only_def split: parse_state.splits)
  have "c \<notin> {CHR ''{'', CHR ''['', CHR 0x22, CHR ''-'', CHR ''0'', CHR ''t'', CHR ''f'', CHR ''n'',
      CHR ''.'', CHR ''e'', CHR ''E''}"
    using assms by (auto simp: string_only_def)
  then show "begin_value lim k c = None" "begin_string k c = None" "state0 k c = None"
    using 1 2 by (simp_all add: begin_value_def begin_string_def state0_def)
qed

lemma scan_step_string_only:
  assumes "scan_step lim (s, k) c = Some st'" and c: "string_only c"
  shows "s = InString \<and> st' = (InString, k)"
proof -
  have ne: "c \<noteq> CHR 0x22" "c \<noteq> CHR 0x5C" "\<not> code c < 32" "c \<noteq> CHR '']''" "c \<noteq> CHR ''}''" "c \<noteq> CHR ''0''"
    "c \<noteq> CHR ''b''" "c \<noteq> CHR ''f''" "c \<noteq> CHR ''n''" "c \<noteq> CHR ''r''" "c \<noteq> CHR ''t''" "c \<noteq> CHR ''/''"
    "c \<noteq> CHR ''u''" "c \<noteq> CHR ''e''" "c \<noteq> CHR ''E''" "c \<noteq> CHR ''+''" "c \<noteq> CHR ''-''" "c \<noteq> CHR ''a''"
    "c \<noteq> CHR ''l''" "c \<noteq> CHR ''s''"
    using c by (auto simp: string_only_def)
  show ?thesis
    using assms(1)
    by (cases s) (simp_all add: ne string_only_rejected [OF c] expect_def)
qed

text \<open>White space between tokens changes at most a number into an ended value.\<close>

lemma scan_step_space:
  assumes "scan_step lim (s, k) c = Some st'" "is_space c" "s \<noteq> InString"
  shows "st' = (s, k) \<or> may_end s \<and> st' = (EndValue, k)"
proof -
  have "end_value k c = Some (EndValue, k)"
    using assms(2) by (cases k) simp_all
  moreover have "\<not> is_digit c" "\<not> is_hex c" "state0 k c = end_value k c"
    using assms(2) by (auto simp: is_space_def is_digit_def is_hex_def hex_val_def state0_def)
  moreover have "c \<notin> {CHR ''b'', CHR ''f'', CHR ''n'', CHR ''r'', CHR ''t'', CHR 0x5C, CHR ''/'', CHR 0x22,
      CHR ''u'', CHR ''e'', CHR ''E'', CHR ''0'', CHR ''+'', CHR ''-'', CHR ''a'', CHR ''l'', CHR ''s''}"
    using assms(2) by (auto simp: is_space_def)
  ultimately show ?thesis
    using assms
    by (cases s) (simp_all add: begin_value_def begin_string_def expect_def may_end_def)
qed

lemma tight_run_resume:
  assumes "tight_run lim (EndValue, k) out = Some (s', [])" "may_end s'" "may_end s"
  shows "\<exists>s''. tight_run lim (s, k) out = Some (s'', []) \<and> may_end s''"
proof (cases out)
  case Nil
  then show ?thesis
    using assms by simp
next
  case (Cons c cs)
  then have c: "\<not> is_space c" and "end_value k c \<noteq> None"
    using assms(1) by (auto split: if_splits option.splits)
  then have "c \<in> {CHR '','', CHR ''}'', CHR '':'', CHR '']''}"
    by (cases k) (auto split: if_splits parse_state.splits)
  then have "scan_step lim (s, k) c = scan_step lim (EndValue, k) c"
    using assms(3) by (auto simp: may_end_def state0_def is_digit_def)
  then have "tight_run lim (s, k) out = tight_run lim (EndValue, k) out"
    using c Cons by simp
  then show ?thesis
    using assms by auto
qed

text \<open>What the compacter writes for one byte and how many of the following ones it skips.\<close>

lemma compact_emit_cases:
  assumes "compact_emit st c cs = (e, m)" "scan_step lim st c = Some st'"
  obtains (html) "st' = st" "fst st = InString" "e = u00 c" "m = 0"
  | (sep) b d r where "cs = b # d # r" "string_only b" "string_only d" "st' = st" "fst st = InString" "e = u202 d" "m = 2"
  | (space) "is_space c" "fst st \<noteq> InString" "e = []" "m = 0"
  | (copy) "\<not> (is_space c \<and> fst st \<noteq> InString)" "e = [c]" "m = 0"
proof -
  have in_string: "fst st = InString \<and> st' = st" if "string_only c"
    using scan_step_string_only [of lim "fst st" "snd st" c st'] assms(2) that by (auto simp: prod_eq_iff)
  consider (1) "c \<in> {CHR ''<'', CHR ''>'', CHR ''&''}" | (2) "c \<notin> {CHR ''<'', CHR ''>'', CHR ''&''}" "is_2028 (c # cs)"
    | (3) "e = []" "m = 0" "is_space c" "fst st \<noteq> InString"
    | (4) "\<not> (is_space c \<and> fst st \<noteq> InString)" "e = [c]" "m = 0"
    using assms(1) by (auto simp: compact_emit_def split: if_splits)
  then show ?thesis
  proof cases
    case 1
    then have "string_only c"
      by (auto simp: string_only_def)
    then show ?thesis
      using 1 in_string assms(1) by (intro html) (auto simp: compact_emit_def)
  next
    case 2
    then obtain b d r where "cs = b # d # r" "string_only c" "string_only b" "string_only d"
      by (auto simp: is_2028_def string_only_def split: list.splits)
    then show ?thesis
      using 2 in_string assms(1) by (intro sep [of b d r]) (auto simp: compact_emit_def)
  qed (auto intro: space copy)
qed

lemma compact_from_tight:
  "compact_from lim st n s = Some out \<Longrightarrow>
   n = 0 \<or> fst st = InString \<and> n \<le> length s \<and> (\<forall>x \<in> set (take n s). string_only x) \<Longrightarrow>
   \<exists>s'. tight_run lim st out = Some (s', []) \<and> may_end s'"
proof (induction s arbitrary: st n out)
  case Nil
  then show ?case
    by (cases st) (auto simp: scan_eof_iff split: if_splits)
next
  case (Cons c cs)
  then obtain st' where step: "scan_step lim st c = Some st'"
    by (auto split: option.splits)
  show ?case
  proof (cases n)
    case (Suc m)
    then have "st' = st" "fst st = InString" "m \<le> length cs" "\<forall>x \<in> set (take m cs). string_only x"
      using scan_step_string_only [of lim "fst st" "snd st" c st'] step Cons.prems(2)
      by (auto simp: prod_eq_iff)
    then show ?thesis
      using Cons.IH [of st m out] Cons.prems(1) Suc step by auto
  next
    case 0
    obtain e m where em: "compact_emit st c cs = (e, m)"
      by (cases "compact_emit st c cs")
    then obtain out' where out: "out = e @ out'" and rest: "compact_from lim st' m cs = Some out'"
      using Cons.prems(1) step 0 by auto
    from em step show ?thesis
    proof (cases rule: compact_emit_cases)
      case html
      then show ?thesis
        using Cons.IH [OF rest] out tight_run_u00 [of c lim "snd st"] by (metis code_less_256 prod.collapse)
    next
      case (sep b d r)
      then show ?thesis
        using Cons.IH [OF rest] out tight_run_u202 [of lim "snd st" d] by (auto simp: prod_eq_iff) (metis prod.collapse)
    next
      case space
      then obtain s' where s': "tight_run lim st' out = Some (s', [])" "may_end s'"
        using Cons.IH [OF rest] out by auto
      show ?thesis
        using scan_step_space [of lim "fst st" "snd st" c st'] step space s'
          tight_run_resume [of lim "snd st" out s' "fst st"]
        by auto
    next
      case copy
      then show ?thesis
        using Cons.IH [OF rest] step out by simp
    qed
  qed
qed

lemma compact_from_json_value:
  "compact_from lim (BeginValue, []) 0 s = Some out \<Longrightarrow> json_value lim out"
  using compact_from_tight by (fastforce simp: json_value_def)

subsection \<open>Objects\<close>

lemma scan_run_mono:
  "scan_run lim st s = Some st' \<Longrightarrow> lim \<le> lim' \<Longrightarrow> scan_run lim' st s = Some st'"
  by (induction s arbitrary: st) (auto split: option.splits dest: scan_step_mono)

lemma tight_run_extend:
  "tight_run lim (s, k) v = Some (s', k') \<Longrightarrow> stack_ok (s, k) \<Longrightarrow>
   tight_run (lim + length out) (s, k @ out) v = Some (s', k' @ out)"
proof (induction v arbitrary: s k)
  case (Cons c cs)
  then obtain s1 k1 where step: "scan_step lim (s, k) c = Some (s1, k1)"
    and sp: "\<not> (is_space c \<and> s \<noteq> InString)" and rest: "tight_run lim (s1, k1) cs = Some (s', k')"
    by (auto split: if_splits option.splits)
  show ?case
    using scan_step_extend [OF step Cons.prems(2), of out] Cons.IH [OF rest] sp by simp
qed simp

lemma json_value_tight:
  assumes "json_value lim v"
  shows "\<exists>s. tight_run (lim + length out) (BeginValue, out) v = Some (s, out) \<and> may_end s"
  using assms tight_run_extend [of lim BeginValue "[]" v _ "[]" out]
  by (auto simp: json_value_def stack_ok_def)

lemma tight_run_key:
  assumes "st = BeginStringOrEmpty \<or> st = BeginString"
  shows "tight_run lim (st, k) (quote s) = Some (EndValue, k)"
  using assms by (auto simp: quote_def begin_string_def tight_run_quote_body)

lemma tight_run_member:
  assumes "json_value lim v" "st = BeginStringOrEmpty \<or> st = BeginString"
  shows "\<exists>s. tight_run (Suc lim) (st, [ObjectKey]) (quote k @ CHR '':'' # v) = Some (s, [ObjectValue]) \<and>
    may_end s"
  using json_value_tight [OF assms(1), of "[ObjectValue]"]
  by (simp add: tight_run_append tight_run_key [OF assms(2)])

lemma tight_run_members:
  "ms \<noteq> [] \<Longrightarrow> \<forall>p \<in> set ms. json_value lim (snd p) \<Longrightarrow>
   st = BeginStringOrEmpty \<or> st = BeginString \<Longrightarrow>
   \<exists>s. tight_run (Suc lim) (st, [ObjectKey]) (json_members ms) = Some (s, [ObjectValue]) \<and> may_end s"
proof (induction ms arbitrary: st rule: json_members.induct)
  case (2 k v)
  then show ?case
    using tight_run_member by auto
next
  case (3 k v m ms)
  obtain s where s: "tight_run (Suc lim) (st, [ObjectKey]) (quote k @ CHR '':'' # v) = Some (s, [ObjectValue])"
    "may_end s"
    using 3 tight_run_member [of lim v st k] by auto
  have "scan_step (Suc lim) (s, [ObjectValue]) (CHR '','') = Some (BeginString, [ObjectKey])"
    using scan_step_may_end [OF s(2), of "CHR '',''"] by (simp add: delim_def)
  moreover have "\<exists>s'. tight_run (Suc lim) (BeginString, [ObjectKey]) (json_members (m # ms)) =
      Some (s', [ObjectValue]) \<and> may_end s'"
    using 3 by simp
  moreover have "json_members ((k, v) # m # ms) =
      (quote k @ CHR '':'' # v) @ CHR '','' # json_members (m # ms)"
    by simp
  ultimately show ?case
    using s(1) by (simp only: tight_run_append [of _ _ "quote k @ CHR '':'' # v"]) simp
qed simp

lemma json_value_json_object:
  assumes "\<forall>p \<in> set ms. json_value lim (snd p)"
  shows "json_value (Suc lim) (json_object ms)"
proof (cases "ms = []")
  case True
  then show ?thesis
    by (simp add: json_value_def json_object_def begin_value_def push_def may_end_def)
next
  case False
  then obtain s where s: "tight_run (Suc lim) (BeginStringOrEmpty, [ObjectKey]) (json_members ms) =
      Some (s, [ObjectValue])" "may_end s"
    using tight_run_members [of ms lim BeginStringOrEmpty] assms by blast
  have "scan_step (Suc lim) (s, [ObjectValue]) (CHR ''}'') = Some (EndValue, [])"
    using scan_step_may_end [OF s(2), of "CHR ''}''"] by (simp add: delim_def)
  then show ?thesis
    using s by (simp add: json_value_def json_object_def begin_value_def push_def tight_run_append may_end_def)
qed

lemma json_value_valid: "json_value lim v \<Longrightarrow> valid_upto lim v"
  using json_value_run [of lim v "[]"] by (auto simp: valid_upto_def scan_eof_iff)

lemma valid_json_object: "\<forall>p \<in> set ms. json_value lim (snd p) \<Longrightarrow> valid_upto (Suc lim) (json_object ms)"
  by (rule json_value_valid [OF json_value_json_object])

lemma value_text_quote: "delim c \<Longrightarrow> value_text (quote k @ c # r) = (quote k, c # r)"
  by (rule value_text_json_value [of 0]) simp_all

lemma object_members_step:
  assumes "json_value lim v" "lim \<le> maxNestingDepth" "c = CHR '','' \<or> c = CHR ''}''"
  shows "object_members (quote k @ CHR '':'' # v @ c # r) =
    (quote k, v) # (if c = CHR '','' then object_members r else [])"
proof -
  have "skip_ws (quote k @ CHR '':'' # v @ c # r) = quote k @ CHR '':'' # v @ c # r"
    by (simp add: quote_def)
  moreover have "value_text (quote k @ CHR '':'' # v @ c # r) = (quote k, CHR '':'' # v @ c # r)"
    using value_text_quote by (simp add: delim_def)
  moreover have "value_text (v @ c # r) = (v, c # r)"
    using value_text_json_value [OF assms(1,2)] assms(3) by (auto simp: delim_def)
  ultimately show ?thesis
    using assms(3) by (subst object_members.simps) (auto simp: quote_def)
qed

lemma object_members_json_members:
  "\<forall>p \<in> set ms. json_value lim (snd p) \<Longrightarrow> lim \<le> maxNestingDepth \<Longrightarrow>
   object_members (json_members ms @ [CHR ''}'']) = map (\<lambda>(k, v). (quote k, v)) ms"
proof (induction ms rule: json_members.induct)
  case 1
  then show ?case
    by (simp add: object_members.simps)
next
  case (2 k v)
  then show ?case
    using object_members_step [of lim v "CHR ''}''" k "[]"] by simp
next
  case (3 k v m ms)
  then show ?case
    using object_members_step [of lim v "CHR '',''" k "json_members (m # ms) @ [CHR ''}'']"] by simp
qed

text \<open>Reading a written struct returns its members, keys as written, values as text.\<close>

theorem unmarshal_json_object:
  assumes "\<forall>p \<in> set ms. json_value lim (snd p)" "lim < maxNestingDepth"
  shows "unmarshal_members (json_object ms) = Some (map (\<lambda>(k, v). (ToValid k, v)) ms)"
proof -
  have "checkValid (json_object ms)"
    using valid_json_object [of ms lim] assms scan_run_mono [of "Suc lim" _ _ _ maxNestingDepth]
    by (fastforce simp: checkValid_def valid_upto_def scan_eof_iff split: option.splits)
  moreover have "skip_ws (json_object ms) = CHR ''{'' # json_members ms @ [CHR ''}'']"
    by (simp add: json_object_def)
  ultimately show ?thesis
    using object_members_json_members [of ms lim] assms
    by (auto simp: unmarshal_members_def unquote_quote)
qed

end
