(* ===== verification/Go_Time.thy ===== *)
theory Go_Time
  imports Go_Strings
begin

text \<open>
  What the program uses of Go's \<open>time\<close>: instants, the RFC 3339 rendering with nanoseconds in a
  fixed zone eight hours east of Greenwich, and the calendar behind it. A \<open>time.Time\<close> is the number
  of nanoseconds since the Unix epoch.
\<close>

section \<open>The calendar\<close>

text \<open>
  Civil date of a day number (days since 1970-01-01), on years that begin in March, so that a leap
  day is the last day of its year: 400-year cycle, century, four-year group, year, day of the year.
\<close>

definition year_parts :: "int \<Rightarrow> int \<times> int" where
  "year_parts z =
     (let era = z div 146097; r = z mod 146097;
          n100 = min 3 (r div 36524); r2 = r - 36524 * n100;
          n4 = r2 div 1461; r3 = r2 mod 1461;
          n1 = min 3 (r3 div 365)
      in (400 * era + 100 * n100 + 4 * n4 + n1, r3 - 365 * n1))"

definition civil_from_days :: "int \<Rightarrow> int \<times> int \<times> int" where
  "civil_from_days days =
     (let (y, doy) = year_parts (days + 719468);
          mp = (5 * doy + 2) div 153;
          d = doy - (153 * mp + 2) div 5 + 1;
          m = (if mp < 10 then mp + 3 else mp - 9)
      in (if m \<le> 2 then y + 1 else y, m, d))"

section \<open>RFC 3339 with nanoseconds\<close>

definition pad_int :: "nat \<Rightarrow> int \<Rightarrow> string" where
  "pad_int w n =
     (let s = fmt_nat (nat \<bar>n\<bar>); p = replicate (w - length s) (CHR ''0'') @ s
      in if n < 0 then CHR ''-'' # p else p)"

definition trim_zeros :: "string \<Rightarrow> string" where
  "trim_zeros s = rev (dropWhile (\<lambda>c. c = CHR ''0'') (rev s))"

definition frac_sec :: "int \<Rightarrow> string" where
  "frac_sec ns = (if ns = 0 then [] else CHR ''.'' # trim_zeros (pad_int 9 ns))"

text \<open>Date, time of day and nanoseconds of an instant, in the zone UTC+8.\<close>

record local_time =
  lt_year :: int
  lt_month :: int
  lt_day :: int
  lt_hour :: int
  lt_min :: int
  lt_sec :: int
  lt_nsec :: int

definition in_utc8 :: "int \<Rightarrow> local_time" where
  "in_utc8 t =
     (let s = t div 1000000000 + 28800; (y, m, d) = civil_from_days (s div 86400); q = s mod 86400
      in \<lparr>lt_year = y, lt_month = m, lt_day = d, lt_hour = q div 3600, lt_min = q mod 3600 div 60,
          lt_sec = q mod 60, lt_nsec = t mod 1000000000\<rparr>)"

definition render_rfc3339 :: "local_time \<Rightarrow> string" where
  "render_rfc3339 lt =
     pad_int 4 (lt_year lt) @ ''-'' @ pad_int 2 (lt_month lt) @ ''-'' @ pad_int 2 (lt_day lt) @ ''T'' @
     pad_int 2 (lt_hour lt) @ '':'' @ pad_int 2 (lt_min lt) @ '':'' @ pad_int 2 (lt_sec lt) @
     frac_sec (lt_nsec lt) @ ''+08:00''"

text \<open>The zero \<open>time.Time\<close>, midnight of 1 January of the year 1.\<close>

definition zero_time :: int where
  "zero_time = - 62135596800000000000"

section \<open>The rendered fields denote the instant\<close>

text \<open>Day number of a civil date, counted directly.\<close>

definition days_from_civil :: "int \<times> int \<times> int \<Rightarrow> int" where
  "days_from_civil = (\<lambda>(y, m, d).
     let y' = (if m \<le> 2 then y - 1 else y); mp = (if m \<le> 2 then m + 9 else m - 3)
     in 365 * y' + y' div 4 - y' div 100 + y' div 400 + (153 * mp + 2) div 5 + (d - 1) - 719468)"

definition instant_of :: "local_time \<Rightarrow> int" where
  "instant_of lt =
     (days_from_civil (lt_year lt, lt_month lt, lt_day lt) * 86400 + lt_hour lt * 3600 +
      lt_min lt * 60 + lt_sec lt - 28800) * 1000000000 + lt_nsec lt"

lemma year_parts_correct:
  assumes "year_parts z = (y, doy)"
  shows "365 * y + y div 4 - y div 100 + y div 400 + doy = z" "0 \<le> doy" "doy \<le> 365"
proof -
  define era where "era = z div 146097"
  define r where "r = z mod 146097"
  define a where "a = min 3 (r div 36524)"
  define r2 where "r2 = r - 36524 * a"
  define b where "b = r2 div 1461"
  define r3 where "r3 = r2 mod 1461"
  define c where "c = min 3 (r3 div 365)"
  have y: "y = 400 * era + 100 * a + 4 * b + c" and doy: "doy = r3 - 365 * c"
    using assms unfolding year_parts_def Let_def c_def r3_def b_def r2_def a_def r_def era_def
    by (simp_all only: prod.inject)
  have z: "z = 146097 * era + r" and r: "0 \<le> r" "r < 146097"
    by (simp_all add: era_def r_def)
  have "0 \<le> r div 36524" "r div 36524 \<le> 4"
    using r by simp_all
  then have a: "0 \<le> a" "a \<le> 3"
    by (simp_all add: a_def)
  have "0 \<le> r2 \<and> r2 \<le> 36524"
  proof (cases "r div 36524 \<le> 3")
    case True
    then have "r2 = r mod 36524"
      by (simp add: r2_def a_def minus_mult_div_eq_mod)
    then show ?thesis
      by (simp add: less_imp_le)
  next
    case False
    then have "r2 = r - 109572" and "146096 \<le> r"
      by (simp_all add: r2_def a_def)
    then show ?thesis
      using r by simp
  qed
  have b: "r2 = 1461 * b + r3" "0 \<le> b" "b \<le> 24" "0 \<le> r3" "r3 \<le> 1460"
    using \<open>0 \<le> r2 \<and> r2 \<le> 36524\<close> by (auto simp: b_def r3_def)
  have c: "0 \<le> c" "c \<le> 3" "0 \<le> doy" "doy \<le> 365"
    using b doy by (auto simp: c_def min_def)
  have "y div 4 = 100 * era + 25 * a + b"
    using y c by (intro int_div_pos_eq [where r = c]) simp_all
  moreover have "y div 100 = 4 * era + a"
    using y b c by (intro int_div_pos_eq [where r = "4 * b + c"]) simp_all
  moreover have "y div 400 = era"
    using y a b c by (intro int_div_pos_eq [where r = "100 * a + 4 * b + c"]) simp_all
  ultimately show "365 * y + y div 4 - y div 100 + y div 400 + doy = z"
    using y z b doy by (simp add: r2_def)
  show "0 \<le> doy" "doy \<le> 365"
    using c by simp_all
qed

lemma clock_fields: "(q::int) div 3600 * 3600 + q mod 3600 div 60 * 60 + q mod 60 = q"
proof -
  have "q mod 60 = q mod 3600 mod 60"
    by (rule mod_mod_cancel [symmetric]) simp
  then have "q mod 3600 div 60 * 60 + q mod 60 = q mod 3600"
    by (simp only: div_mult_mod_eq)
  then show ?thesis
    by (metis add.assoc div_mult_mod_eq)
qed

lemma days_from_civil_from_days: "days_from_civil (civil_from_days n) = n"
proof -
  obtain y doy where yd: "year_parts (n + 719468) = (y, doy)"
    by (cases "year_parts (n + 719468)")
  define mp where "mp = (5 * doy + 2) div 153"
  have "0 \<le> mp" "mp \<le> 11"
    using year_parts_correct [OF yd] by (simp_all add: mp_def)
  then show ?thesis
    using year_parts_correct(1) [OF yd]
    by (cases "mp < 10") (simp_all add: days_from_civil_def civil_from_days_def yd Let_def mp_def [symmetric])
qed

theorem instant_of_in_utc8: "instant_of (in_utc8 t) = t"
proof -
  define s where "s = t div 1000000000 + 28800"
  have "days_from_civil (lt_year (in_utc8 t), lt_month (in_utc8 t), lt_day (in_utc8 t)) = s div 86400"
    by (simp add: in_utc8_def Let_def s_def [symmetric] split: prod.splits)
      (metis days_from_civil_from_days)
  moreover have "lt_hour (in_utc8 t) * 3600 + lt_min (in_utc8 t) * 60 + lt_sec (in_utc8 t) = s mod 86400"
    by (simp add: in_utc8_def Let_def s_def [symmetric] clock_fields split: prod.splits)
  moreover have "lt_nsec (in_utc8 t) = t mod 1000000000"
    by (simp add: in_utc8_def Let_def split: prod.splits)
  ultimately have "instant_of (in_utc8 t) =
      (s div 86400 * 86400 + s mod 86400 - 28800) * 1000000000 + t mod 1000000000"
    by (simp only: instant_of_def add.assoc)
  also have "\<dots> = t"
    by (simp add: s_def)
  finally show ?thesis .
qed

end
