(* ===== verification/Envelope.thy ===== *)
theory Envelope
  imports Go_Json_Props Go_Time
begin

text \<open>
  The wire envelope of \<open>pkg/logtrack/envelope/envelope.go\<close>: topics, the \<open>Envelope\<close> struct, the
  \<open>timestamp_at\<close> functions, and what \<open>json.Marshal\<close> and \<open>json.Unmarshal\<close> do for that struct. The
  nil \<open>json.RawMessage\<close> is \<open>None\<close>.
\<close>

section \<open>Constants\<close>

definition EnvVersion :: string where "EnvVersion = ''1.0''"

definition TopicInboundHTTPLogs :: string where "TopicInboundHTTPLogs = ''inbound-http-logs''"
definition TopicOutboundHTTPLogs :: string where "TopicOutboundHTTPLogs = ''outbound-http-logs''"
definition TopicEventTracks :: string where "TopicEventTracks = ''event-tracks''"
definition TopicRPCCalls :: string where "TopicRPCCalls = ''rpc-calls''"
definition TopicAppEvent :: string where "TopicAppEvent = ''app.app-event-v1''"
definition TopicSysEvent :: string where "TopicSysEvent = ''sys.sys-event-v1''"
definition TopicExpAssignment :: string where "TopicExpAssignment = ''dw.exp-assignment-v1''"
definition TopicAppLogs :: string where "TopicAppLogs = ''app-logs''"
definition TopicAppLogsError :: string where "TopicAppLogsError = ''app-logs-error''"
definition TopicAppLogsWarn :: string where "TopicAppLogsWarn = ''app-logs-warn''"
definition TopicAppLogsInfo :: string where "TopicAppLogsInfo = ''app-logs-info''"
definition TopicAppLogsDebug :: string where "TopicAppLogsDebug = ''app-logs-debug''"

lemmas topic_defs = TopicInboundHTTPLogs_def TopicOutboundHTTPLogs_def TopicEventTracks_def
  TopicRPCCalls_def TopicAppEvent_def TopicSysEvent_def TopicExpAssignment_def TopicAppLogs_def
  TopicAppLogsError_def TopicAppLogsWarn_def TopicAppLogsInfo_def TopicAppLogsDebug_def

section \<open>The envelope\<close>

record Envelope =
  Version :: string
  Topic :: string
  Service :: string
  Host :: string
  Timestamp :: int
  TimestampAt :: string
  TraceID :: string
  PartitionKey :: string
  Data :: "string option"
  WriteRaw :: bool

definition zero_envelope :: Envelope where
  "zero_envelope = \<lparr>Version = [], Topic = [], Service = [], Host = [], Timestamp = 0,
     TimestampAt = [], TraceID = [], PartitionKey = [], Data = None, WriteRaw = False\<rparr>"

definition TimestampAtFromTime :: "int \<Rightarrow> string" where
  "TimestampAtFromTime t = (if t = zero_time then [] else render_rfc3339 (in_utc8 t))"

definition TimestampAtFromMillis :: "int \<Rightarrow> string" where
  "TimestampAtFromMillis ms = (if ms \<le> 0 then [] else TimestampAtFromTime (ms * 1000000))"

definition EnsureTimestampAt :: "Envelope \<Rightarrow> Envelope" where
  "EnsureTimestampAt e =
     (if TimestampAt e = [] then e\<lparr>TimestampAt := TimestampAtFromMillis (Timestamp e)\<rparr> else e)"

section \<open>JSON form\<close>

definition envelope_members :: "Envelope \<Rightarrow> string \<Rightarrow> (string \<times> string) list" where
  "envelope_members e d =
     [(''version'', quote (Version e)), (''topic'', quote (Topic e)), (''service'', quote (Service e)),
      (''host'', quote (Host e)), (''timestamp'', FormatInt (Timestamp e))] @
     omit_empty ''timestamp_at'' (TimestampAt e) @ omit_empty ''trace_id'' (TraceID e) @
     omit_empty ''partition_key'' (PartitionKey e) @ [(''data'', d)]"

definition marshal_envelope :: "Envelope \<Rightarrow> string option" where
  "marshal_envelope e =
     (case marshal_raw (Data e) of None \<Rightarrow> None | Some d \<Rightarrow> Some (json_object (envelope_members e d)))"

definition unmarshal_envelope :: "string \<Rightarrow> Envelope option" where
  "unmarshal_envelope s =
     (case unmarshal_members s of
        None \<Rightarrow> None
      | Some ms \<Rightarrow>
          (case (get_string ''version'' ms [], get_string ''topic'' ms [], get_string ''service'' ms [],
                 get_string ''host'' ms [], get_int64 ''timestamp'' ms 0, get_string ''timestamp_at'' ms [],
                 get_string ''trace_id'' ms [], get_string ''partition_key'' ms []) of
             (Some v, Some t, Some sv, Some h, Some ts, Some ta, Some tr, Some pk) \<Rightarrow>
               Some \<lparr>Version = v, Topic = t, Service = sv, Host = h, Timestamp = ts, TimestampAt = ta,
                     TraceID = tr, PartitionKey = pk, Data = get_raw ''data'' ms None, WriteRaw = False\<rparr>
           | _ \<Rightarrow> None))"

section \<open>Reading members back\<close>

lemma get_string_append:
  "get_string f (ms @ ns) cur =
     (case get_string f ms cur of None \<Rightarrow> None | Some c \<Rightarrow> get_string f ns c)"
  by (induction f ms cur rule: get_string.induct) (auto split: option.splits)

lemma hd_quote [simp]: "hd (quote s) = CHR 0x22" "quote s \<noteq> []"
  by (simp_all add: quote_def)

lemma hd_FormatInt: "hd (FormatInt n) = CHR ''-'' \<or> is_digit (hd (FormatInt n))"
  by (simp add: FormatInt_def hd_fmt_nat)

lemma get_string_omit:
  "get_string f (omit_empty k s @ ns) cur =
     get_string f ns (if field_match f k \<and> s \<noteq> [] then ToValid s else cur)"
  by (simp add: omit_empty_def unquote_quote)

lemma get_int64_omit:
  "get_int64 f (omit_empty k s @ ns) cur = (if field_match f k \<and> s \<noteq> [] then None else get_int64 f ns cur)"
  by (simp add: omit_empty_def is_digit_def)

lemma get_raw_omit:
  "get_raw f (omit_empty k s @ ns) cur =
     get_raw f ns (if field_match f k \<and> s \<noteq> [] then Some (quote s) else cur)"
  by (simp add: omit_empty_def)

lemma map_omit_empty:
  "map (\<lambda>(k, v). (ToValid k, v)) (omit_empty k s) = omit_empty (ToValid k) s"
  by (simp add: omit_empty_def)

lemma get_string_quote:
  "get_string f ((k, quote s) # ms) cur = get_string f ms (if field_match f k then ToValid s else cur)"
  by (simp add: unquote_quote)

lemma get_int64_FormatInt:
  "is_int64 n \<Longrightarrow> get_int64 f ((k, FormatInt n) # ms) cur = get_int64 f ms (if field_match f k then n else cur)"
  using hd_FormatInt [of n] by (simp add: ParseInt_FormatInt)

lemma get_skip_head:
  "\<not> field_match f k \<Longrightarrow> get_string f ((k, v) # ms) cur = get_string f ms cur"
  "\<not> field_match f k \<Longrightarrow> get_int64 f ((k, v) # ms) i = get_int64 f ms i"
  by simp_all

lemmas get_simps = get_string_quote get_int64_FormatInt get_string_omit get_int64_omit get_raw_omit

lemma ValidString_field_names:
  "ToValid ''version'' = ''version''" "ToValid ''topic'' = ''topic''" "ToValid ''service'' = ''service''"
  "ToValid ''host'' = ''host''" "ToValid ''timestamp'' = ''timestamp''"
  "ToValid ''timestamp_at'' = ''timestamp_at''" "ToValid ''trace_id'' = ''trace_id''"
  "ToValid ''partition_key'' = ''partition_key''" "ToValid ''data'' = ''data''" "ToValid ''_fmt'' = ''_fmt''"
  by (simp_all add: ToValid_ascii)


lemma foldName_field_names:
  "foldName ''version'' = ''VERSION''" "foldName ''topic'' = ''TOPIC''" "foldName ''service'' = ''SERVICE''"
  "foldName ''host'' = ''HOST''" "foldName ''timestamp'' = ''TIMESTAMP''"
  "foldName ''timestamp_at'' = ''TIMESTAMP_AT''" "foldName ''trace_id'' = ''TRACE_ID''"
  "foldName ''partition_key'' = ''PARTITION_KEY''" "foldName ''data'' = ''DATA''" "foldName ''_fmt'' = ''_FMT''"
  by (simp_all add: byte_eq_iff)

declare foldName.simps(2) [simp del]

section \<open>Round trip\<close>

text \<open>
  The envelopes the round trip is stated for: well-formed UTF-8 in every string, a timestamp of
  Go's type, and a payload that is valid JSON with room for one more level of nesting.
\<close>

definition raw_ok :: "string option \<Rightarrow> bool" where
  "raw_ok d \<longleftrightarrow> (case d of None \<Rightarrow> True | Some s \<Rightarrow> valid_upto (maxNestingDepth - 1) s)"

definition wf_envelope :: "Envelope \<Rightarrow> bool" where
  "wf_envelope e \<longleftrightarrow>
     ValidString (Version e) \<and> ValidString (Topic e) \<and> ValidString (Service e) \<and>
     ValidString (Host e) \<and> is_int64 (Timestamp e) \<and> ValidString (TimestampAt e) \<and>
     ValidString (TraceID e) \<and> ValidString (PartitionKey e) \<and> raw_ok (Data e)"

lemma json_value_omit_empty: "\<forall>p \<in> set (omit_empty k s). json_value lim (snd p)"
  by (simp add: omit_empty_def)

lemma valid_upto_compact:
  "valid_upto lim t \<longleftrightarrow> (\<exists>x. compact_from lim (BeginValue, []) 0 t = Some x)"
  by (simp add: compact_from_Some_iff valid_upto_def)

lemma marshal_raw_ok:
  assumes "raw_ok d"
  shows "\<exists>x. marshal_raw d = Some x \<and> json_value (maxNestingDepth - 1) x"
proof -
  define t where "t = (case d of None \<Rightarrow> ''null'' | Some s \<Rightarrow> s)"
  have "valid_upto (maxNestingDepth - 1) t"
    using assms by (auto simp: raw_ok_def t_def valid_upto_def begin_value_def expect_def scan_eof_iff
        may_end_def is_space_def split: option.splits)
  then obtain x where x: "compact_from (maxNestingDepth - 1) (BeginValue, []) 0 t = Some x"
    using valid_upto_compact by blast
  then have "marshal_raw d = Some x"
    using compact_from_mono [OF x, of maxNestingDepth]
    by (auto simp: marshal_raw_def compact_def t_def split: option.splits)
  then show ?thesis
    using compact_from_json_value [OF x] by blast
qed

lemma unmarshal_envelope_members:
  assumes "wf_envelope e" "json_value (maxNestingDepth - 1) d"
  shows "unmarshal_envelope (json_object (envelope_members e d)) = Some (e\<lparr>Data := Some d, WriteRaw := False\<rparr>)"
proof -
  have "\<forall>p \<in> set (envelope_members e d). json_value (maxNestingDepth - 1) (snd p)"
    using assms(2) json_value_omit_empty by (auto simp: envelope_members_def)
  then have "unmarshal_members (json_object (envelope_members e d)) = Some (envelope_members e d)"
    using unmarshal_json_object [of "envelope_members e d" "maxNestingDepth - 1"]
    by (simp add: envelope_members_def maxNestingDepth_def ValidString_field_names map_omit_empty)
  then show ?thesis
    using assms(1)
    by (simp add: unmarshal_envelope_def envelope_members_def wf_envelope_def get_simps
        get_skip_head field_match_def foldName_field_names ToValid_ValidString del: get_string.simps(2) get_int64.simps(2))
qed


section \<open>Backfilling keeps an envelope well-formed\<close>

lemma ValidString_ascii: "(\<forall>c \<in> set s. code c < 128) \<Longrightarrow> ValidString s"
  by (induction s) (auto simp: ValidString.simps(2) utf8_len_ascii)

lemma is_digit_ascii: "is_digit c \<Longrightarrow> code c < 128"
  by (simp add: is_digit_def)

lemma pad_int_ascii: "\<forall>c \<in> set (pad_int w n). code c < 128"
  using fmt_nat_digits [of "nat \<bar>n\<bar>"] is_digit_ascii by (auto simp: pad_int_def Let_def)

lemma trim_zeros_subset: "set (trim_zeros s) \<subseteq> set s"
  unfolding trim_zeros_def by (auto dest: set_dropWhileD)

lemma frac_sec_ascii: "\<forall>c \<in> set (frac_sec n). code c < 128"
  using pad_int_ascii [of 9 n] trim_zeros_subset [of "pad_int 9 n"] by (auto simp: frac_sec_def)

lemma render_rfc3339_ascii: "\<forall>c \<in> set (render_rfc3339 lt). code c < 128"
  by (simp add: render_rfc3339_def ball_Un pad_int_ascii frac_sec_ascii)

lemma ValidString_TimestampAtFromMillis: "ValidString (TimestampAtFromMillis ms)"
  by (simp add: TimestampAtFromMillis_def TimestampAtFromTime_def ValidString_ascii render_rfc3339_ascii)

lemma wf_EnsureTimestampAt [simp]: "wf_envelope (EnsureTimestampAt e) = wf_envelope e"
  by (simp add: EnsureTimestampAt_def wf_envelope_def ValidString_TimestampAtFromMillis)

lemma EnsureTimestampAt_simps [simp]:
  "Version (EnsureTimestampAt e) = Version e" "Topic (EnsureTimestampAt e) = Topic e"
  "Service (EnsureTimestampAt e) = Service e" "Host (EnsureTimestampAt e) = Host e"
  "Timestamp (EnsureTimestampAt e) = Timestamp e" "TraceID (EnsureTimestampAt e) = TraceID e"
  "PartitionKey (EnsureTimestampAt e) = PartitionKey e" "Data (EnsureTimestampAt e) = Data e"
  "WriteRaw (EnsureTimestampAt e) = WriteRaw e"
  by (simp_all add: EnsureTimestampAt_def)

lemma EnsureTimestampAt_idem [simp]: "EnsureTimestampAt (EnsureTimestampAt e) = EnsureTimestampAt e"
  by (simp add: EnsureTimestampAt_def)

end
