(* ===== verification/Kafka_Writer.thy ===== *)
theory Kafka_Writer
  imports World Envelope
begin

text \<open>
  The Kafka writer of \<open>internal/writer/kafka.go\<close>. The client library is third-party code: each
  \<open>WriteMessages\<close> call is recorded with the writer it was made on, its message and its outcome, and
  the outcome is an input (\<open>kafka_err\<close>). A nil map of writers is \<open>None\<close>.
\<close>

record kafka_config =
  Addr :: "string list"
  KTopic :: string
  BatchSize :: int
  BatchTimeout :: int
  WriteTimeout :: int

record KafkaWriter =
  brokers :: "string list"
  batchSize :: int
  batchTimeout :: int
  writeTimeout :: int
  writers :: "(string \<times> kafka_config) list option"

definition second :: int where
  "second = 1000000000"

definition NewKafkaWriter :: "string list \<Rightarrow> int \<Rightarrow> int \<Rightarrow> int \<Rightarrow> KafkaWriter" where
  "NewKafkaWriter bs bsz bt wt =
     \<lparr>brokers = bs, batchSize = bsz, batchTimeout = bt,
      writeTimeout = (if wt \<le> 0 then 2 * second else wt), writers = Some []\<rparr>"

text \<open>\<open>writerFor\<close> looks the topic up and stores a new writer; storing into the nil map panics.\<close>

definition writerFor :: "string \<Rightarrow> KafkaWriter \<Rightarrow> world \<Rightarrow> kafka_config \<times> KafkaWriter \<times> world" where
  "writerFor topic k w =
     (let new = \<lparr>Addr = brokers k, KTopic = topic, BatchSize = batchSize k,
                 BatchTimeout = batchTimeout k, WriteTimeout = writeTimeout k\<rparr> in
      case writers k of
        None \<Rightarrow> (new, k, panic w)
      | Some ws \<Rightarrow>
          (case map_of ws topic of
             Some c \<Rightarrow> (c, k, w)
           | None \<Rightarrow> (new, k\<lparr>writers := Some ((topic, new) # ws)\<rparr>, w)))"

definition selectPartitionKey :: "Envelope \<Rightarrow> string" where
  "selectPartitionKey env = (if PartitionKey env \<noteq> [] then PartitionKey env else TraceID env)"

text \<open>\<open>WriteMessages\<close> on a writer: recorded, with the outcome the outside chose.\<close>

definition WriteMessages :: "kafka_config \<Rightarrow> kmessage \<Rightarrow> world \<Rightarrow> error option \<times> world" where
  "WriteMessages c msg w =
     (let bad = kafka_err w (step w) in
      (if bad then Some ErrKafka else None,
       (tick w)\<lparr>kafka_calls := kafka_calls w @ [(KTopic c, msg, \<not> bad)]\<rparr>))"

definition key_of :: "Envelope \<Rightarrow> string option" where
  "key_of env = (let key = selectPartitionKey env in if key \<noteq> [] then Some key else None)"

text \<open>The part of \<open>Write\<close> after the body is built; a panic in \<open>writerFor\<close> ends it there.\<close>

definition send_message ::
  "Envelope \<Rightarrow> string option \<Rightarrow> KafkaWriter \<Rightarrow> world \<Rightarrow> error option \<times> KafkaWriter \<times> world" where
  "send_message env body k w =
     (case writerFor (Topic env) k w of (c, k1, w1) \<Rightarrow>
      if panicked w1 then (Some ErrKafka, k1, w1)
      else case time_Now w1 of (start, w2) \<Rightarrow>
      case WriteMessages c \<lparr>Key = key_of env, Value = body\<rparr> w2 of (r, w3) \<Rightarrow>
      case time_Now w3 of (end, w4) \<Rightarrow>
        (r, k1, metric (KafkaWrite (Topic env) (if r = None then ''success'' else ''error'') (end - start)) w4))"

text \<open>
  \<open>Write\<close> returns the error, the envelope (its \<open>timestamp_at\<close> filled in unless the payload is sent
  bare), the writer and the world.
\<close>

definition kw_Write ::
  "Envelope \<Rightarrow> KafkaWriter \<Rightarrow> world \<Rightarrow> error option \<times> Envelope \<times> KafkaWriter \<times> world" where
  "kw_Write env k w =
     (if WriteRaw env then
        (case send_message env (Data env) k w of (r, k1, w1) \<Rightarrow> (r, env, k1, w1))
      else
        (let env1 = EnsureTimestampAt env in
         case marshal_envelope env1 of
           None \<Rightarrow> (Some ErrJson, env1, k, w)
         | Some body \<Rightarrow>
             (case send_message env1 (Some body) k w of (r, k1, w1) \<Rightarrow> (r, env1, k1, w1))))"

text \<open>\<open>Flush\<close>: the context ends first or 50 ms pass.\<close>

definition Flush :: "bool \<Rightarrow> error option" where
  "Flush ctx_done_first = (if ctx_done_first then Some (ErrMsg ''context done'') else None)"

text \<open>\<open>Close\<close>: the client's writers are closed one after the other; \<open>fails\<close> says which of them fail.\<close>

definition kw_Close :: "(string \<Rightarrow> bool) \<Rightarrow> KafkaWriter \<Rightarrow> error option \<times> KafkaWriter" where
  "kw_Close fails k =
     (if \<exists>p \<in> set (case writers k of None \<Rightarrow> [] | Some ws \<Rightarrow> ws). fails (fst p)
      then Some ErrKafka else None,
      k\<lparr>writers := None\<rparr>)"

text \<open>\<open>Probe\<close>: the brokers in turn, until one can be dialled and answers; \<open>up\<close> says which do both.\<close>

fun probe_loop :: "(string \<Rightarrow> bool) \<Rightarrow> string list \<Rightarrow> error option" where
  "probe_loop up [] = Some ErrKafka"
| "probe_loop up (addr # bs) = (if up addr then None else probe_loop up bs)"

definition Probe :: "(string \<Rightarrow> bool) \<Rightarrow> KafkaWriter \<Rightarrow> error option" where
  "Probe up k =
     (if brokers k = [] then Some (ErrMsg ''no brokers configured'') else probe_loop up (brokers k))"

end
