(* ===== verification/Fallback.thy ===== *)
theory Fallback
  imports World Envelope
begin

text \<open>
  The fallback writer of \<open>internal/writer/fallback.go\<close>: rolling JSON-lines files in one directory,
  written while Kafka is down and read back, oldest first, when it recovers. Each operation takes
  the writer and the world and returns them changed; the mutex makes every operation one step.
\<close>

section \<open>State\<close>

text \<open>An \<open>os.File\<close>: the inode it refers to and whether \<open>Close\<close> has been called on it.\<close>

record handle =
  h_ino :: nat
  h_closed :: bool

record peekFile =
  pk_path :: string
  pk_file :: nat
  pk_pos :: nat

record FallbackWriter =
  maxFileSize :: int
  maxFiles :: int
  current :: "handle option"
  currentPath :: string
  currentSize :: int
  peekState :: "peekFile option"

record FallbackRecord =
  Env :: Envelope
  rec_file :: string

definition fh_Write :: "handle \<Rightarrow> string \<Rightarrow> world \<Rightarrow> error option \<times> world" where
  "fh_Write h body w =
     (if h_closed h then (Some (ErrSyscall ''closed''), w) else file_Write (h_ino h) body w)"

definition fh_Close :: "handle \<Rightarrow> world \<Rightarrow> error option \<times> world" where
  "fh_Close h w = (if h_closed h then (Some (ErrSyscall ''closed''), w) else file_Close w)"

definition fh_Sync :: "handle \<Rightarrow> world \<Rightarrow> error option \<times> world" where
  "fh_Sync h w = (if h_closed h then (Some (ErrSyscall ''closed''), w) else file_Sync w)"

definition drop_current :: "FallbackWriter \<Rightarrow> FallbackWriter" where
  "drop_current fw = fw\<lparr>current := None, currentPath := [], currentSize := 0\<rparr>"

section \<open>Record formats\<close>

definition fallbackRawFmt :: string where
  "fallbackRawFmt = ''raw-v1''"

definition raw_members :: "Envelope \<Rightarrow> string \<Rightarrow> (string \<times> string) list" where
  "raw_members env d =
     [(''_fmt'', quote fallbackRawFmt), (''topic'', quote (Topic env))] @
     omit_empty ''partition_key'' (PartitionKey env) @ omit_empty ''trace_id'' (TraceID env) @
     [(''data'', d)]"

definition marshal_raw_record :: "Envelope \<Rightarrow> string option" where
  "marshal_raw_record env =
     (case marshal_raw (Data env) of None \<Rightarrow> None | Some d \<Rightarrow> Some (json_object (raw_members env d)))"

definition unmarshal_raw_record :: "string \<Rightarrow> Envelope option" where
  "unmarshal_raw_record line =
     (case unmarshal_members line of
        None \<Rightarrow> None
      | Some ms \<Rightarrow>
          (case (get_string ''_fmt'' ms [], get_string ''topic'' ms [], get_string ''partition_key'' ms [],
                 get_string ''trace_id'' ms []) of
             (Some _, Some t, Some pk, Some tr) \<Rightarrow>
               Some (zero_envelope\<lparr>Topic := t, PartitionKey := pk, TraceID := tr,
                       Data := get_raw ''data'' ms None, WriteRaw := True\<rparr>)
           | _ \<Rightarrow> None))"

definition probe_fmt :: "string \<Rightarrow> string option" where
  "probe_fmt line =
     (case unmarshal_members line of None \<Rightarrow> None | Some ms \<Rightarrow> get_string ''_fmt'' ms [])"

text \<open>The body of one line for an envelope, and the envelope one line stands for.\<close>

definition encode_line :: "Envelope \<Rightarrow> string option" where
  "encode_line env = (if WriteRaw env then marshal_raw_record env else marshal_envelope env)"

definition decode_line :: "string \<Rightarrow> Envelope option" where
  "decode_line line =
     (case probe_fmt line of
        None \<Rightarrow> None
      | Some f \<Rightarrow> if f = fallbackRawFmt then unmarshal_raw_record line else unmarshal_envelope line)"

section \<open>Files\<close>

definition tsFromName :: "string \<Rightarrow> int" where
  "tsFromName path = fst (ParseInt (TrimSuffix path ''.log.done''))"

text \<open>
  For names with equal time stamps \<open>sort.Slice\<close> leaves the order open; the model keeps the order of
  the directory listing.
\<close>

definition listDoneFiles :: "world \<Rightarrow> (error + string list) \<times> world" where
  "listDoneFiles w =
     (case os_ReadDir w of
        (Inl e, w1) \<Rightarrow> (Inl e, w1)
      | (Inr es, w1) \<Rightarrow> (Inr (sort_key tsFromName (filter (\<lambda>n. HasSuffix n ''.log.done'') es)), w1))"

definition set_files_gauge :: "world \<Rightarrow> world" where
  "set_files_gauge w =
     (case listDoneFiles w of
        (Inl _, w1) \<Rightarrow> w1
      | (Inr ds, w1) \<Rightarrow> metric (FallbackFilesSet (length ds)) w1)"

fun adopt_loop :: "string list \<Rightarrow> world \<Rightarrow> error option \<times> world" where
  "adopt_loop [] w = (None, w)"
| "adopt_loop (name # ns) w =
     (if \<not> HasSuffix name ''.log'' \<or> HasSuffix name ''.log.done'' then adopt_loop ns w
      else case os_Rename name (name @ ''.done'') w of
        (Some e, w1) \<Rightarrow> (Some e, w1)
      | (None, w1) \<Rightarrow> adopt_loop ns w1)"

definition adoptStaleLogs :: "world \<Rightarrow> error option \<times> world" where
  "adoptStaleLogs w =
     (case os_ReadDir w of (Inl e, w1) \<Rightarrow> (Some e, w1) | (Inr es, w1) \<Rightarrow> adopt_loop es w1)"

definition NewFallbackWriter :: "int \<Rightarrow> int \<Rightarrow> world \<Rightarrow> (error + FallbackWriter) \<times> world" where
  "NewFallbackWriter mfs mf w =
     (case os_MkdirAll w of
        (Some e, w1) \<Rightarrow> (Inl e, w1)
      | (None, w1) \<Rightarrow>
          (case adoptStaleLogs w1 of
             (Some e, w2) \<Rightarrow> (Inl e, w2)
           | (None, w2) \<Rightarrow>
               (Inr \<lparr>maxFileSize = mfs, maxFiles = mf, current = None, currentPath = [],
                     currentSize = 0, peekState = None\<rparr>, set_files_gauge w2)))"

section \<open>Writing\<close>

definition openNew :: "FallbackWriter \<Rightarrow> world \<Rightarrow> error option \<times> FallbackWriter \<times> world" where
  "openNew fw w =
     (case time_Now w of (t, w1) \<Rightarrow>
       let name = FormatInt t @ ''.log'' in
       case os_OpenFile name w1 of
         (Inl e, w2) \<Rightarrow> (Some e, fw, w2)
       | (Inr i, w2) \<Rightarrow>
           (None, fw\<lparr>current := Some \<lparr>h_ino = i, h_closed = False\<rparr>, currentPath := name, currentSize := 0\<rparr>, w2))"

text \<open>Removal of the oldest files; errors are ignored.\<close>

fun remove_files :: "string list \<Rightarrow> world \<Rightarrow> world" where
  "remove_files [] w = w"
| "remove_files (n # ns) w = remove_files ns (snd (os_Remove n w))"

text \<open>
  \<open>rotate\<close> removes \<open>over\<close> files; with a negative limit that is more than there are, and the index
  runs out of range.
\<close>

definition enforce_max :: "int \<Rightarrow> string list \<Rightarrow> world \<Rightarrow> world" where
  "enforce_max mf dones w =
     (if mf < int (length dones) then
        (let over = nat (int (length dones) - mf) in
         if length dones < over then panic (remove_files dones w)
         else metric (FallbackFilesSet (length (drop over dones))) (remove_files (take over dones) w))
      else metric (FallbackFilesSet (length dones)) w)"

definition rotate :: "FallbackWriter \<Rightarrow> world \<Rightarrow> error option \<times> FallbackWriter \<times> world" where
  "rotate fw w =
     (case current fw of
        None \<Rightarrow> (None, fw, w)
      | Some h \<Rightarrow>
          (let fw1 = fw\<lparr>current := Some (h\<lparr>h_closed := True\<rparr>)\<rparr> in
           case fh_Close h w of
             (Some e, w1) \<Rightarrow> (Some e, fw1, w1)
           | (None, w1) \<Rightarrow>
               (case os_Rename (currentPath fw) (currentPath fw @ ''.done'') w1 of
                  (Some e, w2) \<Rightarrow> (Some e, fw1, w2)
                | (None, w2) \<Rightarrow>
                    (case listDoneFiles w2 of (ds, w3) \<Rightarrow>
                       (None, drop_current fw,
                        enforce_max (maxFiles fw) (case ds of Inl _ \<Rightarrow> [] | Inr l \<Rightarrow> l) w3)))))"

definition append_line ::
  "handle \<Rightarrow> string \<Rightarrow> FallbackWriter \<Rightarrow> world \<Rightarrow> error option \<times> FallbackWriter \<times> world" where
  "append_line h body fw w =
     (case fh_Write h (body @ [CHR 0x0A]) w of
        (Some e, w1) \<Rightarrow> (Some e, drop_current fw, snd (fh_Close h w1))
      | (None, w1) \<Rightarrow>
          (let fw1 = fw\<lparr>currentSize := currentSize fw + int (length body + 1)\<rparr>;
               w2 = metric FallbackWriteInc w1
           in if maxFileSize fw1 \<le> currentSize fw1 then rotate fw1 w2 else (None, fw1, w2)))"

text \<open>
  \<open>Write\<close> returns the error, the envelope (whose \<open>timestamp_at\<close> it may fill in), the writer and the
  world.
\<close>

definition fb_Write ::
  "Envelope \<Rightarrow> FallbackWriter \<Rightarrow> world \<Rightarrow> error option \<times> Envelope \<times> FallbackWriter \<times> world" where
  "fb_Write env fw w =
     (case (if current fw = None then openNew fw w else (None, fw, w)) of
        (Some e, fw1, w1) \<Rightarrow> (Some e, env, fw1, w1)
      | (None, fw1, w1) \<Rightarrow>
          (let env1 = (if WriteRaw env then env else EnsureTimestampAt env) in
           case (encode_line env1, current fw1) of
             (Some body, Some h) \<Rightarrow>
               (case append_line h body fw1 w1 of (r, fw2, w2) \<Rightarrow> (r, env1, fw2, w2))
           | _ \<Rightarrow> (Some ErrJson, env1, fw1, w1)))"

section \<open>Reading back\<close>

datatype scan_result = Token string | ScanEOF | ScanErr

definition maxLine :: nat where
  "maxLine = 16 * 1024 * 1024"

definition dropCR :: "string \<Rightarrow> string" where
  "dropCR l = (if l \<noteq> [] \<and> last l = CHR 0x0D then butlast l else l)"

text \<open>
  \<open>bufio.Scanner\<close> over lines with a buffer of \<open>maxLine\<close> bytes: a line that does not fit with its
  newline is the error \<open>ErrTooLong\<close>, as is a failing read.
\<close>

definition scan_line :: "peekFile \<Rightarrow> world \<Rightarrow> scan_result \<times> peekFile \<times> world" where
  "scan_line pk w =
     (let rest = drop (pk_pos pk) (inodes w (pk_file pk));
          line = takeWhile (\<lambda>c. c \<noteq> CHR 0x0A) rest in
      if failing w \<noteq> None then (ScanErr, pk, tick w)
      else if rest = [] then (ScanEOF, pk, tick w)
      else if maxLine \<le> length line then (ScanErr, pk, tick w)
      else (Token (dropCR line), pk\<lparr>pk_pos := pk_pos pk + length line + 1\<rparr>, tick w))"

definition openOldestDone :: "FallbackWriter \<Rightarrow> world \<Rightarrow> error option \<times> FallbackWriter \<times> world" where
  "openOldestDone fw w =
     (case listDoneFiles w of
        (Inr (d # ds), w1) \<Rightarrow>
          (case os_Open d w1 of
             (Inl e, w2) \<Rightarrow> (Some e, fw, w2)
           | (Inr i, w2) \<Rightarrow> (None, fw\<lparr>peekState := Some \<lparr>pk_path = d, pk_file = i, pk_pos = 0\<rparr>\<rparr>, w2))
      | (_, w1) \<Rightarrow> (Some ErrNoFiles, fw, w1))"

type_synonym peek_result = "FallbackRecord option \<times> FallbackWriter \<times> world"

text \<open>One turn of the loop of \<open>Peek\<close>: \<open>Inl\<close> is its return value, \<open>Inr\<close> the next turn's state.\<close>

definition scan_turn :: "peekFile \<Rightarrow> FallbackWriter \<Rightarrow> world \<Rightarrow> peek_result + (FallbackWriter \<times> world)" where
  "scan_turn pk fw w =
     (case scan_line pk w of
        (Token line, pk1, w1) \<Rightarrow>
          (let fw1 = fw\<lparr>peekState := Some pk1\<rparr> in
           case decode_line line of
             None \<Rightarrow> Inr (fw1, w1)
           | Some env \<Rightarrow> Inl (Some \<lparr>Env = env, rec_file = pk_path pk\<rparr>, fw1, w1))
      | (ScanErr, pk1, w1) \<Rightarrow> Inl (None, fw\<lparr>peekState := None\<rparr>, snd (file_Close w1))
      | (ScanEOF, pk1, w1) \<Rightarrow>
          Inr (fw\<lparr>peekState := None\<rparr>,
               set_files_gauge (snd (os_Remove (pk_path pk) (snd (file_Close w1))))))"

definition peek_turn :: "FallbackWriter \<Rightarrow> world \<Rightarrow> peek_result + (FallbackWriter \<times> world)" where
  "peek_turn fw w =
     (case (case peekState fw of None \<Rightarrow> openOldestDone fw w | Some _ \<Rightarrow> (None, fw, w)) of
        (Some e, fw1, w1) \<Rightarrow> Inl (None, fw1, w1)
      | (None, fw1, w1) \<Rightarrow>
          (case peekState fw1 of None \<Rightarrow> Inl (None, fw1, w1) | Some pk \<Rightarrow> scan_turn pk fw1 w1))"

partial_function (option) Peek :: "FallbackWriter \<Rightarrow> world \<Rightarrow> peek_result option" where
  "Peek fw w = (case peek_turn fw w of Inl r \<Rightarrow> Some r | Inr (fw1, w1) \<Rightarrow> Peek fw1 w1)"

definition Ack :: "FallbackRecord \<Rightarrow> FallbackWriter \<Rightarrow> FallbackWriter" where
  "Ack r fw = fw"

section \<open>Closing\<close>

definition close_current :: "error option \<Rightarrow> handle \<Rightarrow> FallbackWriter \<Rightarrow> world \<Rightarrow>
    error option \<times> FallbackWriter \<times> world" where
  "close_current firstErr h fw w =
     (case fh_Sync h w of
        (Some e, w1) \<Rightarrow> (Some e, drop_current fw, snd (fh_Close h w1))
      | (None, w1) \<Rightarrow>
          (case fh_Close h w1 of
             (Some e, w2) \<Rightarrow> (if firstErr = None then Some e else firstErr, drop_current fw, w2)
           | (None, w2) \<Rightarrow>
               (case os_Rename (currentPath fw) (currentPath fw @ ''.done'') w2 of
                  (r, w3) \<Rightarrow> (if firstErr = None then r else firstErr, drop_current fw, w3))))"

definition fb_Close :: "FallbackWriter \<Rightarrow> world \<Rightarrow> error option \<times> FallbackWriter \<times> world" where
  "fb_Close fw w =
     (let (firstErr, w1) = (case peekState fw of None \<Rightarrow> (None, w) | Some pk \<Rightarrow> file_Close w);
          fw1 = fw\<lparr>peekState := None\<rparr>
      in case current fw1 of
           None \<Rightarrow> (firstErr, fw1, w1)
         | Some h \<Rightarrow> close_current firstErr h fw1 w1)"

end
