(* ===== verification/Manager.thy ===== *)
theory Manager
  imports Kafka_Writer Fallback
begin

text \<open>
  The writer manager of \<open>internal/writer/manager.go\<close>: Kafka while it is healthy, the fallback files
  otherwise, and the recovery that replays the files. Log output is not modelled.
\<close>

record Manager =
  kafka :: KafkaWriter
  fallback :: FallbackWriter
  healthy :: bool
  stopped :: bool

definition recoveryInterval :: int where
  "recoveryInterval = 10 * second"

definition NewManager :: "KafkaWriter \<Rightarrow> FallbackWriter \<Rightarrow> Manager" where
  "NewManager k fw = \<lparr>kafka = k, fallback = fw, healthy = True, stopped = False\<rparr>"

definition set_healthy :: "bool \<Rightarrow> Manager \<Rightarrow> Manager" where
  "set_healthy b m = m\<lparr>healthy := b\<rparr>"

text \<open>An error of the fallback writer is only logged: the message is lost.\<close>

definition writeFallback :: "Envelope \<Rightarrow> Manager \<Rightarrow> world \<Rightarrow> Envelope \<times> Manager \<times> world" where
  "writeFallback env m w =
     (case fb_Write env (fallback m) w of (r, env1, fw, w1) \<Rightarrow> (env1, m\<lparr>fallback := fw\<rparr>, w1))"

definition m_Write :: "Envelope \<Rightarrow> Manager \<Rightarrow> world \<Rightarrow> Envelope \<times> Manager \<times> world" where
  "m_Write env m w =
     (if healthy m then
        (case kw_Write env (kafka m) w of
           (None, env1, k, w1) \<Rightarrow> (env1, m\<lparr>kafka := k\<rparr>, w1)
         | (Some e, env1, k, w1) \<Rightarrow>
             if panicked w1 then (env1, m\<lparr>kafka := k\<rparr>, w1)
             else writeFallback env1 (set_healthy False (m\<lparr>kafka := k\<rparr>)) (metric (KafkaHealthy False) w1))
      else writeFallback env m w)"

text \<open>
  The drain loop after the first replay succeeded: it runs while the clock is before the deadline.
  Each turn consumes a reading of the clock, and nothing bounds the number of turns but the
  deadline and the files, so not returning is \<open>None\<close>.
\<close>

partial_function (option) drain :: "int \<Rightarrow> Manager \<Rightarrow> world \<Rightarrow> (Manager \<times> world) option" where
  "drain deadline m w =
     (case time_Now w of (t, w1) \<Rightarrow>
      if \<not> t < deadline then Some (m, w1)
      else
        (case Peek (fallback m) w1 of
           None \<Rightarrow> None
         | Some (None, fw, w2) \<Rightarrow> Some (m\<lparr>fallback := fw\<rparr>, w2)
         | Some (Some rec, fw, w2) \<Rightarrow>
             (case kw_Write (Env rec) (kafka m) w2 of
                (Some e, env1, k, w3) \<Rightarrow>
                  if panicked w3 then Some (m\<lparr>fallback := fw, kafka := k\<rparr>, w3)
                  else Some (set_healthy False (m\<lparr>fallback := fw, kafka := k\<rparr>),
                        metric (KafkaHealthy False) (metric (FallbackReplay ''error'') w3))
              | (None, env1, k, w3) \<Rightarrow>
                  drain deadline (m\<lparr>fallback := Ack (rec\<lparr>Env := env1\<rparr>) fw, kafka := k\<rparr>)
                    (metric (FallbackReplay ''success'') w3))))"

definition probe_health :: "(string \<Rightarrow> bool) \<Rightarrow> Manager \<Rightarrow> world \<Rightarrow> Manager \<times> world" where
  "probe_health up m w =
     (case Probe up (kafka m) of
        Some e \<Rightarrow> (m, w)
      | None \<Rightarrow> (set_healthy True m, metric (KafkaHealthy True) w))"

definition tryRecover :: "(string \<Rightarrow> bool) \<Rightarrow> Manager \<Rightarrow> world \<Rightarrow> (Manager \<times> world) option" where
  "tryRecover up m w =
     (case Peek (fallback m) w of
        None \<Rightarrow> None
      | Some (None, fw, w1) \<Rightarrow> Some (probe_health up (m\<lparr>fallback := fw\<rparr>) w1)
      | Some (Some probe, fw, w1) \<Rightarrow>
          (case kw_Write (Env probe) (kafka m) w1 of
             (Some e, env1, k, w2) \<Rightarrow>
               if panicked w2 then Some (m\<lparr>fallback := fw, kafka := k\<rparr>, w2)
               else Some (m\<lparr>fallback := fw, kafka := k\<rparr>, metric (FallbackReplay ''error'') w2)
           | (None, env1, k, w2) \<Rightarrow>
               (case time_Now (metric (KafkaHealthy True) (metric (FallbackReplay ''success'') w2)) of
                  (t, w3) \<Rightarrow>
                    drain (t + (recoveryInterval - 2 * second))
                      (set_healthy True (m\<lparr>fallback := Ack (probe\<lparr>Env := env1\<rparr>) fw, kafka := k\<rparr>)) w3)))"

text \<open>One tick of \<open>recoveryLoop\<close>; the loop ends once the stop channel is closed.\<close>

definition recovery_tick :: "(string \<Rightarrow> bool) \<Rightarrow> Manager \<Rightarrow> world \<Rightarrow> (Manager \<times> world) option" where
  "recovery_tick up m w = (if stopped m \<or> healthy m then Some (m, w) else tryRecover up m w)"

definition m_Shutdown :: "bool \<Rightarrow> (string \<Rightarrow> bool) \<Rightarrow> Manager \<Rightarrow> world \<Rightarrow> Manager \<times> world" where
  "m_Shutdown ctx_done_first close_fails m w =
     (let m1 = m\<lparr>stopped := True\<rparr>;
          flush_err = Flush ctx_done_first;
          (close_err, k) = kw_Close close_fails (kafka m1);
          (fb_err, fw, w1) = fb_Close (fallback m1) w
      in (m1\<lparr>kafka := k, fallback := fw\<rparr>, w1))"

definition SerializeEnvelope :: "Envelope \<Rightarrow> string option" where
  "SerializeEnvelope env = marshal_envelope env"

end
