(* ===== verification/Handlers.thy ===== *)
theory Handlers
  imports Manager
begin

text \<open>
  The registry of \<open>internal/router/router.go\<close>, the indirection of \<open>internal/writeradapter\<close>, the
  handlers under \<open>internal/handler\<close> and the \<open>dispatch\<close> function of \<open>cmd/server/main.go\<close>. A handler
  works on the envelope it is given, the manager and the world; \<open>Inl\<close>-like errors are \<open>Some\<close>.
\<close>

section \<open>The writer adapter\<close>

type_synonym gateway = "Manager \<times> world"

type_synonym write_func = "Envelope \<Rightarrow> gateway \<Rightarrow> Envelope \<times> gateway"

text \<open>The installed function; \<open>None\<close> before \<open>Set\<close> has run, when \<open>Write\<close> drops the envelope.\<close>

definition adapter_Set :: "write_func \<Rightarrow> write_func option" where
  "adapter_Set f = Some f"

definition adapter_Write :: "write_func option \<Rightarrow> Envelope \<Rightarrow> gateway \<Rightarrow> Envelope \<times> gateway" where
  "adapter_Write fn env g = (case fn of None \<Rightarrow> (env, g) | Some f \<Rightarrow> f env g)"

definition manager_write :: write_func where
  "manager_write env g = (case m_Write env (fst g) (snd g) of (env1, m, w) \<Rightarrow> (env1, m, w))"

section \<open>Handlers\<close>

datatype Handler = app_log | app_message | event | exp_assignment_message | inbound_http | outbound_http
  | rpc | sys_message

fun Handler_Topic :: "Handler \<Rightarrow> string" where
  "Handler_Topic app_log = TopicAppLogs"
| "Handler_Topic app_message = TopicAppEvent"
| "Handler_Topic event = TopicEventTracks"
| "Handler_Topic exp_assignment_message = TopicExpAssignment"
| "Handler_Topic inbound_http = TopicInboundHTTPLogs"
| "Handler_Topic outbound_http = TopicOutboundHTTPLogs"
| "Handler_Topic rpc = TopicRPCCalls"
| "Handler_Topic sys_message = TopicSysEvent"

text \<open>\<open>json.Unmarshal\<close> of the payload into a struct: its members, or the error.\<close>

definition payload_members :: "Envelope \<Rightarrow> (string \<times> string) list option" where
  "payload_members env = unmarshal_members (case Data env of None \<Rightarrow> [] | Some d \<Rightarrow> d)"

definition levelTopic :: "string \<Rightarrow> string option" where
  "levelTopic = map_of [(''ERROR'', TopicAppLogsError), (''WARN'', TopicAppLogsWarn),
     (''INFO'', TopicAppLogsInfo), (''DEBUG'', TopicAppLogsDebug)]"

type_synonym handled = "error option \<times> Envelope \<times> gateway"

definition ok_write :: "write_func option \<Rightarrow> Envelope \<Rightarrow> gateway \<Rightarrow> handled" where
  "ok_write fn env g = (case adapter_Write fn env g of (env1, g1) \<Rightarrow> (None, env1, g1))"

definition app_log_Handle :: "write_func option \<Rightarrow> Envelope \<Rightarrow> gateway \<Rightarrow> handled" where
  "app_log_Handle fn env g =
     (case payload_members env of
        None \<Rightarrow> (Some ErrJson, env, g)
      | Some ms \<Rightarrow>
          (case (get_string ''level'' ms [], get_string ''message'' ms []) of
             (Some lvl, Some msg) \<Rightarrow>
               if lvl = [] \<or> msg = [] then (Some (ErrMsg ''app-logs: level and message are required''), env, g)
               else
                 (case levelTopic lvl of
                    None \<Rightarrow> (Some (ErrMsg (''app-logs: invalid level '' @ lvl)), env, g)
                  | Some target \<Rightarrow> ok_write fn (env\<lparr>Topic := target\<rparr>) g)
           | _ \<Rightarrow> (Some ErrJson, env, g)))"

definition rpc_Handle :: "write_func option \<Rightarrow> Envelope \<Rightarrow> gateway \<Rightarrow> handled" where
  "rpc_Handle fn env g =
     (case payload_members env of
        None \<Rightarrow> (Some ErrJson, env, g)
      | Some ms \<Rightarrow>
          (case (get_string ''caller'' ms [], get_string ''callee'' ms [], get_string ''method'' ms []) of
             (Some caller, Some callee, Some meth) \<Rightarrow>
               if caller = [] \<or> callee = [] \<or> meth = []
               then (Some (ErrMsg ''rpc-calls: caller/callee/method are required''), env, g)
               else ok_write fn env g
           | _ \<Rightarrow> (Some ErrJson, env, g)))"

definition app_message_Handle :: "write_func option \<Rightarrow> Envelope \<Rightarrow> gateway \<Rightarrow> handled" where
  "app_message_Handle fn env g = ok_write fn (env\<lparr>WriteRaw := True\<rparr>) g"

definition sys_message_Handle :: "write_func option \<Rightarrow> Envelope \<Rightarrow> gateway \<Rightarrow> handled" where
  "sys_message_Handle fn env g = ok_write fn (env\<lparr>WriteRaw := True\<rparr>) g"

definition exp_assignment_message_Handle :: "write_func option \<Rightarrow> Envelope \<Rightarrow> gateway \<Rightarrow> handled" where
  "exp_assignment_message_Handle fn env g = ok_write fn (env\<lparr>WriteRaw := True\<rparr>) g"

definition event_Handle :: "write_func option \<Rightarrow> Envelope \<Rightarrow> gateway \<Rightarrow> handled" where
  "event_Handle fn env g = ok_write fn env g"

definition inbound_http_Handle :: "write_func option \<Rightarrow> Envelope \<Rightarrow> gateway \<Rightarrow> handled" where
  "inbound_http_Handle fn env g = ok_write fn env g"

definition outbound_http_Handle :: "write_func option \<Rightarrow> Envelope \<Rightarrow> gateway \<Rightarrow> handled" where
  "outbound_http_Handle fn env g = ok_write fn env g"

definition passthrough_Handle :: "write_func option \<Rightarrow> Envelope \<Rightarrow> gateway \<Rightarrow> handled" where
  "passthrough_Handle fn env g = ok_write fn env g"

lemmas plain_Handle_defs = app_message_Handle_def sys_message_Handle_def
  exp_assignment_message_Handle_def event_Handle_def inbound_http_Handle_def outbound_http_Handle_def
  passthrough_Handle_def

fun Handle :: "write_func option \<Rightarrow> Handler \<Rightarrow> Envelope \<Rightarrow> gateway \<Rightarrow> handled" where
  "Handle fn app_log env g = app_log_Handle fn env g"
| "Handle fn app_message env g = app_message_Handle fn env g"
| "Handle fn event env g = event_Handle fn env g"
| "Handle fn exp_assignment_message env g = exp_assignment_message_Handle fn env g"
| "Handle fn inbound_http env g = inbound_http_Handle fn env g"
| "Handle fn outbound_http env g = outbound_http_Handle fn env g"
| "Handle fn rpc env g = rpc_Handle fn env g"
| "Handle fn sys_message env g = sys_message_Handle fn env g"

section \<open>The registry\<close>

type_synonym registry = "(string \<times> Handler) list"

text \<open>\<open>None\<close>: the duplicate panics.\<close>

definition Register :: "string \<Rightarrow> Handler \<Rightarrow> registry \<Rightarrow> registry option" where
  "Register topic h reg = (if map_of reg topic \<noteq> None then None else Some ((topic, h) # reg))"

definition Lookup :: "string \<Rightarrow> registry \<Rightarrow> Handler option" where
  "Lookup topic reg = map_of reg topic"

text \<open>The package initialisers.\<close>

definition app_log_init :: "registry \<Rightarrow> registry option" where
  "app_log_init = Register TopicAppLogs app_log"

definition app_message_init :: "registry \<Rightarrow> registry option" where
  "app_message_init = Register TopicAppEvent app_message"

definition event_init :: "registry \<Rightarrow> registry option" where
  "event_init = Register TopicEventTracks event"

definition exp_assignment_message_init :: "registry \<Rightarrow> registry option" where
  "exp_assignment_message_init = Register TopicExpAssignment exp_assignment_message"

definition inbound_http_init :: "registry \<Rightarrow> registry option" where
  "inbound_http_init = Register TopicInboundHTTPLogs inbound_http"

definition outbound_http_init :: "registry \<Rightarrow> registry option" where
  "outbound_http_init = Register TopicOutboundHTTPLogs outbound_http"

definition rpc_init :: "registry \<Rightarrow> registry option" where
  "rpc_init = Register TopicRPCCalls rpc"

definition sys_message_init :: "registry \<Rightarrow> registry option" where
  "sys_message_init = Register TopicSysEvent sys_message"

lemmas init_defs = app_log_init_def app_message_init_def event_init_def exp_assignment_message_init_def inbound_http_init_def
  outbound_http_init_def rpc_init_def sys_message_init_def

text \<open>They run in the order of their import paths.\<close>

definition init_handlers :: "registry option" where
  "init_handlers = fold (\<lambda>ini r. Option.bind r ini)
     [app_log_init, app_message_init, event_init, exp_assignment_message_init,
      inbound_http_init, outbound_http_init, rpc_init, sys_message_init]
     (Some [])"

section \<open>Dispatch\<close>

definition observe :: "string \<Rightarrow> string \<Rightarrow> gateway \<Rightarrow> gateway" where
  "observe topic outcome g = (fst g, metric (MessageObserved topic outcome) (snd g))"

text \<open>The topic of the metric is read from the envelope after the handler has run.\<close>

definition dispatch :: "registry \<Rightarrow> write_func option \<Rightarrow> Envelope \<Rightarrow> gateway \<Rightarrow> gateway" where
  "dispatch reg fn env g =
     (case Lookup (Topic env) reg of
        None \<Rightarrow>
          (case passthrough_Handle fn env g of
             (Some e, env1, g1) \<Rightarrow> observe (Topic env1) ''invalid'' g1
           | (None, env1, g1) \<Rightarrow> observe (Topic env1) ''passthrough'' g1)
      | Some h \<Rightarrow>
          (case Handle fn h env g of
             (Some e, env1, g1) \<Rightarrow> observe (Topic env1) ''invalid'' g1
           | (None, env1, g1) \<Rightarrow> observe (Topic env1) ''handled'' g1))"

end
