(* ===== verification/Fallback_Props.thy ===== *)
theory Fallback_Props
  imports Fallback
begin

text \<open>
  What the fallback writer keeps: each line is one record that decodes to the envelope it was
  written for, the rolled files hold a sequence of waiting records, and \<open>Peek\<close> takes the first of
  them. Its loop ends because every turn removes a file or consumes bytes of the open one.
\<close>

section \<open>A line is one record\<close>

lemma tight_run_no_control: "tight_run lim st v = Some st' \<Longrightarrow> c \<in> set v \<Longrightarrow> 32 \<le> code c"
proof (induction v arbitrary: st)
  case (Cons x xs)
  then obtain st1 where x: "\<not> (is_space x \<and> fst st \<noteq> InString)"
    and step: "scan_step lim st x = Some st1" and rest: "tight_run lim st1 xs = Some st'"
    by (auto split: if_splits option.splits)
  have "32 \<le> code x"
  proof (rule ccontr)
    assume low: "\<not> 32 \<le> code x"
    obtain s k where st: "st = (s, k)"
      by (cases st)
    have ne: "\<And>y. 32 \<le> code y \<Longrightarrow> x \<noteq> y"
      using low by auto
    have nd: "\<not> is_digit x" "\<not> is_hex x"
      using low by (auto simp: is_digit_def is_hex_def hex_val_def)
    show False
    proof (cases "s = InString")
      case True
      then show False
        using step st low by (simp add: ne)
    next
      case False
      then have "\<not> is_space x"
        using x st by simp
      moreover from this have "end_value l x = None" for l
        by (cases l) (auto simp: ne split: parse_state.splits)
      ultimately have "scan_step lim (s, k) x = None"
        using False nd
        by (cases s) (simp_all add: ne begin_value_def begin_string_def expect_def state0_def)
      then show False
        using step st by simp
    qed
  qed
  then show ?case
    using Cons.IH [OF rest] Cons.prems(2) by auto
qed simp

lemma json_value_no_control: "json_value lim v \<Longrightarrow> c \<in> set v \<Longrightarrow> 32 \<le> code c"
  by (auto simp: json_value_def dest: tight_run_no_control)

lemma json_members_no_control:
  "\<forall>p \<in> set ms. json_value lim (snd p) \<Longrightarrow> c \<in> set (json_members ms) \<Longrightarrow> 32 \<le> code c"
proof (induction ms rule: json_members.induct)
  case (2 k v)
  then show ?case
    using json_value_no_control [of lim v c] json_value_no_control [of lim "quote k" c] by auto
next
  case (3 k v m ms)
  then show ?case
    using json_value_no_control [of lim v c] json_value_no_control [of lim "quote k" c] by auto
qed simp

lemma json_object_no_control:
  "\<forall>p \<in> set ms. json_value lim (snd p) \<Longrightarrow> c \<in> set (json_object ms) \<Longrightarrow> 32 \<le> code c"
  using json_members_no_control by (fastforce simp: json_object_def)

text \<open>What a line gives back for the envelope it was written for.\<close>

definition stored :: "Envelope \<Rightarrow> Envelope" where
  "stored env =
     (if WriteRaw env
      then zero_envelope\<lparr>Topic := Topic env, PartitionKey := PartitionKey env, TraceID := TraceID env,
             Data := marshal_raw (Data env), WriteRaw := True\<rparr>
      else env\<lparr>Data := marshal_raw (Data env)\<rparr>)"

lemma raw_members_json:
  "json_value lim d \<Longrightarrow> \<forall>p \<in> set (raw_members env d). json_value lim (snd p)"
  using json_value_omit_empty by (auto simp: raw_members_def)

lemma envelope_members_json:
  "json_value lim d \<Longrightarrow> \<forall>p \<in> set (envelope_members env d). json_value lim (snd p)"
  using json_value_omit_empty by (auto simp: envelope_members_def)

lemma unmarshal_raw_members:
  assumes "json_value (maxNestingDepth - 1) d"
  shows "unmarshal_members (json_object (raw_members env d)) = Some (raw_members env d)"
  using unmarshal_json_object [OF raw_members_json [OF assms], of env]
  by (simp add: raw_members_def maxNestingDepth_def ValidString_field_names map_omit_empty)

lemma unmarshal_env_members:
  assumes "json_value (maxNestingDepth - 1) d"
  shows "unmarshal_members (json_object (envelope_members env d)) = Some (envelope_members env d)"
  using unmarshal_json_object [OF envelope_members_json [OF assms], of env]
  by (simp add: envelope_members_def maxNestingDepth_def ValidString_field_names map_omit_empty)

lemma ToValid_rawFmt: "ToValid fallbackRawFmt = fallbackRawFmt"
  by (simp add: fallbackRawFmt_def ToValid_ascii)

lemma raw_members_get:
  "get_string ''_fmt'' (raw_members env d) [] = Some fallbackRawFmt"
  "get_string ''topic'' (raw_members env d) [] = Some (ToValid (Topic env))"
  "get_string ''partition_key'' (raw_members env d) [] = Some (ToValid (PartitionKey env))"
  "get_string ''trace_id'' (raw_members env d) [] = Some (ToValid (TraceID env))"
  "get_raw ''data'' (raw_members env d) r = Some d"
  by (simp_all add: raw_members_def get_simps get_skip_head field_match_def foldName_field_names
      ToValid_rawFmt del: get_string.simps(2))

lemma env_members_fmt: "get_string ''_fmt'' (envelope_members env d) [] = Some []"
  by (simp add: envelope_members_def get_simps get_skip_head field_match_def foldName_field_names
      del: get_string.simps(2))

lemma probe_raw:
  assumes "json_value (maxNestingDepth - 1) d"
  shows "probe_fmt (json_object (raw_members env d)) = Some fallbackRawFmt"
  by (simp add: probe_fmt_def unmarshal_raw_members [OF assms] raw_members_get)

lemma probe_env:
  assumes "json_value (maxNestingDepth - 1) d"
  shows "probe_fmt (json_object (envelope_members env d)) = Some []"
  by (simp add: probe_fmt_def unmarshal_env_members [OF assms] env_members_fmt)

lemma encode_decode_line:
  assumes "wf_envelope env"
  shows "\<exists>body. encode_line env = Some body \<and> decode_line body = Some (stored env) \<and>
    (\<forall>c \<in> set body. 32 \<le> code c) \<and> body \<noteq> [] "
proof -
  obtain d where d: "marshal_raw (Data env) = Some d" "json_value (maxNestingDepth - 1) d"
    using assms marshal_raw_ok by (auto simp: wf_envelope_def)
  show ?thesis
  proof (cases "WriteRaw env")
    case True
    define body where "body = json_object (raw_members env d)"
    have "decode_line body = Some (stored env)"
      using assms True d unfolding body_def
      by (simp add: decode_line_def probe_raw unmarshal_raw_record_def unmarshal_raw_members
          raw_members_get ToValid_ValidString wf_envelope_def stored_def)
    moreover have "encode_line env = Some body"
      using True d by (simp add: encode_line_def marshal_raw_record_def body_def)
    moreover have "\<forall>c \<in> set body. 32 \<le> code c" "body \<noteq> []"
      using json_object_no_control [OF raw_members_json [OF d(2)]] by (auto simp: body_def json_object_def)
    ultimately show ?thesis
      by blast
  next
    case False
    define body where "body = json_object (envelope_members env d)"
    have "decode_line body = Some (stored env)"
      using unmarshal_envelope_members [OF assms d(2)] False d unfolding body_def
      by (simp add: decode_line_def probe_env fallbackRawFmt_def stored_def)
    moreover have "encode_line env = Some body"
      using False d by (simp add: encode_line_def marshal_envelope_def body_def)
    moreover have "\<forall>c \<in> set body. 32 \<le> code c" "body \<noteq> []"
      using json_object_no_control [OF envelope_members_json [OF d(2)]] by (auto simp: body_def json_object_def)
    ultimately show ?thesis
      by blast
  qed
qed


section \<open>Files as record sequences\<close>

function lines_of :: "string \<Rightarrow> string list" where
  "lines_of s =
     (if s = [] then []
      else let line = takeWhile (\<lambda>c. c \<noteq> CHR 0x0A) s in line # lines_of (drop (length line + 1) s))"
  by pat_completeness auto
termination
  by (relation "measure length") auto

declare lines_of.simps [simp del]

lemma lines_of_Nil [simp]: "lines_of [] = []"
  by (simp add: lines_of.simps)

lemma lines_of_line:
  "CHR 0x0A \<notin> set l \<Longrightarrow> lines_of (l @ CHR 0x0A # s) = l # lines_of s"
proof -
  assume "CHR 0x0A \<notin> set l"
  then have "takeWhile (\<lambda>c. c \<noteq> CHR 0x0A) (l @ CHR 0x0A # s) = l"
    by (intro takeWhile_append_stop) auto
  then show ?thesis
    by (simp add: lines_of.simps [of "l @ CHR 0x0A # s"] Let_def)
qed

text \<open>The records a reader finds in the rest of a file, in order; lines that do not decode are skipped.\<close>

definition records :: "string \<Rightarrow> Envelope list" where
  "records s = List.map_filter (\<lambda>l. decode_line (dropCR l)) (lines_of s)"

definition short_lines :: "string \<Rightarrow> bool" where
  "short_lines s \<longleftrightarrow> (\<forall>l \<in> set (lines_of s). length l < maxLine)"

lemma records_Nil [simp]: "records [] = []"
  by (simp add: records_def List.map_filter_simps)

lemma records_unfold:
  assumes "s \<noteq> []" "line = takeWhile (\<lambda>c. c \<noteq> CHR 0x0A) s"
  shows "records s = (case decode_line (dropCR line) of None \<Rightarrow> [] | Some e \<Rightarrow> [e]) @
    records (drop (length line + 1) s)"
  using assms by (simp add: records_def lines_of.simps [of s] Let_def List.map_filter_simps
      split: option.splits)

lemma short_lines_unfold:
  assumes "s \<noteq> []" "line = takeWhile (\<lambda>c. c \<noteq> CHR 0x0A) s"
  shows "short_lines s \<longleftrightarrow> length line < maxLine \<and> short_lines (drop (length line + 1) s)"
  using assms by (simp add: short_lines_def lines_of.simps [of s] Let_def)

text \<open>Names of the rolled files, oldest first, and the records that wait in them.\<close>

definition done_files :: "(string \<times> nat) list \<Rightarrow> string list" where
  "done_files ds = sort_key tsFromName (filter (\<lambda>n. HasSuffix n ''.log.done'') (sort (map fst ds)))"

definition file_content :: "world \<Rightarrow> string \<Rightarrow> string" where
  "file_content w n = (case map_of (dirents w) n of None \<Rightarrow> [] | Some i \<Rightarrow> inodes w i)"

definition pending :: "FallbackWriter \<Rightarrow> world \<Rightarrow> Envelope list" where
  "pending fw w =
     (case peekState fw of
        None \<Rightarrow> concat (map (\<lambda>n. records (file_content w n)) (done_files (dirents w)))
      | Some pk \<Rightarrow>
          records (drop (pk_pos pk) (inodes w (pk_file pk))) @
          concat (map (\<lambda>n. records (file_content w n))
            (filter (\<lambda>n. n \<noteq> pk_path pk) (done_files (dirents w)))))"

definition readable :: "FallbackWriter \<Rightarrow> world \<Rightarrow> bool" where
  "readable fw w \<longleftrightarrow>
     wf_world w \<and> no_faults w \<and>
     (\<forall>n \<in> set (done_files (dirents w)). short_lines (file_content w n)) \<and>
     (case peekState fw of None \<Rightarrow> True
      | Some pk \<Rightarrow> short_lines (drop (pk_pos pk) (inodes w (pk_file pk))))"

lemma file_content_cong:
  "dirents w' = dirents w \<Longrightarrow> inodes w' = inodes w \<Longrightarrow> file_content w' = file_content w"
  by (rule ext) (simp add: file_content_def split: option.split)

lemma tick_frame [simp]:
  "dirents (tick w) = dirents w" "inodes (tick w) = inodes w" "next_ino (tick w) = next_ino w"
  "mets (tick w) = mets w" "kafka_calls (tick w) = kafka_calls w" "fault (tick w) = fault w"
  "file_content (tick w) = file_content w" "wf_world (tick w) = wf_world w"
  using file_content_cong [of "tick w" w] by (simp_all add: tick_def wf_world_def)

lemma done_files_unlink: "done_files (unlink p ds) = filter (\<lambda>n. n \<noteq> p) (done_files ds)"
proof -
  have "map fst (unlink p ds) = filter (\<lambda>n. n \<noteq> p) (map fst ds)"
    by (simp add: unlink_def filter_map o_def)
  then show ?thesis
    by (simp add: done_files_def filter_sort [symmetric] conj_commute)
qed

lemma listDoneFiles_ok:
  "no_faults w \<Longrightarrow> listDoneFiles w = (Inr (done_files (dirents w)), tick w)"
  by (simp add: listDoneFiles_def os_ReadDir_def done_files_def)

lemma set_files_gauge_ok:
  "no_faults w \<Longrightarrow> set_files_gauge w = metric (FallbackFilesSet (length (done_files (dirents w)))) (tick w)"
  by (simp add: set_files_gauge_def listDoneFiles_ok)

lemma done_files_known: "n \<in> set (done_files ds) \<Longrightarrow> \<exists>i. map_of ds n = Some i"
  by (auto simp: done_files_def dest: weak_map_of_SomeI)


lemma distinct_done_files: "distinct (map fst ds) \<Longrightarrow> distinct (done_files ds)"
  by (simp add: done_files_def)

lemma world_after_eof:
  assumes "no_faults w"
  shows "dirents (set_files_gauge (snd (os_Remove p (snd (file_Close (tick w)))))) = unlink p (dirents w)"
    "inodes (set_files_gauge (snd (os_Remove p (snd (file_Close (tick w)))))) = inodes w"
    "no_faults (set_files_gauge (snd (os_Remove p (snd (file_Close (tick w))))))"
    "next_ino (set_files_gauge (snd (os_Remove p (snd (file_Close (tick w)))))) = next_ino w"
proof -
  have nf: "no_faults (snd (os_Remove p (snd (file_Close (tick w)))))"
    using assms by (auto simp: os_Remove_def file_Close_def tick_def no_faults_def split: option.splits)
  have "unlink p (dirents w) = dirents w" if "map_of (dirents w) p = None"
    using that by (force simp: unlink_def map_of_eq_None_iff filter_id_conv)
  then show "dirents (set_files_gauge (snd (os_Remove p (snd (file_Close (tick w)))))) = unlink p (dirents w)"
    using assms nf by (auto simp: set_files_gauge_ok os_Remove_def file_Close_def metric_def tick_def
        split: option.splits)
qed (use assms in \<open>auto simp: set_files_gauge_def listDoneFiles_def os_ReadDir_def os_Remove_def
    file_Close_def metric_def tick_def no_faults_def split: option.splits\<close>)

lemma file_content_unlink:
  "dirents w' = unlink p (dirents w) \<Longrightarrow> inodes w' = inodes w \<Longrightarrow> n \<noteq> p \<Longrightarrow>
   file_content w' n = file_content w n"
  by (simp add: file_content_def map_of_unlink split: option.split)

lemma wf_world_unlink:
  "wf_world w \<Longrightarrow> dirents w' = unlink p (dirents w) \<Longrightarrow> next_ino w' = next_ino w \<Longrightarrow> wf_world w'"
  by (auto simp: wf_world_def distinct_unlink set_unlink)

text \<open>What makes the loop of \<open>Peek\<close> end: files are removed, or bytes of the open one are consumed.\<close>

definition files_left :: "FallbackWriter \<Rightarrow> world \<Rightarrow> nat" where
  "files_left fw w =
     2 * length (done_files (dirents w)) +
     (case peekState fw of None \<Rightarrow> 0
      | Some pk \<Rightarrow> if pk_path pk \<in> set (done_files (dirents w)) then 0 else 1)"

definition bytes_left :: "FallbackWriter \<Rightarrow> world \<Rightarrow> nat" where
  "bytes_left fw w =
     (case peekState fw of
        None \<Rightarrow> (case done_files (dirents w) of [] \<Rightarrow> 0 | d # _ \<Rightarrow> length (file_content w d))
      | Some pk \<Rightarrow> length (drop (pk_pos pk) (inodes w (pk_file pk))))"

definition peek_less :: "((FallbackWriter \<times> world) \<times> (FallbackWriter \<times> world)) set" where
  "peek_less = measures [\<lambda>(fw, w). files_left fw w, \<lambda>(fw, w). bytes_left fw w]"

definition turn_ok :: "FallbackWriter \<Rightarrow> world \<Rightarrow> peek_result + (FallbackWriter \<times> world) \<Rightarrow> bool" where
  "turn_ok fw w res =
     (case res of
        Inl (r, fw', w') \<Rightarrow>
          readable fw' w' \<and> pending fw' w' = tl (pending fw w) \<and>
          map_option Env r = (case pending fw w of [] \<Rightarrow> None | e # _ \<Rightarrow> Some e)
      | Inr (fw', w') \<Rightarrow>
          readable fw' w' \<and> pending fw' w' = pending fw w \<and> ((fw', w'), (fw, w)) \<in> peek_less)"

lemma scan_turn_eof:
  assumes "readable fw w" "peekState fw = Some pk" "drop (pk_pos pk) (inodes w (pk_file pk)) = []"
  shows "turn_ok fw w (scan_turn pk fw w)"
proof -
  define w' where "w' = set_files_gauge (snd (os_Remove (pk_path pk) (snd (file_Close (tick w)))))"
  have nf: "no_faults w"
    using assms(1) by (simp add: readable_def)
  note w' = world_after_eof [OF nf, of "pk_path pk", folded w'_def]
  have turn: "scan_turn pk fw w = Inr (fw\<lparr>peekState := None\<rparr>, w')"
    using assms nf by (simp add: scan_turn_def scan_line_def Let_def w'_def)
  have dones: "done_files (dirents w') = filter (\<lambda>n. n \<noteq> pk_path pk) (done_files (dirents w))"
    by (simp add: w' done_files_unlink)
  have same: "map (\<lambda>n. f (file_content w' n)) (filter (\<lambda>n. n \<noteq> pk_path pk) xs) =
      map (\<lambda>n. f (file_content w n)) (filter (\<lambda>n. n \<noteq> pk_path pk) xs)" for f :: "string \<Rightarrow> 'a" and xs
    using file_content_unlink [OF w'(1,2)] by (intro map_cong) auto
  have "pending (fw\<lparr>peekState := None\<rparr>) w' = pending fw w"
    using assms(2,3) by (simp add: pending_def dones same)
  moreover have "readable (fw\<lparr>peekState := None\<rparr>) w'"
    using assms(1) file_content_unlink [OF w'(1,2)] wf_world_unlink [OF _ w'(1,4)] w'(3)
    by (auto simp: readable_def dones)
  moreover have "files_left (fw\<lparr>peekState := None\<rparr>) w' < files_left fw w"
    using assms(2) length_filter_less [of "pk_path pk" "done_files (dirents w)" "\<lambda>n. n \<noteq> pk_path pk"]
      length_filter_le [of "\<lambda>n. n \<noteq> pk_path pk" "done_files (dirents w)"]
    by (auto simp: files_left_def dones less_Suc_eq_le)
  ultimately show ?thesis
    by (simp add: turn_ok_def turn peek_less_def)
qed

lemma scan_turn_token:
  assumes "readable fw w" "peekState fw = Some pk" "drop (pk_pos pk) (inodes w (pk_file pk)) = rest" "rest \<noteq> []"
  shows "turn_ok fw w (scan_turn pk fw w)"
proof -
  define line where "line = takeWhile (\<lambda>c. c \<noteq> CHR 0x0A) rest"
  define pk1 where "pk1 = pk\<lparr>pk_pos := pk_pos pk + length line + 1\<rparr>"
  define fw1 where "fw1 = fw\<lparr>peekState := Some pk1\<rparr>"
  have nf: "no_faults w" and short: "length line < maxLine" "short_lines (drop (length line + 1) rest)"
    using assms short_lines_unfold [OF assms(4) line_def] by (auto simp: readable_def)
  have rest1: "drop (pk_pos pk1) (inodes w (pk_file pk1)) = drop (length line + 1) rest"
    by (simp add: pk1_def assms(3) [symmetric] add.commute)
  have scan: "scan_line pk w = (Token (dropCR line), pk1, tick w)"
    using nf short assms(3,4) by (simp add: scan_line_def Let_def line_def pk1_def)
  have rd: "readable fw1 (tick w)"
    using assms(1) short rest1
    by (simp add: readable_def fw1_def)
  have pend: "pending fw w = (case decode_line (dropCR line) of None \<Rightarrow> [] | Some e \<Rightarrow> [e]) @ pending fw1 (tick w)"
    using assms(2,3) records_unfold [OF assms(4) line_def] rest1
    by (simp add: pending_def fw1_def pk1_def)
  have "files_left fw1 (tick w) = files_left fw w" "bytes_left fw1 (tick w) < bytes_left fw w"
    using assms(2,3,4) rest1 by (simp_all add: files_left_def bytes_left_def fw1_def pk1_def)
  then have "((fw1, tick w), (fw, w)) \<in> peek_less"
    by (simp add: peek_less_def)
  then show ?thesis
    using rd pend
    by (cases "decode_line (dropCR line)") (simp_all add: scan_turn_def scan turn_ok_def Let_def fw1_def)
qed

lemma scan_turn_ok: "readable fw w \<Longrightarrow> peekState fw = Some pk \<Longrightarrow> turn_ok fw w (scan_turn pk fw w)"
  using scan_turn_eof scan_turn_token by blast


lemma peek_turn_open:
  assumes "readable fw w" "peekState fw = None" "done_files (dirents w) = d # ds"
  shows "turn_ok fw w (peek_turn fw w)"
proof -
  obtain i where i: "map_of (dirents w) d = Some i"
    using done_files_known [of d "dirents w"] assms(3) by auto
  define pk where "pk = \<lparr>pk_path = d, pk_file = i, pk_pos = 0\<rparr>"
  define fw1 where "fw1 = fw\<lparr>peekState := Some pk\<rparr>"
  define w1 where "w1 = tick (tick w)"
  have wf: "wf_world w" and nf: "no_faults w"
    using assms(1) by (simp_all add: readable_def)
  have w1: "dirents w1 = dirents w" "inodes w1 = inodes w" "next_ino w1 = next_ino w" "no_faults w1"
    "file_content w1 = file_content w"
    using nf by (simp_all add: w1_def)
  have turn: "peek_turn fw w = scan_turn pk fw1 w1"
    using assms nf i by (simp add: peek_turn_def openOldestDone_def listDoneFiles_ok os_Open_def
        fw1_def pk_def w1_def)
  have dist: "d \<notin> set ds"
    using distinct_done_files [of "dirents w"] wf assms(3) by (simp add: wf_world_def)
  then have ds: "filter (\<lambda>n. n \<noteq> d) (d # ds) = ds"
    by (simp add: filter_id_conv) blast
  have content: "inodes w i = file_content w d"
    by (simp add: file_content_def i)
  have "readable fw1 w1"
    using assms wf w1 content by (simp add: readable_def fw1_def pk_def wf_world_def)
  then have "turn_ok fw1 w1 (peek_turn fw w)"
    using scan_turn_ok [of fw1 w1 pk] turn by (simp add: fw1_def)
  moreover have "pending fw1 w1 = pending fw w"
    using assms(2,3) w1 content ds by (simp add: pending_def fw1_def pk_def)
  moreover have "files_left fw1 w1 = files_left fw w" "bytes_left fw1 w1 = bytes_left fw w"
    using assms(2,3) w1 content by (simp_all add: files_left_def bytes_left_def fw1_def pk_def)
  ultimately show ?thesis
    by (auto simp: turn_ok_def peek_less_def split: sum.splits)
qed

lemma peek_turn_ok:
  assumes "readable fw w"
  shows "turn_ok fw w (peek_turn fw w)"
proof (cases "peekState fw")
  case (Some pk)
  then show ?thesis
    using scan_turn_ok [OF assms Some] by (simp add: peek_turn_def)
next
  case None
  show ?thesis
  proof (cases "done_files (dirents w)")
    case Nil
    have "peek_turn fw w = Inl (None, fw, tick w)"
      using assms None Nil by (simp add: peek_turn_def openOldestDone_def listDoneFiles_ok readable_def)
    then show ?thesis
      using assms None Nil
      by (simp add: turn_ok_def readable_def pending_def)
  next
    case (Cons d ds)
    then show ?thesis
      using peek_turn_open [OF assms None] by simp
  qed
qed

lemma Peek_ok:
  assumes "readable fw w"
  shows "\<exists>r fw' w'. Peek fw w = Some (r, fw', w') \<and> readable fw' w' \<and>
    map_option Env r = (case pending fw w of [] \<Rightarrow> None | e # _ \<Rightarrow> Some e) \<and>
    pending fw' w' = tl (pending fw w)"
proof -
  have "wf peek_less"
    by (simp add: peek_less_def)
  then show ?thesis
    using assms
  proof (induction "(fw, w)" arbitrary: fw w rule: wf_induct_rule)
    case (less fw w)
    show ?case
    proof (cases "peek_turn fw w")
      case (Inl r)
      then show ?thesis
        using peek_turn_ok [OF less.prems] by (auto simp: Peek.simps [of fw w] turn_ok_def split: prod.splits)
    next
      case (Inr p)
      obtain fw1 w1 where p: "p = (fw1, w1)"
        by (cases p)
      then have "readable fw1 w1" "pending fw1 w1 = pending fw w" "((fw1, w1), (fw, w)) \<in> peek_less"
        using peek_turn_ok [OF less.prems] Inr by (simp_all add: turn_ok_def)
      moreover have "Peek fw w = Peek fw1 w1"
        using Inr p by (simp add: Peek.simps [of fw w])
      ultimately show ?thesis
        using less.hyps [of fw1 w1] by simp
    qed
  qed
qed

end
