(* ===== verification/Log_Store.thy ===== *)
theory Log_Store
  imports Prelude
begin

text \<open>
  The interface between the writer manager and the files it falls back to: a store whose records
  are appended at one end and popped at the other. A record becomes poppable only after the store
  has rolled it, so a store has records that wait to be popped and, behind them, the rest.
\<close>

datatype 'e store_op = Append 'e | Pop

text \<open>A sequence of calls; popped records are collected in order. \<open>None\<close>: a call did not return.\<close>

primrec run_ops :: "('e \<Rightarrow> 's \<Rightarrow> 's) \<Rightarrow> ('s \<Rightarrow> ('r option \<times> 's) option) \<Rightarrow> 'e store_op list \<Rightarrow> 's \<Rightarrow>
    ('r list \<times> 's) option" where
  "run_ops app pop [] s = Some ([], s)"
| "run_ops app pop (c # cs) s =
     (case c of
        Append e \<Rightarrow> run_ops app pop cs (app e s)
      | Pop \<Rightarrow>
          (case pop s of
             None \<Rightarrow> None
           | Some (r, s1) \<Rightarrow>
               map_option (\<lambda>(rs, s2). ((case r of None \<Rightarrow> rs | Some x \<Rightarrow> x # rs), s2)) (run_ops app pop cs s1)))"

text \<open>Every append of the sequence finds the store ready for it.\<close>

primrec admissible :: "('e \<Rightarrow> 's \<Rightarrow> 's) \<Rightarrow> ('s \<Rightarrow> ('r option \<times> 's) option) \<Rightarrow> ('e \<Rightarrow> 's \<Rightarrow> bool) \<Rightarrow>
    'e store_op list \<Rightarrow> 's \<Rightarrow> bool" where
  "admissible app pop ready [] s = True"
| "admissible app pop ready (c # cs) s =
     (case c of
        Append e \<Rightarrow> ready e s \<and> admissible app pop ready cs (app e s)
      | Pop \<Rightarrow> (case pop s of None \<Rightarrow> True | Some (_, s1) \<Rightarrow> admissible app pop ready cs s1))"

definition appended :: "'e store_op list \<Rightarrow> 'e list" where
  "appended cs = concat (map (\<lambda>c. case c of Append e \<Rightarrow> [e] | Pop \<Rightarrow> []) cs)"

lemma appended_simps [simp]:
  "appended [] = []" "appended (Append e # cs) = e # appended cs" "appended (Pop # cs) = appended cs"
  by (simp_all add: appended_def)

section \<open>Popping\<close>

locale replay_source =
  fixes good :: "'s \<Rightarrow> bool"
    and waiting :: "'s \<Rightarrow> 'r list"
    and rest :: "'s \<Rightarrow> 'r list"
    and pop :: "'s \<Rightarrow> ('r option \<times> 's) option"
  assumes pop_law: "good s \<Longrightarrow> \<exists>s'. pop s = Some (case waiting s of [] \<Rightarrow> None | x # _ \<Rightarrow> Some x, s') \<and>
      good s' \<and> waiting s' = tl (waiting s) \<and> rest s' = rest s"
begin

lemma pop_many:
  "good s \<Longrightarrow> \<exists>s'. run_ops app pop (replicate n Pop) s = Some (take n (waiting s), s') \<and> good s' \<and>
     waiting s' = drop n (waiting s) \<and> rest s' = rest s"
proof (induction n arbitrary: s)
  case (Suc n)
  obtain s1 where s1: "pop s = Some (case waiting s of [] \<Rightarrow> None | x # _ \<Rightarrow> Some x, s1)" "good s1"
    "waiting s1 = tl (waiting s)" "rest s1 = rest s"
    using pop_law [OF Suc.prems] by blast
  obtain s2 where "run_ops app pop (replicate n Pop) s1 = Some (take n (waiting s1), s2)" "good s2"
    "waiting s2 = drop n (waiting s1)" "rest s2 = rest s1"
    using Suc.IH [OF s1(2)] by blast
  then show ?case
    using s1 by (cases "waiting s") auto
qed simp

end

section \<open>Appending\<close>

locale log_store = replay_source +
  fixes app :: "'e \<Rightarrow> 's \<Rightarrow> 's"
    and ready :: "'e \<Rightarrow> 's \<Rightarrow> bool"
    and image :: "'e \<Rightarrow> 'r"
  assumes append_law: "good s \<Longrightarrow> ready e s \<Longrightarrow>
      good (app e s) \<and> waiting (app e s) @ rest (app e s) = waiting s @ rest s @ [image e]"
begin

text \<open>Nothing is lost, duplicated or reordered by any sequence of appends and pops.\<close>

lemma conservation:
  "good s \<Longrightarrow> admissible app pop ready cs s \<Longrightarrow>
   \<exists>rs s'. run_ops app pop cs s = Some (rs, s') \<and> good s' \<and>
     rs @ waiting s' @ rest s' = waiting s @ rest s @ map image (appended cs)"
proof (induction cs arbitrary: s)
  case (Cons c cs)
  show ?case
  proof (cases c)
    case (Append e)
    then have ok: "good (app e s)" "waiting (app e s) @ rest (app e s) = waiting s @ rest s @ [image e]"
      using append_law Cons.prems by auto
    moreover have "admissible app pop ready cs (app e s)"
      using Cons.prems Append by simp
    ultimately obtain rs s' where "run_ops app pop cs (app e s) = Some (rs, s')" "good s'"
      "rs @ waiting s' @ rest s' = waiting (app e s) @ rest (app e s) @ map image (appended cs)"
      using Cons.IH by blast
    then show ?thesis
      using Append ok(2) by (simp flip: append_assoc)
  next
    case Pop
    obtain s1 where s1: "pop s = Some (case waiting s of [] \<Rightarrow> None | x # _ \<Rightarrow> Some x, s1)" "good s1"
      "waiting s1 = tl (waiting s)" "rest s1 = rest s"
      using pop_law Cons.prems by blast
    then have "admissible app pop ready cs s1"
      using Cons.prems Pop by simp
    then obtain rs s' where "run_ops app pop cs s1 = Some (rs, s')" "good s'"
      "rs @ waiting s' @ rest s' = waiting s1 @ rest s1 @ map image (appended cs)"
      using Cons.IH [OF s1(2)] by blast
    then show ?thesis
      using Pop s1 by (cases "waiting s") auto
  qed
qed simp

end

end
