(* ===== verification/Fallback_Store.thy ===== *)
theory Fallback_Store
  imports Fallback_Props Log_Store
begin

text \<open>
  The fallback files as a store of records: \<open>backlog\<close> is the sequence of records on disk, \<open>Write\<close>
  appends to it, \<open>rotate\<close> and \<open>Close\<close> move the active file's records behind the rolled ones without
  changing the sequence, and \<open>Peek\<close> takes its first record. \<open>store_inv\<close> is the invariant; it asks
  for a file system that works, since errors of the file system are reported or lose data.
\<close>

section \<open>Writing appends to the backlog\<close>

definition complete :: "string \<Rightarrow> bool" where
  "complete s \<longleftrightarrow> s = [] \<or> last s = CHR 0x0A"

lemma lines_of_append: "complete s \<Longrightarrow> lines_of (s @ t) = lines_of s @ lines_of t"
proof (induction s rule: lines_of.induct)
  case (1 s)
  show ?case
  proof (cases "s = []")
    case False
    define l where "l = takeWhile (\<lambda>c. c \<noteq> CHR 0x0A) s"
    have nl: "CHR 0x0A \<in> set s"
      using "1.prems" False by (metis complete_def last_in_set)
    then obtain a r where ar: "s = a @ CHR 0x0A # r" "CHR 0x0A \<notin> set a"
      using split_list_first by metis
    then have "takeWhile (\<lambda>c. c \<noteq> CHR 0x0A) s = a"
      unfolding ar(1) by (intro takeWhile_append_stop) auto
    then have s: "s = l @ CHR 0x0A # r" and l: "CHR 0x0A \<notin> set l"
      using ar by (simp_all add: l_def)
    have "complete r"
      using "1.prems" s by (simp add: complete_def split: if_splits)
    then have "lines_of (r @ t) = lines_of r @ lines_of t"
      using "1.IH" [OF False l_def] s by simp
    then show ?thesis
      using l s by (simp add: lines_of_line)
  qed simp
qed

lemma records_append: "complete s \<Longrightarrow> records (s @ t) = records s @ records t"
  by (simp add: records_def lines_of_append map_filter_def)

lemma short_lines_append: "complete s \<Longrightarrow> short_lines (s @ t) \<longleftrightarrow> short_lines s \<and> short_lines t"
  by (auto simp: short_lines_def lines_of_append)

lemma records_line:
  assumes "\<forall>c \<in> set body. 32 \<le> code c" "decode_line body = Some e"
  shows "records (body @ [CHR 0x0A]) = [e]"
proof -
  have "CHR 0x0A \<notin> set body"
    using assms(1) by auto
  moreover have "dropCR body = body"
  proof (cases "body = []")
    case False
    then have "32 \<le> code (last body)"
      using assms(1) last_in_set by blast
    then show ?thesis
      by (auto simp: dropCR_def)
  qed (simp add: dropCR_def)
  ultimately show ?thesis
    using assms(2) lines_of_line [of body "[]"] by (simp add: records_def List.map_filter_simps)
qed

lemma short_line:
  "\<forall>c \<in> set body. 32 \<le> code c \<Longrightarrow> length body < maxLine \<Longrightarrow> short_lines (body @ [CHR 0x0A])"
  using lines_of_line [of body "[]"] by (force simp: short_lines_def)

definition active :: "FallbackWriter \<Rightarrow> world \<Rightarrow> Envelope list" where
  "active fw w = (case current fw of None \<Rightarrow> [] | Some h \<Rightarrow> records (inodes w (h_ino h)))"

text \<open>The records on disk in the order they were written: the rolled files, then the active one.\<close>

definition backlog :: "FallbackWriter \<Rightarrow> world \<Rightarrow> Envelope list" where
  "backlog fw w = pending fw w @ active fw w"

text \<open>A time stamp that no rolled file has reached yet names a new file that is read last.\<close>

definition newest :: "int \<Rightarrow> FallbackWriter \<Rightarrow> world \<Rightarrow> bool" where
  "newest t fw w \<longleftrightarrow>
     is_int64 t \<and> (\<forall>d \<in> set (done_files (dirents w)). tsFromName d < t) \<and>
     (\<forall>pk. peekState fw = Some pk \<longrightarrow> tsFromName (pk_path pk) < t)"

definition active_ok :: "FallbackWriter \<Rightarrow> world \<Rightarrow> bool" where
  "active_ok fw w \<longleftrightarrow>
     (case current fw of None \<Rightarrow> True
      | Some h \<Rightarrow>
          \<not> h_closed h \<and> map_of (dirents w) (currentPath fw) = Some (h_ino h) \<and>
          (\<exists>t. currentPath fw = FormatInt t @ ''.log'' \<and> newest t fw w) \<and>
          complete (inodes w (h_ino h)) \<and> short_lines (inodes w (h_ino h)) \<and>
          (\<forall>pk. peekState fw = Some pk \<longrightarrow> pk_file pk \<noteq> h_ino h))"

definition store_inv :: "FallbackWriter \<Rightarrow> world \<Rightarrow> bool" where
  "store_inv fw w \<longleftrightarrow>
     readable fw w \<and> distinct (map snd (dirents w)) \<and> active_ok fw w \<and>
     (\<forall>pk. peekState fw = Some pk \<longrightarrow> pk_file pk < next_ino w \<and> HasSuffix (pk_path pk) ''.log.done'' \<and>
        (\<forall>i. map_of (dirents w) (pk_path pk) = Some i \<longrightarrow> i = pk_file pk))"

lemma not_done_log: "\<not> HasSuffix (n @ ''.log'') ''.log.done''"
  by (auto simp: HasSuffix_def suffix_def)

lemma done_log_done: "HasSuffix (n @ ''.log'' @ ''.done'') ''.log.done''"
  by (auto simp: HasSuffix_def suffix_def)

lemma map_of_distinct_snd:
  "distinct (map snd ds) \<Longrightarrow> map_of ds a = Some i \<Longrightarrow> map_of ds b = Some i \<Longrightarrow> a = b"
proof -
  assume d: "distinct (map snd ds)" and "map_of ds a = Some i" "map_of ds b = Some i"
  then have "(a, i) \<in> set ds" "(b, i) \<in> set ds"
    by (auto dest: map_of_SomeD)
  with d show ?thesis
    by (force simp: distinct_map inj_on_def)
qed

lemma set_done_files: "set (done_files ds) = {n \<in> fst ` set ds. HasSuffix n ''.log.done''}"
  by (auto simp: done_files_def)

lemma tsFromName_done: "is_int64 t \<Longrightarrow> tsFromName (FormatInt t @ ''.log'' @ ''.done'') = t"
  using TrimSuffix_append [of "FormatInt t" "''.log.done''"] by (simp add: tsFromName_def ParseInt_FormatInt)


lemma sort_key_last:
  fixes n :: "'a::linorder"
  assumes "sorted L" "\<forall>d \<in> set L. f d < f n"
  shows "sort_key f (insort n L) = sort_key f L @ [n]"
proof (rule properties_for_sort_key)
  show "mset (sort_key f L @ [n]) = mset (insort n L)"
    by simp
  show "sorted (map f (sort_key f L @ [n]))"
    using assms(2) by (auto simp: sorted_append intro: less_imp_le)
  fix k assume k: "k \<in> set (sort_key f L @ [n])"
  have stable: "filter (\<lambda>x. f k = f x) (sort_key f L) = filter (\<lambda>x. f k = f x) L"
    using sort_key_stable [of f "f k" L] by (simp add: eq_commute)
  show "filter (\<lambda>x. f k = f x) (sort_key f L @ [n]) = filter (\<lambda>x. f k = f x) (insort n L)"
  proof (cases "f k = f n")
    case True
    then have "filter (\<lambda>x. f k = f x) L = []"
      using assms(2) by (auto simp: filter_empty_conv)
    then show ?thesis
      using True stable filter_insort [of "\<lambda>x. x" L "\<lambda>x. f k = f x" n] assms(1) by simp
  next
    case False
    then show ?thesis
      using stable filter_insort_triv [of "\<lambda>x. f k = f x" n "\<lambda>x. x" L] by simp
  qed
qed

lemma done_files_add:
  assumes "HasSuffix n ''.log.done''" "\<forall>d \<in> set (done_files ds). tsFromName d < tsFromName n"
  shows "done_files ((n, i) # ds) = done_files ds @ [n]"
proof -
  have "filter (\<lambda>n. HasSuffix n ''.log.done'') (insort n (sort (map fst ds))) =
      insort n (filter (\<lambda>n. HasSuffix n ''.log.done'') (sort (map fst ds)))"
    using filter_insort [of "\<lambda>x. x" "sort (map fst ds)" "\<lambda>n. HasSuffix n ''.log.done''" n] assms(1)
    by simp
  moreover have "sorted (filter (\<lambda>n. HasSuffix n ''.log.done'') (sort (map fst ds)))"
    using sorted_filter [of "\<lambda>x. x" "sort (map fst ds)"] by simp
  ultimately show ?thesis
    using assms(2) sort_key_last [of "filter (\<lambda>n. HasSuffix n ''.log.done'') (sort (map fst ds))" tsFromName n]
    by (simp add: done_files_def)
qed

lemma done_files_unlink_log:
  "\<not> HasSuffix p ''.log.done'' \<Longrightarrow> done_files (unlink p ds) = done_files ds"
  by (auto simp: done_files_unlink set_done_files filter_id_conv)

lemma done_files_cons_log:
  "\<not> HasSuffix p ''.log.done'' \<Longrightarrow> done_files ((p, i) # ds) = done_files ds"
  using filter_insort_triv [of "\<lambda>n. HasSuffix n ''.log.done''" p "\<lambda>x. x" "sort (map fst ds)"]
  by (simp add: done_files_def)


section \<open>Rotation\<close>

text \<open>The name of the active file, rolled.\<close>

lemma rolled_name:
  assumes "currentPath fw = FormatInt t @ ''.log''" "newest t fw w"
  shows "HasSuffix (currentPath fw @ ''.done'') ''.log.done''" "\<not> HasSuffix (currentPath fw) ''.log.done''"
    "\<forall>d \<in> set (done_files (dirents w)). tsFromName d < tsFromName (currentPath fw @ ''.done'')"
    "currentPath fw @ ''.done'' \<notin> set (done_files (dirents w))"
    "map_of (dirents w) (currentPath fw @ ''.done'') = None"
    "\<forall>pk. peekState fw = Some pk \<longrightarrow> pk_path pk \<noteq> currentPath fw @ ''.done''"
proof -
  have ts: "tsFromName (currentPath fw @ ''.done'') = t"
    using assms tsFromName_done [of t] by (simp add: newest_def)
  show suf: "HasSuffix (currentPath fw @ ''.done'') ''.log.done''"
    using assms(1) done_log_done [of "FormatInt t"] by simp
  show "\<not> HasSuffix (currentPath fw) ''.log.done''"
    using assms(1) not_done_log by simp
  show "\<forall>d \<in> set (done_files (dirents w)). tsFromName d < tsFromName (currentPath fw @ ''.done'')"
    using assms(2) ts by (simp add: newest_def)
  then show out: "currentPath fw @ ''.done'' \<notin> set (done_files (dirents w))"
    by blast
  then show "map_of (dirents w) (currentPath fw @ ''.done'') = None"
    using suf by (simp add: set_done_files map_of_eq_None_iff)
  show "\<forall>pk. peekState fw = Some pk \<longrightarrow> pk_path pk \<noteq> currentPath fw @ ''.done''"
    using assms(2) ts by (auto simp: newest_def)
qed

lemma unlink_absent: "map_of ds n = None \<Longrightarrow> unlink n ds = ds"
  by (force simp: unlink_def map_of_eq_None_iff filter_id_conv)

lemma waiting_cong:
  "set ns \<subseteq> set (done_files (dirents w)) \<Longrightarrow>
   (\<And>n. n \<in> set (done_files (dirents w)) \<Longrightarrow> file_content w' n = file_content w n) \<Longrightarrow>
   concat (map (\<lambda>n. records (file_content w' n)) ns) = concat (map (\<lambda>n. records (file_content w n)) ns)"
  by (induction ns) auto

lemma pending_same:
  assumes "peekState fw' = peekState fw" "done_files (dirents w') = done_files (dirents w)"
    and content: "\<And>n. n \<in> set (done_files (dirents w)) \<Longrightarrow> file_content w' n = file_content w n"
    and "\<forall>pk. peekState fw = Some pk \<longrightarrow> inodes w' (pk_file pk) = inodes w (pk_file pk)"
  shows "pending fw' w' = pending fw w"
proof -
  note same = waiting_cong [OF _ content]
  show ?thesis
    using assms same [of "done_files (dirents w)"] same [OF filter_is_subset, of "\<lambda>n. n \<noteq> pk_path (the (peekState fw))"]
    by (cases "peekState fw") (auto simp: pending_def)
qed

text \<open>Renaming the active file puts its records behind those of the rolled files.\<close>

lemma roll_ok:
  assumes inv: "store_inv fw w" and cur: "current fw = Some h"
    and w': "dirents w' = (currentPath fw @ ''.done'', h_ino h) # unlink (currentPath fw) (dirents w)"
      "inodes w' = inodes w" "next_ino w' = next_ino w" "no_faults w'"
  shows "store_inv (drop_current fw) w'" "pending (drop_current fw) w' = backlog fw w"
    "done_files (dirents w') = done_files (dirents w) @ [currentPath fw @ ''.done'']"
    "\<forall>n \<in> set (done_files (dirents w)). file_content w' n = file_content w n"
    "file_content w' (currentPath fw @ ''.done'') = inodes w (h_ino h)"
proof -
  let ?d = "currentPath fw @ ''.done''"
  obtain t where t: "currentPath fw = FormatInt t @ ''.log''" "newest t fw w"
    and act: "map_of (dirents w) (currentPath fw) = Some (h_ino h)" "short_lines (inodes w (h_ino h))"
      "\<forall>pk. peekState fw = Some pk \<longrightarrow> pk_file pk \<noteq> h_ino h"
    using inv cur by (auto simp: store_inv_def active_ok_def)
  note name = rolled_name [OF t]
  have wf: "wf_world w" and dist: "distinct (map snd (dirents w))"
    and short: "\<forall>n \<in> set (done_files (dirents w)). short_lines (file_content w n)"
    using inv by (auto simp: store_inv_def readable_def)
  show dones: "done_files (dirents w') = done_files (dirents w) @ [?d]"
    using name done_files_add [of ?d "unlink (currentPath fw) (dirents w)"]
    by (simp add: w' done_files_unlink_log)
  have content: "file_content w' n = file_content w n" if "n \<in> set (done_files (dirents w))" for n
    using that name w' by (auto simp: file_content_def map_of_unlink set_done_files split: option.split)
  then show "\<forall>n \<in> set (done_files (dirents w)). file_content w' n = file_content w n"
    by simp
  show content_d: "file_content w' ?d = inodes w (h_ino h)"
    using w' by (simp add: file_content_def)
  have mem: "(currentPath fw, h_ino h) \<in> set (dirents w)"
    using act(1) by (rule map_of_SomeD)
  have snd_distinct: "distinct (map snd (dirents w'))"
  proof -
    have "h_ino h \<notin> snd ` set (unlink (currentPath fw) (dirents w))"
      using mem dist by (force simp: set_unlink distinct_map inj_on_def)
    then show ?thesis
      using dist by (simp add: w' unlink_def distinct_map_filter)
  qed
  have wf': "wf_world w'"
    using wf w' mem name(5) by (auto simp: wf_world_def distinct_unlink set_unlink map_of_eq_None_iff)
  have read: "readable (drop_current fw) w'"
    using inv wf' w' dones content content_d short act(2)
    by (auto simp: readable_def drop_current_def store_inv_def split: option.splits)
  show "store_inv (drop_current fw) w'"
    using inv name read snd_distinct w' by (auto simp: store_inv_def active_ok_def drop_current_def map_of_unlink)
  note same = waiting_cong [OF _ content]
  show "pending (drop_current fw) w' = backlog fw w"
    using dones content_d name(6) cur same [of "done_files (dirents w)"]
      same [OF filter_is_subset, of "\<lambda>n. n \<noteq> pk_path (the (peekState fw))"] w'(2)
    by (cases "peekState fw") (auto simp: pending_def backlog_def active_def drop_current_def)
qed

text \<open>Appending a line to the active file.\<close>

lemma append_ok:
  assumes inv: "store_inv fw w" and cur: "current fw = Some h"
    and body: "\<forall>c \<in> set body. 32 \<le> code c" "decode_line body = Some e" "length body < maxLine"
    and w': "dirents w' = dirents w" "inodes w' = (inodes w)(h_ino h := inodes w (h_ino h) @ body @ [CHR 0x0A])"
      "next_ino w' = next_ino w" "no_faults w'"
    and fw': "fw' = fw\<lparr>currentSize := s\<rparr>"
  shows "store_inv fw' w'" "backlog fw' w' = backlog fw w @ [e]"
proof -
  obtain t where t: "currentPath fw = FormatInt t @ ''.log''" "newest t fw w"
    and act: "map_of (dirents w) (currentPath fw) = Some (h_ino h)" "short_lines (inodes w (h_ino h))"
      "complete (inodes w (h_ino h))" "\<not> h_closed h"
      "\<forall>pk. peekState fw = Some pk \<longrightarrow> pk_file pk \<noteq> h_ino h"
    using inv cur by (auto simp: store_inv_def active_ok_def)
  have content: "file_content w' n = file_content w n" if "n \<in> set (done_files (dirents w))" for n
  proof -
    have "n \<noteq> currentPath fw"
      using that rolled_name(2) [OF t] by (auto simp: set_done_files)
    then have "map_of (dirents w) n \<noteq> Some (h_ino h)"
      using inv act(1) map_of_distinct_snd by (metis store_inv_def)
    then show ?thesis
      using w' by (auto simp: file_content_def split: option.split)
  qed
  have read: "readable fw' w'"
    using inv w' fw' content act(5) by (auto simp: readable_def store_inv_def wf_world_def split: option.splits)
  have line: "short_lines (body @ [CHR 0x0A])" "records (body @ [CHR 0x0A]) = [e]"
    using short_line records_line body by auto
  have ino: "inodes w' (h_ino h) = inodes w (h_ino h) @ (body @ [CHR 0x0A])"
    using w' by simp
  have "newest t fw' w'"
    using t(2) w' fw' by (simp add: newest_def)
  then have "active_ok fw' w'"
    using cur t act w'(1) fw' line(1) ino by (auto simp: active_ok_def complete_def short_lines_append)
  then show "store_inv fw' w'"
    using inv read w' fw' by (auto simp: store_inv_def)
  have "pending fw' w' = pending fw w"
    by (rule pending_same) (use act(5) w' fw' content in auto)
  then show "backlog fw' w' = backlog fw w @ [e]"
    using cur fw' ino act(3) line(2) by (simp add: backlog_def active_def records_append)
qed

text \<open>Opening the active file under a new name.\<close>

lemma openNew_ok:
  assumes inv: "store_inv fw w" and cur: "current fw = None"
    and fresh: "newest (clock w (step w)) fw w"
      "map_of (dirents w) (FormatInt (clock w (step w)) @ ''.log'') = None"
  shows "\<exists>fw' w' h. openNew fw w = (None, fw', w') \<and> current fw' = Some h \<and> store_inv fw' w' \<and>
    backlog fw' w' = backlog fw w \<and> done_files (dirents w') = done_files (dirents w) \<and>
    maxFiles fw' = maxFiles fw \<and> maxFileSize fw' = maxFileSize fw \<and> kafka_calls w' = kafka_calls w \<and>
    panicked w' = panicked w"
proof -
  define t where "t = clock w (step w)"
  define name where "name = FormatInt t @ ''.log''"
  define fw' where "fw' = fw\<lparr>current := Some \<lparr>h_ino = next_ino w, h_closed = False\<rparr>, currentPath := name, currentSize := 0\<rparr>"
  define w' where "w' = (tick (tick w))\<lparr>dirents := (name, next_ino w) # dirents w, next_ino := Suc (next_ino w),
      inodes := (inodes w)(next_ino w := [])\<rparr>"
  have nf: "no_faults w" and wf: "wf_world w" and dist: "distinct (map snd (dirents w))"
    and pk: "\<forall>pk. peekState fw = Some pk \<longrightarrow> pk_file pk < next_ino w"
    using inv by (auto simp: store_inv_def readable_def)
  have name: "map_of (dirents w) name = None" "newest t fw w" "\<not> HasSuffix name ''.log.done''"
    using fresh not_done_log by (simp_all add: name_def t_def)
  have opened: "openNew fw w = (None, fw', w')"
    using nf name(1) by (simp add: openNew_def time_Now_def os_OpenFile_def t_def [symmetric]
        name_def [symmetric] fw'_def w'_def Let_def tick_def [of w])
  have dones: "done_files (dirents w') = done_files (dirents w)"
    using name(3) by (simp add: w'_def done_files_cons_log)
  have known: "i < next_ino w" if "map_of (dirents w) n = Some i" for n i
    using that wf by (force simp: wf_world_def dest: map_of_SomeD)
  have content: "file_content w' n = file_content w n" if "n \<in> set (done_files (dirents w))" for n
    using that name(3) known by (auto simp: file_content_def w'_def set_done_files split: option.split)
  have "pending fw' w' = pending fw w"
    by (rule pending_same) (use pk dones content in \<open>auto simp: fw'_def w'_def\<close>)
  then have log: "backlog fw' w' = backlog fw w"
    using cur by (simp add: backlog_def active_def fw'_def w'_def)
  have "wf_world w'"
    using wf name(1) by (auto simp: wf_world_def w'_def map_of_eq_None_iff)
  then have "readable fw' w'"
    using inv dones content pk nf by (auto simp: readable_def store_inv_def fw'_def w'_def no_faults_def split: option.splits)
  moreover have "active_ok fw' w'"
    using name dones pk by (auto simp: active_ok_def fw'_def complete_def short_lines_def newest_def name_def w'_def)
  moreover have "distinct (map snd (dirents w'))"
    using dist wf by (auto simp: w'_def wf_world_def)
  ultimately have "store_inv fw' w'"
    using inv pk name(3) by (auto simp: store_inv_def fw'_def w'_def)
  then show ?thesis
    using opened log dones by (auto simp: fw'_def w'_def tick_def)
qed


section \<open>What Write, rotate and Close keep\<close>

lemma os_Remove_ok:
  assumes "no_faults w"
  shows "dirents (snd (os_Remove n w)) = unlink n (dirents w)" "inodes (snd (os_Remove n w)) = inodes w"
    "next_ino (snd (os_Remove n w)) = next_ino w" "no_faults (snd (os_Remove n w))"
    "kafka_calls (snd (os_Remove n w)) = kafka_calls w" "panicked (snd (os_Remove n w)) = panicked w"
  using assms unlink_absent [of "dirents w" n]
  by (auto simp: os_Remove_def tick_def no_faults_def split: option.splits)

lemma remove_files_ok:
  "no_faults w \<Longrightarrow>
     dirents (remove_files ns w) = filter (\<lambda>p. fst p \<notin> set ns) (dirents w) \<and>
     inodes (remove_files ns w) = inodes w \<and> next_ino (remove_files ns w) = next_ino w \<and>
     no_faults (remove_files ns w) \<and> kafka_calls (remove_files ns w) = kafka_calls w \<and>
     panicked (remove_files ns w) = panicked w"
proof (induction ns arbitrary: w)
  case (Cons n ns)
  have "filter (\<lambda>p. fst p \<notin> set ns) (unlink n (dirents w)) = filter (\<lambda>p. fst p \<notin> set (n # ns)) (dirents w)"
    by (auto simp: unlink_def intro: filter_cong)
  then show ?case
    using Cons.IH [of "snd (os_Remove n w)"] os_Remove_ok [OF Cons.prems, of n] by simp
qed simp

lemma metric_frame [simp]:
  "dirents (metric f w) = dirents w" "inodes (metric f w) = inodes w" "next_ino (metric f w) = next_ino w"
  "kafka_calls (metric f w) = kafka_calls w" "fault (metric f w) = fault w" "panicked (metric f w) = panicked w"
  "file_content (metric f w) = file_content w" "wf_world (metric f w) = wf_world w"
  "step (metric f w) = step w" "clock (metric f w) = clock w" "kafka_err (metric f w) = kafka_err w"
  using file_content_cong [of "metric f w" w] by (simp_all add: metric_def wf_world_def)

text \<open>Rolling the active file: one file more, the oldest beyond the limit removed.\<close>

definition rolled :: "FallbackWriter \<Rightarrow> world \<Rightarrow> string list" where
  "rolled fw w = done_files (dirents w) @ [currentPath fw @ ''.done'']"

lemma rotate_eq:
  assumes inv: "store_inv fw w" and cur: "current fw = Some h"
  shows "\<exists>w1. rotate fw w = (None, drop_current fw, enforce_max (maxFiles fw) (rolled fw w) w1) \<and>
    store_inv (drop_current fw) w1 \<and> pending (drop_current fw) w1 = backlog fw w \<and>
    done_files (dirents w1) = rolled fw w \<and> kafka_calls w1 = kafka_calls w \<and> panicked w1 = panicked w \<and>
    (\<forall>n \<in> set (done_files (dirents w)). file_content w1 n = file_content w n) \<and>
    file_content w1 (currentPath fw @ ''.done'') = inodes w (h_ino h)"
proof -
  obtain t where t: "currentPath fw = FormatInt t @ ''.log''" "newest t fw w"
    and act: "map_of (dirents w) (currentPath fw) = Some (h_ino h)" "\<not> h_closed h"
    using inv cur by (auto simp: store_inv_def active_ok_def)
  note name = rolled_name [OF t]
  have nf: "no_faults w"
    using inv by (simp add: store_inv_def readable_def)
  define w0 where "w0 = (tick (tick w))\<lparr>dirents := (currentPath fw @ ''.done'', h_ino h) #
      unlink (currentPath fw) (dirents w)\<rparr>"
  have "unlink (currentPath fw @ ''.done'') (unlink (currentPath fw) (dirents w)) =
      unlink (currentPath fw) (dirents w)"
    using name(5) by (intro unlink_absent) (simp add: map_of_unlink)
  then have ren: "os_Rename (currentPath fw) (currentPath fw @ ''.done'') (tick w) = (None, w0)"
    using nf act by (simp add: os_Rename_def w0_def)
  have w0: "dirents (tick w0) = (currentPath fw @ ''.done'', h_ino h) # unlink (currentPath fw) (dirents w)"
    "inodes (tick w0) = inodes w" "next_ino (tick w0) = next_ino w" "no_faults (tick w0)"
    "kafka_calls (tick w0) = kafka_calls w" "panicked (tick w0) = panicked w"
    using nf by (simp_all add: w0_def tick_def no_faults_def)
  note roll = roll_ok [OF inv cur w0(1-4)]
  have "rotate fw w = (None, drop_current fw, enforce_max (maxFiles fw) (rolled fw w) (tick w0))"
    using cur act(2) nf ren w0(4) roll(3)
    by (simp add: rotate_def Let_def fh_Close_def file_Close_def listDoneFiles_ok rolled_def)
  then show ?thesis
    using roll w0 by (auto simp: rolled_def)
qed

lemma pending_metric [simp]: "pending fw (metric f w) = pending fw w" "active fw (metric f w) = active fw w"
  "backlog fw (metric f w) = backlog fw w" "readable fw (metric f w) = readable fw w"
  "store_inv fw (metric f w) = store_inv fw w"
  by (auto simp: pending_def active_def backlog_def readable_def store_inv_def active_ok_def newest_def
      split: option.splits)

lemma pending_tick [simp]: "pending fw (tick w) = pending fw w" "active fw (tick w) = active fw w"
  "backlog fw (tick w) = backlog fw w" "readable fw (tick w) = readable fw w"
  "store_inv fw (tick w) = store_inv fw w"
  by (auto simp: pending_def active_def backlog_def readable_def store_inv_def active_ok_def newest_def
      split: option.splits)

lemma backlog_drop_current [simp]: "backlog (drop_current fw) w = pending (drop_current fw) w"
  by (simp add: backlog_def active_def drop_current_def)

lemma rotate_room:
  assumes "store_inv fw w" "current fw = Some h" "int (length (done_files (dirents w))) < maxFiles fw"
  shows "\<exists>w'. rotate fw w = (None, drop_current fw, w') \<and> store_inv (drop_current fw) w' \<and>
    backlog (drop_current fw) w' = backlog fw w \<and> kafka_calls w' = kafka_calls w \<and> panicked w' = panicked w"
proof -
  have "enforce_max (maxFiles fw) (rolled fw w) w1 = metric (FallbackFilesSet (length (rolled fw w))) w1" for w1
    using assms(3) by (simp add: enforce_max_def rolled_def)
  then show ?thesis
    using rotate_eq [OF assms(1,2)] by auto
qed

lemma done_files_filter:
  "done_files (filter (\<lambda>p. fst p \<notin> S) ds) = filter (\<lambda>n. n \<notin> S) (done_files ds)"
proof -
  have "map fst (filter (\<lambda>p. fst p \<notin> S) ds) = filter (\<lambda>n. n \<notin> S) (map fst ds)"
    by (simp add: filter_map o_def)
  then show ?thesis
    by (simp add: done_files_def filter_sort [symmetric] conj_commute)
qed

lemma map_of_filter_key: "map_of (filter (\<lambda>p. P (fst p)) xs) y = (if P y then map_of xs y else None)"
  by (induction xs) auto

lemma filter_notin_take: "distinct xs \<Longrightarrow> filter (\<lambda>x. x \<notin> set (take n xs)) xs = drop n xs"
proof -
  assume d: "distinct xs"
  have "filter (\<lambda>x. x \<notin> set (take n xs)) (take n xs @ drop n xs) = drop n xs"
    using d by (subst filter_append) (auto simp: filter_id_conv dest: set_take_disj_set_drop_if_distinct)
  then show ?thesis
    by simp
qed


text \<open>Removing the oldest rolled files leaves the others with their contents.\<close>

lemma remove_oldest:
  fixes k :: nat
  assumes "wf_world w" "no_faults w"
  defines "w' \<equiv> remove_files (take k (done_files (dirents w))) w"
  shows "done_files (dirents w') = drop k (done_files (dirents w))" "panicked w' = panicked w"
    "n \<in> set (drop k (done_files (dirents w))) \<Longrightarrow> file_content w' n = file_content w n"
proof -
  let ?old = "take k (done_files (dirents w))"
  have rm: "dirents w' = filter (\<lambda>p. fst p \<notin> set ?old) (dirents w)" "panicked w' = panicked w" "inodes w' = inodes w"
    using remove_files_ok [OF assms(2)] by (simp_all add: w'_def)
  have dist: "distinct (done_files (dirents w))"
    using distinct_done_files assms(1) by (simp add: wf_world_def)
  show "done_files (dirents w') = drop k (done_files (dirents w))" "panicked w' = panicked w"
    using rm(1,2) filter_notin_take dist by (simp_all add: done_files_filter)
  assume "n \<in> set (drop k (done_files (dirents w)))"
  then have "n \<notin> set ?old"
    using dist set_take_disj_set_drop_if_distinct by fastforce
  then have "map_of (dirents w') n = map_of (dirents w) n"
    unfolding rm(1) by (subst map_of_filter_key [of "\<lambda>x. x \<notin> set ?old"]) simp
  then show "file_content w' n = file_content w n"
    using rm(3) by (simp add: file_content_def split: option.split)
qed

lemma rotate_keeps_newest:
  assumes "store_inv fw w" "current fw = Some h" "0 \<le> maxFiles fw"
  shows "\<exists>w'. rotate fw w = (None, drop_current fw, w') \<and>
    done_files (dirents w') = drop (length (rolled fw w) - nat (maxFiles fw)) (rolled fw w) \<and>
    (\<forall>n \<in> set (done_files (dirents w')). file_content w' n =
       (if n = currentPath fw @ ''.done'' then inodes w (h_ino h) else file_content w n)) \<and>
    panicked w' = panicked w"
proof -
  obtain w1 where rot: "rotate fw w = (None, drop_current fw, enforce_max (maxFiles fw) (rolled fw w) w1)"
    and w1: "store_inv (drop_current fw) w1" "done_files (dirents w1) = rolled fw w" "panicked w1 = panicked w"
    and content: "\<forall>n \<in> set (done_files (dirents w)). file_content w1 n = file_content w n"
      "file_content w1 (currentPath fw @ ''.done'') = inodes w (h_ino h)"
    using rotate_eq [OF assms(1,2)] by blast
  have "wf_world w1" "no_faults w1"
    using w1(1) by (simp_all add: store_inv_def readable_def)
  define over where "over = length (rolled fw w) - nat (maxFiles fw)"
  note rm = remove_oldest [OF \<open>wf_world w1\<close> \<open>no_faults w1\<close>, where k = over, unfolded w1(2)]
  have content1: "file_content w1 n = (if n = currentPath fw @ ''.done'' then inodes w (h_ino h) else file_content w n)"
    if "n \<in> set (rolled fw w)" for n
    using that content by (auto simp: rolled_def)
  show ?thesis
  proof (cases "maxFiles fw < int (length (rolled fw w))")
    case True
    then have "nat (int (length (rolled fw w)) - maxFiles fw) = over" "over \<le> length (rolled fw w)"
      using assms(3) by (simp_all add: over_def nat_diff_distrib)
    then have "enforce_max (maxFiles fw) (rolled fw w) w1 =
        metric (FallbackFilesSet (length (drop over (rolled fw w)))) (remove_files (take over (rolled fw w)) w1)"
      using True by (simp add: enforce_max_def Let_def)
    then show ?thesis
      using rot rm w1(3) content1 by (auto simp: over_def [symmetric] dest: in_set_dropD)
  next
    case False
    then have "over = 0" "enforce_max (maxFiles fw) (rolled fw w) w1 = metric (FallbackFilesSet (length (rolled fw w))) w1"
      using assms(3) by (simp_all add: over_def enforce_max_def)
    then show ?thesis
      using rot w1 content1 by (auto simp: over_def)
  qed
qed

text \<open>The envelope as a writer stores it: with its \<open>timestamp_at\<close> unless the payload is bare.\<close>

definition stamped :: "Envelope \<Rightarrow> Envelope" where
  "stamped env = (if WriteRaw env then env else EnsureTimestampAt env)"

definition line_fits :: "Envelope \<Rightarrow> bool" where
  "line_fits env \<longleftrightarrow> (case encode_line (stamped env) of None \<Rightarrow> True | Some body \<Rightarrow> length body < maxLine)"

text \<open>A new active file gets a name of its own that sorts behind the rolled files.\<close>

definition fresh :: "FallbackWriter \<Rightarrow> world \<Rightarrow> bool" where
  "fresh fw w \<longleftrightarrow>
     (current fw = None \<longrightarrow>
        newest (clock w (step w)) fw w \<and> map_of (dirents w) (FormatInt (clock w (step w)) @ ''.log'') = None)"

definition room :: "FallbackWriter \<Rightarrow> world \<Rightarrow> bool" where
  "room fw w \<longleftrightarrow> int (length (done_files (dirents w))) < maxFiles fw"

lemma append_line_ok:
  assumes inv: "store_inv fw w" and cur: "current fw = Some h" and "room fw w"
    and body: "\<forall>c \<in> set body. 32 \<le> code c" "decode_line body = Some e" "length body < maxLine"
  shows "\<exists>fw' w'. append_line h body fw w = (None, fw', w') \<and> store_inv fw' w' \<and>
    backlog fw' w' = backlog fw w @ [e] \<and> kafka_calls w' = kafka_calls w \<and> panicked w' = panicked w"
proof -
  have nf: "no_faults w" and open_h: "\<not> h_closed h"
    using inv cur by (auto simp: store_inv_def readable_def active_ok_def)
  define fw1 where "fw1 = fw\<lparr>currentSize := currentSize fw + int (length body + 1)\<rparr>"
  define w1 where "w1 = metric FallbackWriteInc ((tick w)\<lparr>inodes := (inodes w)(h_ino h := inodes w (h_ino h) @ body @ [CHR 0x0A])\<rparr>)"
  have w1: "dirents w1 = dirents w" "inodes w1 = (inodes w)(h_ino h := inodes w (h_ino h) @ body @ [CHR 0x0A])"
    "next_ino w1 = next_ino w" "no_faults w1" "kafka_calls w1 = kafka_calls w" "panicked w1 = panicked w"
    using nf by (simp_all add: w1_def tick_def no_faults_def)
  note ok = append_ok [OF inv cur body w1(1-4) fw1_def]
  have "append_line h body fw w = (if maxFileSize fw1 \<le> currentSize fw1 then rotate fw1 w1 else (None, fw1, w1))"
    using nf open_h by (simp add: append_line_def fh_Write_def file_Write_def Let_def fw1_def w1_def)
  moreover have "int (length (done_files (dirents w1))) < maxFiles fw1" "current fw1 = Some h"
    using assms(3) cur by (simp_all add: room_def w1 fw1_def)
  ultimately show ?thesis
    using rotate_room [OF ok(1)] ok w1 by auto
qed

lemma fb_Write_ok:
  assumes inv: "store_inv fw w" and "wf_envelope (stamped env)" "line_fits env" "fresh fw w" "room fw w"
  shows "\<exists>fw' w'. fb_Write env fw w = (None, stamped env, fw', w') \<and> store_inv fw' w' \<and>
    backlog fw' w' = backlog fw w @ [stored (stamped env)] \<and> kafka_calls w' = kafka_calls w \<and>
    panicked w' = panicked w"
proof -
  obtain body where body: "encode_line (stamped env) = Some body" "decode_line body = Some (stored (stamped env))"
    "\<forall>c \<in> set body. 32 \<le> code c"
    using encode_decode_line [OF assms(2)] by blast
  have len: "length body < maxLine"
    using assms(3) body(1) by (simp add: line_fits_def)
  have "\<exists>fw1 w1 h. (if current fw = None then openNew fw w else (None, fw, w)) = (None, fw1, w1) \<and>
      current fw1 = Some h \<and> store_inv fw1 w1 \<and> backlog fw1 w1 = backlog fw w \<and> room fw1 w1 \<and>
      kafka_calls w1 = kafka_calls w \<and> panicked w1 = panicked w"
    using openNew_ok [OF inv] assms(4,5) inv by (cases "current fw") (fastforce simp: fresh_def room_def)+
  then obtain fw1 w1 h where opened: "(if current fw = None then openNew fw w else (None, fw, w)) = (None, fw1, w1)"
    and st: "current fw1 = Some h" "store_inv fw1 w1" "backlog fw1 w1 = backlog fw w" "room fw1 w1"
      "kafka_calls w1 = kafka_calls w" "panicked w1 = panicked w"
    by blast
  then show ?thesis
    using append_line_ok [OF st(2,1,4) body(3,2) len] body(1)
    by (auto simp: fb_Write_def opened stamped_def Let_def)
qed

text \<open>Closing rolls the active file, so that the next start finds its records.\<close>

lemma pending_reopen_None: "peekState fw = None \<Longrightarrow> fw\<lparr>peekState := None\<rparr> = fw"
  by simp

lemma fb_Close_ok:
  assumes inv: "store_inv fw w" and "peekState fw = None"
  shows "\<exists>fw' w'. fb_Close fw w = (None, fw', w') \<and> current fw' = None \<and> peekState fw' = None \<and>
    store_inv fw' w' \<and> pending fw' w' = backlog fw w"
proof (cases "current fw")
  case None
  then show ?thesis
    using assms by (simp add: fb_Close_def pending_reopen_None backlog_def active_def)
next
  case (Some h)
  obtain t where t: "currentPath fw = FormatInt t @ ''.log''" "newest t fw w"
    and act: "map_of (dirents w) (currentPath fw) = Some (h_ino h)" "\<not> h_closed h"
    using inv Some by (auto simp: store_inv_def active_ok_def)
  note name = rolled_name [OF t]
  have nf: "no_faults w"
    using inv by (simp add: store_inv_def readable_def)
  define w' where "w' = (tick (tick (tick w)))\<lparr>dirents := (currentPath fw @ ''.done'', h_ino h) #
      unlink (currentPath fw) (dirents w)\<rparr>"
  have "unlink (currentPath fw @ ''.done'') (unlink (currentPath fw) (dirents w)) =
      unlink (currentPath fw) (dirents w)"
    using name(5) by (intro unlink_absent) (simp add: map_of_unlink)
  then have "fb_Close fw w = (None, drop_current fw, w')"
    using assms(2) Some nf act by (simp add: fb_Close_def pending_reopen_None close_current_def fh_Sync_def
        file_Sync_def fh_Close_def file_Close_def os_Rename_def w'_def)
  moreover have "no_faults w'" "inodes w' = inodes w" "next_ino w' = next_ino w"
    using nf by (simp_all add: w'_def no_faults_def)
  ultimately show ?thesis
    using roll_ok [OF inv Some, of w'] assms(2) by (auto simp: w'_def drop_current_def)
qed


section \<open>Reading keeps what Write needs\<close>


definition peek_at :: "FallbackWriter \<Rightarrow> world \<Rightarrow> bool" where
  "peek_at fw w \<longleftrightarrow>
     (\<forall>pk. peekState fw = Some pk \<longrightarrow> pk_file pk < next_ino w \<and> HasSuffix (pk_path pk) ''.log.done'' \<and>
        (\<forall>i. map_of (dirents w) (pk_path pk) = Some i \<longrightarrow> i = pk_file pk))"

lemma tick_outside [simp]: "panicked (tick w) = panicked w" "kafka_err (tick w) = kafka_err w" "clock (tick w) = clock w"
  by (simp_all add: tick_def)

lemma active_ok_frame [simp]:
  "active_ok fw (tick w) = active_ok fw w" "active_ok fw (metric f w) = active_ok fw w"
  "peek_at fw (tick w) = peek_at fw w" "peek_at fw (metric f w) = peek_at fw w"
  by (simp_all add: active_ok_def newest_def peek_at_def split: option.split)

lemma store_inv_peek:
  "store_inv fw w \<longleftrightarrow> readable fw w \<and> distinct (map snd (dirents w)) \<and> active_ok fw w \<and> peek_at fw w"
  by (auto simp: store_inv_def peek_at_def)

text \<open>What \<open>Peek\<close> leaves alone: it only opens, reads and removes rolled files.\<close>

definition peek_frame :: "FallbackWriter \<Rightarrow> world \<Rightarrow> FallbackWriter \<Rightarrow> world \<Rightarrow> bool" where
  "peek_frame fw w fw' w' \<longleftrightarrow>
     current fw' = current fw \<and> currentPath fw' = currentPath fw \<and> currentSize fw' = currentSize fw \<and>
     maxFiles fw' = maxFiles fw \<and> maxFileSize fw' = maxFileSize fw \<and> inodes w' = inodes w \<and> kafka_calls w' = kafka_calls w \<and>
     kafka_err w' = kafka_err w \<and> clock w' = clock w \<and> panicked w' = panicked w \<and>
     length (done_files (dirents w')) \<le> length (done_files (dirents w)) \<and>
     distinct (map snd (dirents w')) \<and> active_ok fw' w' \<and> peek_at fw' w'"

lemma peek_frame_trans: "peek_frame a b c d \<Longrightarrow> peek_frame c d e f \<Longrightarrow> peek_frame a b e f"
  by (auto simp: peek_frame_def)

lemma frame_open:
  assumes "store_inv fw w" "peekState fw = None" "d \<in> set (done_files (dirents w))"
    "map_of (dirents w) d = Some i"
  shows "peek_frame fw w (fw\<lparr>peekState := Some \<lparr>pk_path = d, pk_file = i, pk_pos = 0\<rparr>\<rparr>) (tick (tick w))"
proof -
  have "i \<noteq> h_ino h" if h: "current fw = Some h" for h
  proof
    assume "i = h_ino h"
    then have "currentPath fw = d"
      using assms h map_of_distinct_snd by (fastforce simp: store_inv_def active_ok_def)
    then show False
      using assms h not_done_log by (auto simp: store_inv_def active_ok_def set_done_files)
  qed
  moreover have "i < next_ino w"
    using assms by (force simp: store_inv_def readable_def wf_world_def dest: map_of_SomeD)
  ultimately show ?thesis
    using assms by (auto simp: peek_frame_def store_inv_def active_ok_def peek_at_def newest_def set_done_files
        tick_def split: option.splits)
qed

lemma frame_advance:
  assumes "store_inv fw w" "peekState fw = Some pk" "pk1 = pk\<lparr>pk_pos := n\<rparr>"
  shows "peek_frame fw w (fw\<lparr>peekState := Some pk1\<rparr>) (tick w)"
  using assms by (auto simp: peek_frame_def store_inv_def active_ok_def peek_at_def newest_def tick_def split: option.splits)

lemma frame_eof:
  assumes "store_inv fw w" "peekState fw = Some pk" "w' = snd (os_Remove (pk_path pk) (snd (file_Close (tick w))))"
  shows "peek_frame fw w (fw\<lparr>peekState := None\<rparr>) (set_files_gauge w')"
proof -
  let ?w = "snd (file_Close (tick w))"
  have nf: "no_faults w" and suf: "HasSuffix (pk_path pk) ''.log.done''"
    using assms by (auto simp: store_inv_def readable_def)
  have "no_faults ?w" "dirents ?w = dirents w" "inodes ?w = inodes w" "kafka_calls ?w = kafka_calls w"
    "kafka_err ?w = kafka_err w" "clock ?w = clock w" "panicked ?w = panicked w"
    using nf by (simp_all add: file_Close_def tick_def no_faults_def)
  then have w': "dirents w' = unlink (pk_path pk) (dirents w)" "inodes w' = inodes w" "no_faults w'"
    "kafka_calls w' = kafka_calls w" "panicked w' = panicked w" "kafka_err w' = kafka_err w"
    "clock w' = clock w"
    using os_Remove_ok [of ?w "pk_path pk"] by (auto simp: assms(3) os_Remove_def tick_def split: option.splits)
  have sub: "length (done_files (dirents w')) \<le> length (done_files (dirents w))"
    "set (done_files (dirents w')) \<subseteq> set (done_files (dirents w))"
    by (auto simp: w' done_files_unlink)
  have path: "currentPath fw \<noteq> pk_path pk" if "current fw = Some h" for h
    using that suf not_done_log assms(1) by (auto simp: store_inv_def active_ok_def)
  then have "active_ok (fw\<lparr>peekState := None\<rparr>) w'"
    using assms(1,2) sub(2) w'(1,2)
    by (auto simp: store_inv_def active_ok_def newest_def map_of_unlink split: option.splits)
  moreover have "distinct (map snd (dirents w'))"
    using assms(1) by (simp add: w' unlink_def store_inv_def distinct_map_filter)
  ultimately have "peek_frame fw w (fw\<lparr>peekState := None\<rparr>) w'"
    using w' sub(1) by (simp add: peek_frame_def peek_at_def)
  then show ?thesis
    using set_files_gauge_ok [OF w'(3)] by (simp add: peek_frame_def)
qed

lemma scan_turn_frame:
  assumes "store_inv fw w" "peekState fw = Some pk"
  shows "case scan_turn pk fw w of Inl (r, fw', w') \<Rightarrow> peek_frame fw w fw' w' | Inr (fw', w') \<Rightarrow> peek_frame fw w fw' w'"
proof (cases "drop (pk_pos pk) (inodes w (pk_file pk)) = []")
  case True
  then have "scan_line pk w = (ScanEOF, pk, tick w)"
    using assms by (simp add: scan_line_def Let_def store_inv_def readable_def)
  then show ?thesis
    using frame_eof [OF assms refl] by (simp add: scan_turn_def)
next
  case False
  define line where "line = takeWhile (\<lambda>c. c \<noteq> CHR 0x0A) (drop (pk_pos pk) (inodes w (pk_file pk)))"
  define pk1 where "pk1 = pk\<lparr>pk_pos := pk_pos pk + length line + 1\<rparr>"
  have "length line < maxLine" "no_faults w"
    using assms short_lines_unfold [OF False line_def] by (auto simp: store_inv_def readable_def)
  then have "scan_line pk w = (Token (dropCR line), pk1, tick w)"
    using False by (simp add: scan_line_def line_def [symmetric] pk1_def Let_def)
  then show ?thesis
    using frame_advance [OF assms pk1_def]
    by (cases "decode_line (dropCR line)") (simp_all add: scan_turn_def Let_def)
qed

lemma peek_frame_tick: "store_inv fw w \<Longrightarrow> peek_frame fw w fw (tick w)"
  by (simp add: peek_frame_def store_inv_peek)

lemma peek_turn_frame:
  assumes "store_inv fw w"
  shows "case peek_turn fw w of Inl (r, fw', w') \<Rightarrow> peek_frame fw w fw' w' | Inr (fw', w') \<Rightarrow> peek_frame fw w fw' w'"
proof (cases "peekState fw")
  case (Some pk)
  then show ?thesis
    using scan_turn_frame [OF assms Some] by (simp add: peek_turn_def)
next
  case None
  have nf: "no_faults w"
    using assms by (simp add: store_inv_def readable_def)
  show ?thesis
  proof (cases "done_files (dirents w)")
    case Nil
    then show ?thesis
      using None nf peek_frame_tick [OF assms] by (simp add: peek_turn_def openOldestDone_def listDoneFiles_ok)
  next
    case (Cons d ds)
    then obtain i where i: "map_of (dirents w) d = Some i"
      using done_files_known [of d "dirents w"] by auto
    define fw1 where "fw1 = fw\<lparr>peekState := Some \<lparr>pk_path = d, pk_file = i, pk_pos = 0\<rparr>\<rparr>"
    have fr: "peek_frame fw w fw1 (tick (tick w))"
      using frame_open [OF assms None _ i] Cons by (simp add: fw1_def)
    moreover have "readable fw1 (tick (tick w))"
      using assms Cons i by (auto simp: store_inv_def readable_def fw1_def file_content_def)
    ultimately have "store_inv fw1 (tick (tick w))"
      by (simp add: store_inv_peek peek_frame_def)
    moreover have "peek_turn fw w = scan_turn (the (peekState fw1)) fw1 (tick (tick w))"
      using None Cons nf i by (simp add: peek_turn_def openOldestDone_def listDoneFiles_ok os_Open_def fw1_def)
    ultimately show ?thesis
      using scan_turn_frame [of fw1 "tick (tick w)" "the (peekState fw1)"] peek_frame_trans [OF fr]
      by (auto simp: fw1_def split: sum.splits)
  qed
qed

lemma Peek_frame:
  assumes "Peek fw w = Some (r, fw', w')" "store_inv fw w"
  shows "peek_frame fw w fw' w'"
proof -
  define Q where "Q = (\<lambda>fw w (res :: peek_result). store_inv fw w \<longrightarrow> peek_frame fw w (fst (snd res)) (snd (snd res)))"
  have "Q fw w (r, fw', w')"
    using assms(1)
  proof (rule Peek.raw_induct [where P = Q, rotated])
    fix P fw w res
    assume IH: "\<And>fw w res. P fw w = Some res \<Longrightarrow> Q fw w res"
      and eq: "(case peek_turn fw w of Inl r \<Rightarrow> Some r | Inr (fw1, w1) \<Rightarrow> P fw1 w1) = Some res"
    have "peek_frame fw w (fst (snd res)) (snd (snd res))" if inv: "store_inv fw w"
    proof (cases "peek_turn fw w")
      case (Inl r)
      then show ?thesis
        using eq peek_turn_frame [OF inv] by (auto split: prod.splits)
    next
      case (Inr p)
      obtain fw1 w1 where p: "p = (fw1, w1)"
        by (cases p)
      have fr: "peek_frame fw w fw1 w1"
        using peek_turn_frame [OF inv] Inr p by simp
      moreover have "readable fw1 w1"
        using peek_turn_ok [of fw w] inv Inr p by (simp add: store_inv_def turn_ok_def)
      ultimately have "store_inv fw1 w1"
        by (simp add: store_inv_peek peek_frame_def)
      then show ?thesis
        using IH [of fw1 w1 res] eq Inr p peek_frame_trans [OF fr] by (auto simp: Q_def)
    qed
    then show "Q fw w res"
      by (simp add: Q_def)
  qed
  then show ?thesis
    using assms(2) by (simp add: Q_def)
qed

text \<open>\<open>Peek\<close> takes the first record of the backlog's rolled part and keeps the invariant.\<close>

lemma Peek_store:
  assumes "store_inv fw w"
  shows "\<exists>r fw' w'. Peek fw w = Some (r, fw', w') \<and> store_inv fw' w' \<and> peek_frame fw w fw' w' \<and>
    map_option Env r = (case pending fw w of [] \<Rightarrow> None | e # _ \<Rightarrow> Some e) \<and>
    pending fw' w' = tl (pending fw w) \<and> active fw' w' = active fw w"
proof -
  obtain r fw' w' where P: "Peek fw w = Some (r, fw', w')" "readable fw' w'"
    "map_option Env r = (case pending fw w of [] \<Rightarrow> None | e # _ \<Rightarrow> Some e)" "pending fw' w' = tl (pending fw w)"
    using Peek_ok [of fw w] assms by (auto simp: store_inv_def)
  moreover have "peek_frame fw w fw' w'"
    using Peek_frame [OF P(1) assms] .
  ultimately show ?thesis
    by (auto simp: store_inv_peek peek_frame_def active_def split: option.split)
qed


section \<open>Restart after a crash\<close>

definition stale :: "string \<Rightarrow> bool" where
  "stale n \<longleftrightarrow> HasSuffix n ''.log'' \<and> \<not> HasSuffix n ''.log.done''"

lemma adopt_loop_filter: "adopt_loop ns w = adopt_loop (filter stale ns) w"
  by (induction ns arbitrary: w) (auto simp: stale_def split: option.splits prod.splits)

lemma store_inv_reset: "store_inv fw w \<Longrightarrow> store_inv (fw\<lparr>peekState := None\<rparr>) w"
  by (auto simp: store_inv_def readable_def active_ok_def newest_def split: option.splits)

lemma pending_unread:
  "peekState fw = None \<Longrightarrow> peekState fw' = None \<Longrightarrow> pending fw w = pending fw' w"
  by (simp add: pending_def)

lemma store_inv_closed:
  "current fw = None \<Longrightarrow> peekState fw = None \<Longrightarrow> current fw' = None \<Longrightarrow> peekState fw' = None \<Longrightarrow>
   store_inv fw w \<Longrightarrow> store_inv fw' w"
  by (simp add: store_inv_def readable_def active_ok_def)

lemma NewFallbackWriter_adopts:
  assumes inv: "store_inv fw w" and cur: "current fw = Some h"
    and only: "filter stale (sort (map fst (dirents w))) = [currentPath fw]"
  shows "\<exists>fw' w'. NewFallbackWriter mfs mf w = (Inr fw', w') \<and> current fw' = None \<and> store_inv fw' w' \<and>
    pending fw' w' = backlog (fw\<lparr>peekState := None\<rparr>) w"
proof -
  let ?fw = "fw\<lparr>peekState := None\<rparr>"
  let ?new = "\<lparr>maxFileSize = mfs, maxFiles = mf, current = None, currentPath = [], currentSize = 0, peekState = None\<rparr>"
  have inv0: "store_inv ?fw w" and cur0: "current ?fw = Some h"
    using store_inv_reset [OF inv] cur by simp_all
  obtain t where t: "currentPath fw = FormatInt t @ ''.log''" "newest t fw w"
    and act: "map_of (dirents w) (currentPath fw) = Some (h_ino h)" "\<not> h_closed h"
    using inv cur by (auto simp: store_inv_def active_ok_def)
  note name = rolled_name [OF t]
  have nf: "no_faults w"
    using inv by (simp add: store_inv_def readable_def)
  define w1 where "w1 = (tick (tick (tick w)))\<lparr>dirents := (currentPath fw @ ''.done'', h_ino h) #
      unlink (currentPath fw) (dirents w)\<rparr>"
  have w1: "dirents w1 = (currentPath ?fw @ ''.done'', h_ino h) # unlink (currentPath ?fw) (dirents w)"
    "inodes w1 = inodes w" "next_ino w1 = next_ino w" "no_faults w1"
    using nf by (simp_all add: w1_def no_faults_def)
  have "unlink (currentPath fw @ ''.done'') (unlink (currentPath fw) (dirents w)) =
      unlink (currentPath fw) (dirents w)"
    using name(5) by (intro unlink_absent) (simp add: map_of_unlink)
  moreover have "HasSuffix (currentPath fw) ''.log''"
    using t by simp
  ultimately have "adoptStaleLogs (tick w) = (None, w1)"
    using nf act only name(2) adopt_loop_filter [of "sort (map fst (dirents w))"]
    by (simp add: adoptStaleLogs_def os_ReadDir_def os_Rename_def w1_def)
  then have new: "NewFallbackWriter mfs mf w = (Inr ?new, set_files_gauge w1)"
    using nf by (simp add: NewFallbackWriter_def os_MkdirAll_def)
  note roll = roll_ok [OF inv0 cur0 w1]
  have "store_inv ?new w1"
    by (rule store_inv_closed [OF _ _ _ _ roll(1)]) (simp_all add: drop_current_def)
  moreover have "pending ?new w1 = backlog ?fw w"
    using roll(2) pending_unread [of ?new "drop_current ?fw" w1] by (simp add: drop_current_def)
  ultimately show ?thesis
    using new set_files_gauge_ok [OF w1(4)] by simp
qed

section \<open>The fallback files implement the store\<close>

type_synonym store = "FallbackWriter \<times> world"

definition fb_good :: "store \<Rightarrow> bool" where
  "fb_good s = store_inv (fst s) (snd s)"

definition fb_pop :: "store \<Rightarrow> (Envelope option \<times> store) option" where
  "fb_pop s = (case Peek (fst s) (snd s) of None \<Rightarrow> None | Some (r, s1) \<Rightarrow> Some (map_option Env r, s1))"

definition fb_append :: "Envelope \<Rightarrow> store \<Rightarrow> store" where
  "fb_append env s = snd (snd (fb_Write env (fst s) (snd s)))"

definition fb_ready :: "Envelope \<Rightarrow> store \<Rightarrow> bool" where
  "fb_ready env s \<longleftrightarrow>
     wf_envelope (stamped env) \<and> line_fits env \<and> fresh (fst s) (snd s) \<and> room (fst s) (snd s)"

interpretation fb: log_store fb_good "\<lambda>s. pending (fst s) (snd s)" "\<lambda>s. active (fst s) (snd s)" fb_pop
  fb_append fb_ready "\<lambda>env. stored (stamped env)"
proof unfold_locales
  fix s assume "fb_good s"
  then show "\<exists>s'. fb_pop s = Some (case pending (fst s) (snd s) of [] \<Rightarrow> None | x # _ \<Rightarrow> Some x, s') \<and>
      fb_good s' \<and> pending (fst s') (snd s') = tl (pending (fst s) (snd s)) \<and>
      active (fst s') (snd s') = active (fst s) (snd s)"
    using Peek_store [of "fst s" "snd s"] by (auto simp: fb_good_def fb_pop_def)
next
  fix s e assume "fb_good s" "fb_ready e s"
  then show "fb_good (fb_append e s) \<and>
      pending (fst (fb_append e s)) (snd (fb_append e s)) @ active (fst (fb_append e s)) (snd (fb_append e s)) =
      pending (fst s) (snd s) @ active (fst s) (snd s) @ [stored (stamped e)]"
    using fb_Write_ok [of "fst s" "snd s" e] by (auto simp: fb_good_def fb_ready_def fb_append_def backlog_def)
qed

end
