(* ===== verification/Go_Values.thy ===== *)
theory Go_Values
  imports Go_Json_Props
begin

text \<open>
  Go values of any type, as reflection shows them, and what \<open>json.Marshal\<close> makes of them; the writers
  of structs and maps the typed payloads of the SDK use.
\<close>

section \<open>Values\<close>

text \<open>
  \<open>Elem\<close> is a pointer or an interface, nil or with what it points to. A slice and an array say
  whether their element type is \<open>uint8\<close>; a nil slice or map is \<open>None\<close>. A map lists its entries in the
  order of an iteration. A field of a struct has its Go name, whether it is exported, the key under
  which \<open>encoding/json\<close> writes it (\<open>None\<close> if it does not), and its value. A floating point number is
  given by the two texts the standard library has for it: the one of \<open>FormatFloat\<close> with format \<open>g\<close>,
  and the one \<open>encoding/json\<close> writes (\<open>None\<close> for the infinities and NaN). \<open>OtherV\<close> are channels,
  functions and complex numbers.
\<close>

datatype 'v rfield = Field (f_name: string) (f_exported: bool) (f_key: "string option") (f_value: 'v)

datatype rvalue =
    Invalid
  | Elem "rvalue option"
  | StringV string
  | BoolV bool
  | IntV int
  | UintV nat
  | FloatV string "string option"
  | SliceV bool "rvalue list option"
  | ArrayV bool "rvalue list"
  | MapV "(rvalue \<times> rvalue) list option"
  | StructV "rvalue rfield list"
  | OtherV

lemma size_f_value [termination_simp]:
  assumes "f \<in> set fs"
  shows "size (f_value f) < Suc (size_list (size_rfield size) fs)"
proof -
  have "size (f_value f) \<le> size_rfield size f"
    by (cases f) simp
  also have "\<dots> \<le> size_list (size_rfield size) fs"
    using assms by (simp add: size_list_estimation')
  finally show ?thesis
    by simp
qed

section \<open>base64.StdEncoding\<close>

definition b64_char :: "nat \<Rightarrow> char" where
  "b64_char n =
     (if n < 26 then byte (65 + n) else if n < 52 then byte (71 + n) else if n < 62 then byte (n - 4)
      else if n = 62 then CHR ''+'' else CHR ''/'')"

fun base64 :: "nat list \<Rightarrow> string" where
  "base64 [] = []"
| "base64 [a] = [b64_char (a div 4), b64_char (a mod 4 * 16), CHR ''='', CHR ''='']"
| "base64 [a, b] = [b64_char (a div 4), b64_char (a mod 4 * 16 + b div 16), b64_char (b mod 16 * 4), CHR ''='']"
| "base64 (a # b # c # bs) =
     [b64_char (a div 4), b64_char (a mod 4 * 16 + b div 16), b64_char (b mod 16 * 4 + c div 64),
      b64_char (c mod 64)] @ base64 bs"

definition EncodedLen :: "nat \<Rightarrow> nat" where
  "EncodedLen n = (n + 2) div 3 * 4"

lemma length_base64 [simp]: "length (base64 bs) = EncodedLen (length bs)"
proof (induction bs rule: base64.induct)
  case (4 a b c bs)
  moreover have "(length bs + 5) div 3 = Suc ((length bs + 2) div 3)"
    by presburger
  ultimately show ?case
    by (simp add: EncodedLen_def add.commute)
qed (simp_all add: EncodedLen_def)

section \<open>json.Marshal\<close>

text \<open>All of the outcomes, or none.\<close>

fun sequence :: "'a option list \<Rightarrow> 'a list option" where
  "sequence [] = Some []"
| "sequence (x # xs) = (case (x, sequence xs) of (Some y, Some ys) \<Rightarrow> Some (y # ys) | _ \<Rightarrow> None)"

fun json_elems :: "string list \<Rightarrow> string" where
  "json_elems [] = []"
| "json_elems [v] = v"
| "json_elems (v # vs) = v @ CHR '','' # json_elems vs"

definition json_array :: "string list \<Rightarrow> string" where
  "json_array vs = CHR ''['' # json_elems vs @ [CHR '']'']"

text \<open>The members of an object whose values have been marshalled, or the error.\<close>

definition sequence_snd :: "(string \<times> string option) list \<Rightarrow> (string \<times> string) list option" where
  "sequence_snd ms = sequence (map (\<lambda>(k, v). map_option (Pair k) v) ms)"

definition json_struct :: "(string \<times> string option) list \<Rightarrow> string option" where
  "json_struct ms = map_option json_object (sequence_snd ms)"

text \<open>A map is written with its keys sorted.\<close>

definition json_map :: "(string \<times> string option) list \<Rightarrow> string option" where
  "json_map ms = map_option (json_object \<circ> sort_key fst) (sequence_snd ms)"

text \<open>The text of a map key, \<open>None\<close> for a key type that is not supported.\<close>

fun key_text :: "rvalue \<Rightarrow> string option" where
  "key_text (StringV s) = Some s"
| "key_text (IntV n) = Some (FormatInt n)"
| "key_text (UintV n) = Some (fmt_nat n)"
| "key_text _ = None"

fun byte_of :: "rvalue \<Rightarrow> nat" where
  "byte_of (UintV n) = n"
| "byte_of _ = 0"

fun marshal_value :: "rvalue \<Rightarrow> string option" where
  "marshal_value Invalid = Some ''null''"
| "marshal_value (Elem None) = Some ''null''"
| "marshal_value (Elem (Some v)) = marshal_value v"
| "marshal_value (StringV s) = Some (quote s)"
| "marshal_value (BoolV b) = Some (if b then ''true'' else ''false'')"
| "marshal_value (IntV n) = Some (FormatInt n)"
| "marshal_value (UintV n) = Some (fmt_nat n)"
| "marshal_value (FloatV g j) = j"
| "marshal_value (SliceV _ None) = Some ''null''"
| "marshal_value (SliceV True (Some vs)) = Some (CHR 0x22 # base64 (map byte_of vs) @ [CHR 0x22])"
| "marshal_value (SliceV False (Some vs)) = map_option json_array (sequence (map marshal_value vs))"
| "marshal_value (ArrayV _ vs) = map_option json_array (sequence (map marshal_value vs))"
| "marshal_value (MapV None) = Some ''null''"
| "marshal_value (MapV (Some es)) =
     (case sequence (map (\<lambda>p. key_text (fst p)) es) of
        None \<Rightarrow> None
      | Some ks \<Rightarrow> json_map (zip ks (map (\<lambda>p. marshal_value (snd p)) es)))"
| "marshal_value (StructV fs) =
     json_struct (map (\<lambda>f. (the (f_key f), marshal_value (f_value f))) (filter (\<lambda>f. f_key f \<noteq> None) fs))"
| "marshal_value OtherV = None"


text \<open>
  A value of type \<open>any\<close> that is not nil: what reflection shows of it and what marshalling it returns.
  The two are kept apart because a type may have a \<open>MarshalJSON\<close> method of its own.
\<close>

record any_value =
  av_refl :: rvalue
  av_json :: "string option"

definition any_json :: "any_value option \<Rightarrow> string option" where
  "any_json a = (case a of None \<Rightarrow> Some ''null'' | Some v \<Rightarrow> av_json v)"

section \<open>Members of a struct\<close>

text \<open>The members a field gives, with the \<open>omitempty\<close> option and without. Nil and empty maps are the same here.\<close>

type_synonym member = "string \<times> string option"

definition str_member :: "string \<Rightarrow> string \<Rightarrow> member list" where
  "str_member k s = [(k, Some (quote s))]"

definition int_member :: "string \<Rightarrow> int \<Rightarrow> member list" where
  "int_member k n = [(k, Some (FormatInt n))]"

definition str_omit :: "string \<Rightarrow> string \<Rightarrow> member list" where
  "str_omit k s = (if s = [] then [] else str_member k s)"

definition int_omit :: "string \<Rightarrow> int \<Rightarrow> member list" where
  "int_omit k n = (if n = 0 then [] else int_member k n)"

definition any_omit :: "string \<Rightarrow> any_value option \<Rightarrow> member list" where
  "any_omit k a = (case a of None \<Rightarrow> [] | Some v \<Rightarrow> [(k, av_json v)])"

definition map_omit :: "string \<Rightarrow> (string \<times> string option) list \<Rightarrow> member list" where
  "map_omit k es = (if es = [] then [] else [(k, json_map es)])"

definition anymap_omit :: "string \<Rightarrow> (string \<times> any_value option) list \<Rightarrow> member list" where
  "anymap_omit k es = map_omit k (map (map_prod id any_json) es)"

lemmas member_defs = str_member_def int_member_def str_omit_def int_omit_def any_omit_def map_omit_def
  anymap_omit_def

section \<open>Lengths of written values\<close>

lemma sequence_map_Some [simp]: "sequence (map Some ys) = Some ys"
  by (induction ys) auto

lemma sequence_Some: "sequence xs = Some ys \<longleftrightarrow> xs = map Some ys"
proof
  show "sequence xs = Some ys \<Longrightarrow> xs = map Some ys"
    by (induction xs arbitrary: ys) (auto split: option.splits)
qed simp

lemma length_json_elems: "length (json_elems vs) = sum_list (map length vs) + (length vs - 1)"
  by (induction vs rule: json_elems.induct) auto

lemma length_json_members:
  "length (json_members ms) = sum_list (map (\<lambda>(k, v). length (quote k) + 1 + length v) ms) + (length ms - 1)"
  by (induction ms rule: json_members.induct) auto

lemma length_json_members_sort:
  "length (json_members (sort_key f ms)) = length (json_members ms)"
proof -
  have "mset (map (\<lambda>(k, v). length (quote k) + 1 + length v) (sort_key f ms)) =
        mset (map (\<lambda>(k, v). length (quote k) + 1 + length v) ms)"
    by simp
  then show ?thesis
    by (metis (no_types, lifting) length_json_members length_sort sum_mset_sum_list)
qed

text \<open>Brackets, the items and the commas between them.\<close>

definition items_size :: "nat list \<Rightarrow> nat" where
  "items_size ns = 2 + sum_list ns + (length ns - 1)"

lemma length_json_array: "length (json_array vs) = items_size (map length vs)"
  by (simp add: json_array_def items_size_def length_json_elems)

lemma length_json_object:
  "length (json_object ms) = items_size (map (\<lambda>(k, v). length (quote k) + 1 + length v) ms)"
  by (simp add: json_object_def items_size_def length_json_members)

lemma length_json_object_sort: "length (json_object (sort_key f ms)) = length (json_object ms)"
  by (simp add: json_object_def length_json_members_sort)

lemma quote_number: "(\<forall>c \<in> set s. is_digit c \<or> c = CHR ''-'') \<Longrightarrow> quote_body s = s"
proof (induction s)
  case (Cons c s)
  then have "code c < 128" "quote_ascii c = [c]"
    by (auto simp: quote_ascii_def is_digit_def)
  then show ?case
    using Cons by (simp add: quote_body_ascii)
qed simp

lemma length_quote_number [simp]:
  "length (quote (FormatInt n)) = length (FormatInt n) + 2" "length (quote (fmt_nat m)) = length (fmt_nat m) + 2"
proof -
  have "\<forall>c \<in> set (FormatInt n). is_digit c \<or> c = CHR ''-''"
    using fmt_nat_digits by (auto simp: FormatInt_def)
  then show "length (quote (FormatInt n)) = length (FormatInt n) + 2"
    by (simp add: quote_def quote_number)
  show "length (quote (fmt_nat m)) = length (fmt_nat m) + 2"
    using fmt_nat_digits [of m] by (simp add: quote_def quote_number)
qed

end
