(* ===== verification/Go_Marshal.thy ===== *)
theory Go_Marshal
  imports Go_Values
begin

text \<open>
  What the writers of JSON have in common: their output is a value without white space between tokens
  and without the characters that HTML escaping replaces, so compacting it once more changes nothing.
\<close>

section \<open>HTML-safe text\<close>

fun html_safe :: "string \<Rightarrow> bool" where
  "html_safe [] = True"
| "html_safe (c # cs) =
     (c \<notin> {CHR ''<'', CHR ''>'', CHR ''&''} \<and> \<not> is_2028 (c # cs) \<and> html_safe cs)"

lemma is_2028_ascii [simp]: "code c < 128 \<Longrightarrow> \<not> is_2028 (c # cs)"
  by (auto simp: is_2028_def split: list.splits)

lemma is_2028_append:
  assumes "is_2028 (c # xs @ ys)" "ys = [] \<or> \<not> is_cont (hd ys)"
  shows "is_2028 (c # xs)"
proof -
  consider "xs = []" | b where "xs = [b]" | b d r where "xs = b # d # r"
    by (metis list.exhaust)
  then show ?thesis
    using assms by cases (auto simp: is_2028_def is_cont_def split: list.splits)
qed

lemma html_safe_append:
  "html_safe xs \<Longrightarrow> html_safe ys \<Longrightarrow> ys = [] \<or> \<not> is_cont (hd ys) \<Longrightarrow> html_safe (xs @ ys)"
  by (induction xs) (auto dest: is_2028_append)

lemma html_safe_append_ascii:
  "html_safe xs \<Longrightarrow> html_safe ys \<Longrightarrow> xs = [] \<or> code (last xs) < 128 \<Longrightarrow> html_safe (xs @ ys)"
proof (induction xs)
  case (Cons c xs)
  have "\<not> is_2028 (c # xs @ ys)"
  proof
    assume *: "is_2028 (c # xs @ ys)"
    consider "xs = []" | b where "xs = [b]" | b d r where "xs = b # d # r"
      by (metis list.exhaust)
    then show False
      using * Cons.prems by cases (auto simp: is_2028_def split: list.splits)
  qed
  then show ?case
    using Cons by (auto split: if_splits)
qed simp

lemma html_safe_ascii: "(\<forall>c \<in> set s. code c < 128 \<and> c \<notin> {CHR ''<'', CHR ''>'', CHR ''&''}) \<Longrightarrow> html_safe s"
  by (induction s) auto

section \<open>Quoted strings are HTML-safe\<close>

lemma code_hex_char: "d < 16 \<Longrightarrow> code (hex_char d) < 128 \<and> hex_char d \<notin> {CHR ''<'', CHR ''>'', CHR ''&''}"
  by (auto simp: hex_char_def of_char_of byte_eq_iff)

lemma html_safe_quote_ascii: "html_safe (quote_ascii c)" if "code c < 128"
proof -
  have "code c div 16 < 16"
    using that by simp
  then have "html_safe (u00 c)"
    using code_hex_char [of "code c div 16"] code_hex_char [of "code c mod 16"] by (simp add: u00_def)
  then show ?thesis
    using that by (auto simp: quote_ascii_def)
qed

lemma last_quote_ascii: "code c < 128 \<Longrightarrow> code (last (quote_ascii c)) < 128 \<and> quote_ascii c \<noteq> []"
  using code_hex_char [of "code c mod 16"] by (auto simp: quote_ascii_def u00_def)

lemma utf8_lead: "utf8_len (c # cs) \<noteq> 0 \<Longrightarrow> \<not> is_cont c"
  by (auto simp: utf8_len.simps(2) is_cont_def split: if_splits)

lemma hd_quote_body: "s = [] \<or> quote_body s \<noteq> [] \<and> \<not> is_cont (hd (quote_body s))"
proof (cases s)
  case (Cons c cs)
  have "code c < 128 \<Longrightarrow> quote_ascii c \<noteq> [] \<and> \<not> is_cont (hd (quote_ascii c))"
    by (auto simp: quote_ascii_def u00_def is_cont_def)
  moreover have "\<not> is_cont c" if "utf8_len (c # cs) \<noteq> 0"
    using that by (rule utf8_lead)
  ultimately show ?thesis
    using Cons by (auto simp: quote_body.simps(2) Let_def u_fffd_def u202_def is_cont_def take_Cons split: nat.splits)
qed simp

lemma html_safe_multi:
  assumes "utf8_len (c # cs) = n" "n \<noteq> 0" "128 \<le> code c" "\<not> is_2028 (c # cs)"
  shows "html_safe (take n (c # cs))"
proof -
  have high: "html_safe xs" if "\<forall>x \<in> set xs. is_cont x" for xs
    using that by (induction xs) (auto simp: is_cont_def is_2028_def split: list.splits)
  obtain m where m: "n = Suc m"
    using assms(2) by (cases n) auto
  have "\<forall>x \<in> set (take m cs). is_cont x"
    using assms(1,3) m by (auto simp: utf8_len.simps(2) second_ok_def is_cont_def split: list.splits if_splits)
  moreover have "\<not> is_2028 (c # take m cs)"
    using assms(4) m by (auto simp: is_2028_def take_Cons split: list.splits nat.splits)
  ultimately show ?thesis
    using high [of "take m cs"] assms(3) m by auto
qed

lemma html_safe_quote_body: "html_safe (quote_body s)"
proof (induction s rule: quote_cases)
  case (Ascii c cs)
  then show ?case
    by (simp add: quote_body_ascii html_safe_append_ascii html_safe_quote_ascii last_quote_ascii)
next
  case (Bad c cs)
  then show ?case
    by (simp add: quote_body_bad html_safe_append_ascii u_fffd_def)
next
  case (LineSep a b c r)
  then show ?case
    using code_hex_char [of "code c mod 16"]
    by (simp add: quote_body_2028 html_safe_append_ascii u202_def)
next
  case (Multi c cs n)
  then show ?case
    using hd_quote_body [of "drop (n - 1) cs"]
    by (auto simp: quote_body_multi intro!: html_safe_append html_safe_multi)
qed simp

lemma html_safe_delim:
  "html_safe xs \<Longrightarrow> code c < 128 \<Longrightarrow> c \<notin> {CHR ''<'', CHR ''>'', CHR ''&''} \<Longrightarrow> html_safe ys \<Longrightarrow>
   html_safe (xs @ c # ys)"
  by (rule html_safe_append) (simp_all add: is_cont_def)

lemma html_safe_quote [simp]: "html_safe (quote s)"
  using html_safe_delim [OF html_safe_quote_body, of "CHR 0x22" "[]" s] by (simp add: quote_def)

lemma html_safe_FormatInt [simp]: "html_safe (FormatInt n)"
proof -
  have "\<forall>c \<in> set (FormatInt n). is_digit c \<or> c = CHR ''-''"
    using fmt_nat_digits by (auto simp: FormatInt_def)
  then show ?thesis
    by (intro html_safe_ascii) (auto simp: is_digit_def)
qed

lemma html_safe_members:
  "\<forall>p \<in> set ms. html_safe (snd p) \<Longrightarrow> html_safe (json_members ms)"
  by (induction ms rule: json_members.induct) (auto intro!: html_safe_delim)

lemma html_safe_object: "\<forall>p \<in> set ms. html_safe (snd p) \<Longrightarrow> html_safe (json_object ms)"
  using html_safe_delim [OF html_safe_members, of ms "CHR ''}''" "[]"] by (simp add: json_object_def)

section \<open>Marshalled values\<close>

definition marshalled :: "nat \<Rightarrow> string \<Rightarrow> bool" where
  "marshalled lim v \<longleftrightarrow> json_value lim v \<and> html_safe v"

lemma marshalled_simps [simp]: "marshalled lim (quote s)" "marshalled lim (FormatInt n)"
  by (simp_all add: marshalled_def)

lemma marshalled_object: "\<forall>p \<in> set ms. marshalled lim (snd p) \<Longrightarrow> marshalled (Suc lim) (json_object ms)"
  by (simp add: marshalled_def json_value_json_object html_safe_object)

lemma compact_from_safe:
  "tight_run lim st s = Some (s', []) \<Longrightarrow> may_end s' \<Longrightarrow> html_safe s \<Longrightarrow> compact_from lim st 0 s = Some s"
proof (induction s arbitrary: st)
  case Nil
  then show ?case
    by (simp add: scan_eof_iff)
next
  case (Cons c cs)
  then obtain st' where "scan_step lim st c = Some st'" "tight_run lim st' cs = Some (s', [])"
    and sp: "\<not> (is_space c \<and> fst st \<noteq> InString)"
    by (auto split: if_splits option.splits)
  moreover have "compact_emit st c cs = ([c], 0)"
    using Cons.prems(3) sp by (auto simp: compact_emit_def)
  ultimately show ?case
    using Cons by simp
qed

lemma compact_marshalled:
  assumes "marshalled lim v" "lim \<le> maxNestingDepth"
  shows "compact v = Some v"
proof -
  have "compact_from lim (BeginValue, []) 0 v = Some v"
    using assms(1) compact_from_safe [of lim "(BeginValue, [])" v] unfolding marshalled_def json_value_def by blast
  then show ?thesis
    unfolding compact_def using assms(2) by (rule compact_from_mono)
qed

section \<open>Compacting twice\<close>

lemma scan_step_string_only':
  assumes "scan_step lim st c = Some st'" "string_only c"
  shows "fst st = InString \<and> fst st' = InString \<and> snd st' = snd st"
proof (cases st)
  case (Pair s k)
  show ?thesis
    using scan_step_string_only [OF assms(1) [unfolded Pair] assms(2)] Pair by simp
qed

lemma compact_from_high:
  assumes "compact_from lim st 0 cs = Some (b # out)" "128 \<le> code b" "fst st = InString"
  shows "\<exists>r. cs = b # r \<and> compact_from lim st 0 r = Some out"
proof (cases cs)
  case Nil
  then show ?thesis
    using assms(1) by (simp split: if_splits)
next
  case (Cons c r)
  obtain st' where st': "scan_step lim st c = Some st'"
    using assms(1) Cons by (auto split: option.splits)
  obtain e m where em: "compact_emit st c r = (e, m)"
    by (cases "compact_emit st c r")
  have "\<exists>o2. b # out = e @ o2 \<and> compact_from lim st' m r = Some o2"
    using assms(1) Cons st' em by auto
  moreover have "e = [c] \<and> m = 0 \<or> e \<noteq> [] \<and> hd e = CHR 0x5C"
    using em assms(3) by (auto simp: compact_emit_def u00_def u202_def split: if_splits)
  ultimately have c: "c = b" "compact_from lim st' 0 r = Some out"
    using assms(2) by (cases e; auto)+
  have "string_only c"
    using assms(2) c(1) by (simp add: string_only_def)
  then have "st' = st"
    using scan_step_string_only' [OF st'] assms(3) by (simp add: prod_eq_iff)
  then show ?thesis
    using c Cons by simp
qed

text \<open>A byte that is copied does not begin a line or paragraph separator in the output either.\<close>

lemma copied_not_2028:
  assumes "scan_step lim st c = Some st'" "compact_from lim st' 0 cs = Some out" "\<not> is_2028 (c # cs)"
  shows "\<not> is_2028 (c # out)"
proof
  assume sep: "is_2028 (c # out)"
  then obtain b d r where out: "out = b # d # r" "128 \<le> code b" "128 \<le> code d" "128 \<le> code c"
    by (auto simp: is_2028_def split: list.splits)
  have "string_only c"
    using out(4) by (simp add: string_only_def)
  then have in_str: "fst st' = InString"
    using scan_step_string_only' [OF assms(1)] by simp
  obtain r1 where r1: "cs = b # r1" "compact_from lim st' 0 r1 = Some (d # r)"
    using compact_from_high [of lim st' cs b "d # r"] assms(2) out in_str by auto
  then obtain r2 where "r1 = d # r2"
    using compact_from_high [of lim st' r1 d r] out in_str by auto
  then show False
    using sep assms(3) out r1 by (simp add: is_2028_def)
qed

lemma html_safe_compact:
  "compact_from lim st n s = Some out \<Longrightarrow> html_safe out"
proof (induction s arbitrary: st n out)
  case Nil
  then show ?case
    by (simp split: if_splits)
next
  case (Cons c cs)
  then obtain st' where st': "scan_step lim st c = Some st'"
    by (auto split: option.splits)
  show ?case
  proof (cases n)
    case (Suc m)
    then show ?thesis
      using Cons.IH [of st' m out] Cons.prems st' by simp
  next
    case 0
    obtain e m where em: "compact_emit st c cs = (e, m)"
      by (cases "compact_emit st c cs")
    then obtain out' where out: "out = e @ out'" and rest: "compact_from lim st' m cs = Some out'"
      using Cons.prems st' 0 by auto
    consider (esc) "e = u00 c" "c \<in> {CHR ''<'', CHR ''>'', CHR ''&''}" | (sep) "e = u202 (cs ! 1)" | (space) "e = []"
      | (copy) "e = [c]" "m = 0" "c \<notin> {CHR ''<'', CHR ''>'', CHR ''&''}" "\<not> is_2028 (c # cs)"
      using em by (auto simp: compact_emit_def split: if_splits)
    then show ?thesis
    proof cases
      case esc
      have "html_safe (u00 c)" "code (last (u00 c)) < 128"
        using esc(2) html_safe_quote_ascii [of c] last_quote_ascii [of c] by (auto simp: quote_ascii_def)
      then show ?thesis
        using Cons.IH [OF rest] out esc(1) by (simp add: html_safe_append_ascii)
    next
      case sep
      then show ?thesis
        using Cons.IH [OF rest] out code_hex_char [of "code (cs ! 1) mod 16"]
        by (simp add: html_safe_append_ascii u202_def)
    next
      case space
      then show ?thesis
        using Cons.IH [OF rest] out by simp
    next
      case copy
      have "\<not> is_2028 (c # out')"
        using copied_not_2028 [OF st'] rest copy(2,4) by simp
      then show ?thesis
        using Cons.IH [OF rest] out copy by simp
    qed
  qed
qed

lemma compact_idem:
  assumes "compact s = Some t"
  shows "compact t = Some t"
  using assms compact_from_json_value [of maxNestingDepth s t] html_safe_compact [of maxNestingDepth _ 0 s t]
  by (intro compact_marshalled [of maxNestingDepth]) (auto simp: compact_def marshalled_def)

lemma marshal_raw_idem: "marshal_raw d = Some t \<Longrightarrow> marshal_raw (Some t) = Some t"
  by (auto simp: marshal_raw_def compact_idem split: option.splits)

section \<open>Structs and maps\<close>

text \<open>The outcome of marshalling a member: a marshalled value, up to the given nesting depth.\<close>

definition member_ok :: "nat \<Rightarrow> member \<Rightarrow> bool" where
  "member_ok lim p \<longleftrightarrow> (\<exists>v. snd p = Some v \<and> marshalled lim v)"

lemma member_ok_the: "member_ok lim p \<Longrightarrow> marshalled lim (the (snd p)) \<and> snd p \<noteq> None"
  by (auto simp: member_ok_def)

lemma sequence_snd_ok:
  assumes "\<forall>p \<in> set ms. member_ok lim p"
  shows "sequence_snd ms = Some (map (map_prod id the) ms)"
proof -
  have "map (\<lambda>(k, v). map_option (Pair k) v) ms = map Some (map (map_prod id the) ms)"
    using assms by (auto dest!: member_ok_the)
  then show ?thesis
    unfolding sequence_snd_def by (metis sequence_map_Some)
qed

lemma members_marshalled:
  assumes "\<forall>p \<in> set ms. member_ok lim p"
  shows "\<forall>p \<in> set (map (map_prod id the) ms). marshalled lim (snd p)"
  using assms by (auto dest!: member_ok_the)

lemma json_struct_ok:
  assumes "\<forall>p \<in> set ms. member_ok lim p"
  shows "json_struct ms = Some (json_object (map (map_prod id the) ms))"
    "marshalled (Suc lim) (json_object (map (map_prod id the) ms))"
  using marshalled_object [OF members_marshalled [OF assms]]
  by (simp_all add: json_struct_def sequence_snd_ok [OF assms])

lemma json_struct_ex:
  "\<forall>p \<in> set ms. member_ok lim p \<Longrightarrow> \<exists>t. json_struct ms = Some t \<and> marshalled (Suc lim) t"
  using json_struct_ok by blast

lemma json_map_ok:
  assumes "\<forall>p \<in> set ms. member_ok lim p"
  shows "\<exists>v. json_map ms = Some v \<and> marshalled (Suc lim) v"
proof -
  have "\<forall>p \<in> set (sort_key fst (map (map_prod id the) ms)). marshalled lim (snd p)"
    using members_marshalled [OF assms] by simp
  then show ?thesis
    using marshalled_object by (simp add: json_map_def sequence_snd_ok [OF assms])
qed

lemma marshalled_mono: "marshalled lim v \<Longrightarrow> lim \<le> lim' \<Longrightarrow> marshalled lim' v"
proof -
  have "tight_run lim st v = Some st' \<Longrightarrow> lim \<le> lim' \<Longrightarrow> tight_run lim' st v = Some st'" for st st' v
    by (induction v arbitrary: st) (auto split: option.splits if_splits dest: scan_step_mono)
  then show "marshalled lim v \<Longrightarrow> lim \<le> lim' \<Longrightarrow> marshalled lim' v"
    unfolding marshalled_def json_value_def by blast
qed

text \<open>Which values of type \<open>any\<close> are marshalled without an error and within the nesting depth.\<close>

definition any_ok :: "nat \<Rightarrow> any_value option \<Rightarrow> bool" where
  "any_ok lim a \<longleftrightarrow> (case a of None \<Rightarrow> True | Some v \<Rightarrow> (\<exists>t. av_json v = Some t \<and> marshalled lim t))"

lemma members_ok:
  "\<forall>p \<in> set (str_member k s). member_ok lim p" "\<forall>p \<in> set (int_member k n). member_ok lim p"
  "\<forall>p \<in> set (str_omit k s). member_ok lim p" "\<forall>p \<in> set (int_omit k n). member_ok lim p"
  "any_ok lim a \<Longrightarrow> \<forall>p \<in> set (any_omit k a). member_ok lim p"
  by (auto simp: member_defs member_ok_def any_ok_def split: option.splits)

lemma map_omit_ok: "\<forall>p \<in> set es. member_ok lim p \<Longrightarrow> \<forall>p \<in> set (map_omit k es). member_ok (Suc lim) p"
  using json_map_ok [of es lim] by (auto simp: map_omit_def member_ok_def)

lemma marshalled_null: "marshalled lim ''null''"
  by (simp add: marshalled_def json_value_def begin_value_def expect_def may_end_def is_space_def is_2028_def)

lemma anymap_omit_ok:
  "\<forall>e \<in> set es. any_ok lim (snd e) \<Longrightarrow> \<forall>p \<in> set (anymap_omit k es). member_ok (Suc lim) p"
  unfolding anymap_omit_def
  by (rule map_omit_ok)
    (auto simp: member_ok_def any_json_def any_ok_def marshalled_null split: option.splits)

end
