(* ===== verification/Frame.thy ===== *)
theory Frame
  imports Envelope
begin

text \<open>
  Length-prefixed frames: \<open>encodeFrame\<close> of the SDK (\<open>pkg/logtrack/client.go\<close>) and \<open>readFrame\<close> of the
  gateway (\<open>internal/server/conn.go\<close>). A connection is the sequence of bytes it still delivers
  before a read fails (end of stream, deadline or closed socket).
\<close>

unbundle bit_operations_syntax

section \<open>encoding/binary, big-endian 32-bit integers\<close>

definition PutUint32 :: "32 word \<Rightarrow> string" where
  "PutUint32 v = [byte (unat (drop_bit 24 v)), byte (unat (drop_bit 16 v)),
                  byte (unat (drop_bit 8 v)), byte (unat v)]"

definition Uint32 :: "string \<Rightarrow> 32 word" where
  "Uint32 b =
     of_nat (code (b ! 3)) OR push_bit 8 (of_nat (code (b ! 2))) OR
     push_bit 16 (of_nat (code (b ! 1))) OR push_bit 24 (of_nat (code (b ! 0)))"

lemma low_byte: "(word_of_nat (unat w mod 256) :: 32 word) = take_bit 8 w"
  by (rule word_unat_eq_iff [THEN iffD2]) (simp add: take_bit_eq_mod unat_mod unat_of_nat take_bit_nat_eq_self)

lemma Uint32_PutUint32 [simp]: "Uint32 (PutUint32 v) = v"
proof (rule bit_word_eqI)
  fix n assume "n < LENGTH(32)"
  then consider "n < 8" | "8 \<le> n" "n < 16" | "16 \<le> n" "n < 24" | "24 \<le> n" "n < 32"
    by fastforce
  then show "bit (Uint32 (PutUint32 v)) n \<longleftrightarrow> bit v n"
    unfolding Uint32_def PutUint32_def
    by cases
      (auto simp: low_byte bit_or_iff bit_push_bit_iff bit_take_bit_iff bit_drop_bit_eq)
qed

lemma length_PutUint32 [simp]: "length (PutUint32 v) = 4"
  by (simp add: PutUint32_def)

section \<open>The two ends of the wire\<close>

definition encodeFrame :: "Envelope \<Rightarrow> error + string" where
  "encodeFrame env =
     (case marshal_envelope env of
        None \<Rightarrow> Inl ErrJson
      | Some body \<Rightarrow> Inr (PutUint32 (of_nat (length body)) @ body))"

datatype frame_error =
    ReadFailed
  | ZeroLength
  | TooLarge nat int
  | DecodeFailed

text \<open>\<open>io.ReadFull\<close> for \<open>n\<close> bytes: the bytes and what the connection still holds, or a failure.\<close>

definition ReadFull :: "nat \<Rightarrow> string \<Rightarrow> (string \<times> string) option" where
  "ReadFull n conn = (if n \<le> length conn then Some (take n conn, drop n conn) else None)"

definition readFrame :: "int \<Rightarrow> string \<Rightarrow> frame_error + (Envelope \<times> string)" where
  "readFrame maxSize conn =
     (case ReadFull 4 conn of
        None \<Rightarrow> Inl ReadFailed
      | Some (lenBuf, conn1) \<Rightarrow>
          (let n = unat (Uint32 lenBuf) in
           if n = 0 then Inl ZeroLength
           else if maxSize < int n then Inl (TooLarge n maxSize)
           else
             (case ReadFull n conn1 of
                None \<Rightarrow> Inl ReadFailed
              | Some (body, conn2) \<Rightarrow>
                  (case unmarshal_envelope body of
                     None \<Rightarrow> Inl DecodeFailed
                   | Some env \<Rightarrow> Inr (EnsureTimestampAt env, conn2)))))"

section \<open>Round trip\<close>

lemma readFrame_encoded:
  assumes "unmarshal_envelope body = Some env" "body \<noteq> []"
    "length body < 2 ^ 32" "int (length body) \<le> maxSize"
  shows "readFrame maxSize (PutUint32 (of_nat (length body)) @ body @ rest) =
    Inr (EnsureTimestampAt env, rest)"
proof -
  have "unat (of_nat (length body) :: 32 word) = length body"
    using assms(3) by (simp add: unat_of_nat take_bit_nat_eq_self)
  then show ?thesis
    using assms by (simp add: readFrame_def ReadFull_def Let_def)
qed

text \<open>What the gateway has of an envelope a client has framed.\<close>

definition received :: "Envelope \<Rightarrow> Envelope" where
  "received e = EnsureTimestampAt (e\<lparr>Data := marshal_raw (Data e), WriteRaw := False\<rparr>)"

lemma json_object_nonempty [simp]: "json_object ms \<noteq> []"
  by (simp add: json_object_def)

lemma readFrame_encodeFrame:
  assumes "wf_envelope env" "encodeFrame env = Inr frame"
    "length frame < 2 ^ 32" "int (length frame) \<le> maxSize + 4"
  shows "readFrame maxSize (frame @ rest) = Inr (received env, rest)"
proof -
  obtain d where d: "marshal_raw (Data env) = Some d" "json_value (maxNestingDepth - 1) d"
    using assms(1) marshal_raw_ok by (auto simp: wf_envelope_def)
  define body where "body = json_object (envelope_members env d)"
  have frame: "frame = PutUint32 (of_nat (length body)) @ body"
    using assms(2) d by (simp add: encodeFrame_def marshal_envelope_def body_def)
  have "unmarshal_envelope body = Some (env\<lparr>Data := Some d, WriteRaw := False\<rparr>)"
    unfolding body_def by (rule unmarshal_envelope_members [OF assms(1) d(2)])
  then show ?thesis
    using readFrame_encoded [of body _ maxSize rest] assms(3,4) frame d
    by (simp add: received_def body_def)
qed

end
