(* ===== verification/Decode.thy ===== *)
theory Decode
  imports Frame
begin

text \<open>
  What decoding arbitrary bytes guarantees: strings come out as well-formed UTF-8, integers within 64 bits,
  and the text kept for a raw member is a valid JSON value, one level less deep than the whole.
\<close>

section \<open>Decoded strings\<close>

lemma ValidString_piece:
  assumes "utf8_len p = length p" "p \<noteq> []" "ValidString t"
  shows "ValidString (p @ t)"
proof -
  obtain c cs where p: "p = c # cs"
    using assms(2) by (cases p) auto
  have "utf8_len (p @ t) = length p"
    using utf8_len_take [OF assms(1), of t] assms(2) by simp
  then show ?thesis
    using assms(3) by (simp add: p ValidString.simps(2) Let_def)
qed

lemma utf8_len_EncodeRune: "utf8_len (EncodeRune r) = length (EncodeRune r)" "EncodeRune r \<noteq> []"
proof -
  have b: "code (byte n) = n mod 256" for n
    by (simp add: of_char_of)
  consider "r < 128" | "128 \<le> r" "r < 2048" | "55296 \<le> r \<and> r < 57344 \<or> 1114111 < r"
    | "2048 \<le> r" "r < 65536" "\<not> (55296 \<le> r \<and> r < 57344)" | "65536 \<le> r" "r \<le> 1114111"
    by linarith
  then show "utf8_len (EncodeRune r) = length (EncodeRune r)"
  proof cases
    case 2
    then have "r div 64 < 32" "2 \<le> r div 64"
      by auto
    then show ?thesis
      using 2 by (simp add: EncodeRune_def utf8_len.simps(2) is_cont_def b)
  next
    case 4
    then have "r div 4096 < 16" "r div 64 = r div 4096 * 64 + r div 64 mod 64" "r div 64 mod 64 < 64"
      using div_mult2_eq [of r 64 64] div_mult_mod_eq [of "r div 64" 64] by simp_all
    then show ?thesis
      using 4 by (simp add: EncodeRune_def utf8_len.simps(2) is_cont_def second_ok_def b) linarith
  next
    case 5
    then have "r div 262144 < 5" "r div 4096 = r div 262144 * 64 + r div 4096 mod 64" "r div 4096 mod 64 < 64"
      using div_mult2_eq [of r 4096 64] div_mult_mod_eq [of "r div 4096" 64] by simp_all
    then show ?thesis
      using 5 by (simp add: EncodeRune_def utf8_len.simps(2) is_cont_def second_ok_def b) linarith
  qed (auto simp: EncodeRune_def utf8_len.simps(2) is_cont_def second_ok_def b)
qed (simp add: EncodeRune_def)

lemma ValidString_rune: "ValidString t \<Longrightarrow> ValidString (EncodeRune r @ t)"
  using ValidString_piece [OF utf8_len_EncodeRune] .

lemma ValidString_head: "utf8_len (c # cs) = n \<Longrightarrow> n \<noteq> 0 \<Longrightarrow> ValidString t \<Longrightarrow> ValidString (take n (c # cs) @ t)"
proof -
  assume n: "utf8_len (c # cs) = n" "n \<noteq> 0" and "ValidString t"
  have "length (take n (c # cs)) = n"
    using utf8_len_le [of "c # cs"] n(1) by simp
  then show ?thesis
    using ValidString_piece [of "take n (c # cs)" t] utf8_len_take [OF n, of "[]"] n(2) \<open>ValidString t\<close> by fastforce
qed

lemma ValidString_ascii_Cons: "code c < 128 \<Longrightarrow> ValidString t \<Longrightarrow> ValidString (c # t)"
  by (simp add: ValidString.simps(2) utf8_len_ascii)

lemma simple_escape_ascii: "simple_escape e = Some b \<Longrightarrow> code b < 128"
  by (auto simp: simple_escape_def code_byte split: if_splits)

lemma unquote_body_valid: "unquote_body s = Some t \<Longrightarrow> ValidString t"
proof (induction s arbitrary: t rule: unquote_body.induct)
  case (2 c cs)
  show ?case
  proof (cases "c = CHR 0x5C")
    case True
    obtain e r where cs: "cs = e # r"
      using "2.prems" True by (cases cs) (auto simp: unquote_body.simps(2))
    show ?thesis
    proof (cases "simple_escape e")
      case (Some b)
      then show ?thesis
        using "2.prems" "2.IH"(4) [OF True cs Some] True simple_escape_ascii [OF Some]
        by (auto simp: cs unquote_body.simps(2) intro: ValidString_ascii_Cons)
    next
      case None
      then show ?thesis
        using "2.prems" "2.IH"(1-3) [OF True cs None] True
        by (auto simp: cs unquote_body.simps(2) split: if_splits option.splits intro!: ValidString_rune)
    qed
  next
    case False
    then show ?thesis
      using "2.prems" "2.IH"(5-7) [OF False]
      by (auto simp: unquote_body.simps(2) Let_def split: if_splits
          intro: ValidString_rune ValidString_ascii_Cons ValidString_head simp del: take_Suc_Cons)
  qed
qed simp

section \<open>Values inside an object\<close>

text \<open>
  A scanner inside a member sees the frames of the value above that of the object. It moves as a scanner of
  the value alone does, with one level less, until the value has ended.
\<close>

definition own_frame :: "scanner \<Rightarrow> bool" where
  "own_frame st \<longleftrightarrow> (fst st \<in> {BeginStringOrEmpty, BeginValueOrEmpty} \<longrightarrow> snd st \<noteq> [])"

lemma end_value_below: "k \<noteq> [] \<Longrightarrow> end_value (k @ [p]) c = map_option (\<lambda>(s, k'). (s, k' @ [p])) (end_value k c)"
  by (cases k; cases "hd k") auto

lemma begin_value_below:
  "begin_value (Suc lim) (k @ [p]) c = map_option (\<lambda>(s, k'). (s, k' @ [p])) (begin_value lim k c)"
  by (simp add: begin_value_def push_def)

lemma begin_value_frame: "begin_value lim k c = Some st \<Longrightarrow> own_frame st"
  by (auto simp: begin_value_def push_def own_frame_def split: if_splits)

lemma end_value_frame: "end_value k c = Some st \<Longrightarrow> own_frame st"
  by (cases k; cases "hd k") (auto simp: own_frame_def split: if_splits)

lemma end_value_space: "is_space c \<Longrightarrow> end_value k c = Some (EndValue, k)"
  by (cases k) simp_all

lemma end_value_top: "\<not> is_space c \<Longrightarrow> end_value [] c = None"
  by simp

text \<open>The value ended before \<open>c\<close>.\<close>

definition ended_at :: "scanner \<Rightarrow> char \<Rightarrow> bool" where
  "ended_at st c \<longleftrightarrow> snd st = [] \<and> may_end (fst st) \<and> (\<forall>lim. scan_step lim st c = None)"

lemma scan_step_frame:
  assumes "scan_step lim st c = Some st'" "own_frame st"
  shows "own_frame st'"
proof -
  obtain s k where st: "st = (s, k)"
    by (cases st)
  have "own_frame (BeginString, k)" "own_frame (InString, k)"
    by (simp_all add: own_frame_def)
  then show ?thesis
    using assms begin_value_frame [of lim k c st'] end_value_frame [of k c st'] end_value_frame [of "ObjectValue # tl k" c st']
    unfolding st
    by (cases s) (auto simp: begin_string_def state0_def expect_def simp del: end_value.simps split: if_splits,
        auto simp: own_frame_def)
qed

lemma scan_step_nested:
  "k \<noteq> [] \<Longrightarrow> scan_step (Suc lim) (s, k @ [p]) c = map_option (\<lambda>(s, k'). (s, k' @ [p])) (scan_step lim (s, k) c)"
  using begin_value_below [of lim k p c] end_value_below [of k p c] end_value_below [of "ObjectValue # tl k" p c]
  by (cases s) (auto simp: begin_string_def state0_def expect_def simp del: end_value.simps)

lemma scan_step_top:
  assumes "scan_step (Suc lim) (s, [p]) c = Some st'" "own_frame (s, [])"
  shows "ended_at (s, []) c \<or> (\<exists>s' k'. scan_step lim (s, []) c = Some (s', k') \<and> st' = (s', k' @ [p]))"
proof (cases "is_space c")
  case True
  then show ?thesis
    using assms begin_value_below [of lim "[]" p c] end_value_space [OF True]
    by (cases "begin_value lim [] c"; cases s) (auto simp: begin_string_def state0_def expect_def own_frame_def simp del: end_value.simps split: if_splits)
next
  case False
  then show ?thesis
    using assms begin_value_below [of lim "[]" p c] end_value_top [OF False]
    by (cases "begin_value lim [] c"; cases s) (auto simp: begin_string_def state0_def expect_def own_frame_def ended_at_def may_end_def
        simp del: end_value.simps split: if_splits)
qed

lemma scan_step_below:
  assumes "scan_step (Suc lim) (s, k @ [p]) c = Some st'" "own_frame (s, k)"
  shows "ended_at (s, k) c \<or> (\<exists>s' k'. scan_step lim (s, k) c = Some (s', k') \<and> st' = (s', k' @ [p]))"
  using assms scan_step_nested [of k lim s p c] scan_step_top [of lim s p c st'] by (cases "k = []") auto

lemma ended_step: "ended_at (s, []) c \<Longrightarrow> scan_step lim (s, [p]) c = scan_step lim (EndValue, [p]) c"
  by (cases s) (auto simp: ended_at_def may_end_def state0_def simp del: end_value.simps split: if_splits)

lemma ended_by_space:
  assumes "scan_step lim (s, k) c = Some (EndValue, [])" "is_space c"
  shows "k = []" "may_end s" "scan_step lim' (s, [p]) c = scan_step lim' (EndValue, [p]) c"
  using assms end_value_space [OF assms(2)]
  by (cases s; auto simp: begin_value_def begin_string_def state0_def expect_def may_end_def is_space_def is_digit_def is_hex_def hex_val_def
      simp del: end_value.simps split: if_splits)+

lemma take_value_valid:
  "scan_run (Suc lim) (s, k @ [p]) t = Some (s2, []) \<Longrightarrow> own_frame (s, k) \<Longrightarrow> Suc lim \<le> maxNestingDepth \<Longrightarrow>
   take_value (s, k) t = (v, r) \<Longrightarrow>
   \<exists>s1. scan_run lim (s, k) v = Some (s1, []) \<and> may_end s1 \<and> scan_run (Suc lim) (EndValue, [p]) r = Some (s2, [])"
proof (induction t arbitrary: s k v)
  case (Cons c t)
  obtain st' where step: "scan_step (Suc lim) (s, k @ [p]) c = Some st'" and rest: "scan_run (Suc lim) st' t = Some (s2, [])"
    using Cons.prems(1) by (auto split: option.splits)
  consider "ended_at (s, k) c" | s' k' where "scan_step lim (s, k) c = Some (s', k')" "st' = (s', k' @ [p])"
    using scan_step_below [OF step Cons.prems(2)] by blast
  then show ?case
  proof cases
    case 1
    then have "k = []" "may_end s" "v = []" "r = c # t"
      using Cons.prems(4) by (auto simp: ended_at_def)
    then show ?thesis
      using 1 ended_step [of s c "Suc lim" p] step rest by simp
  next
    case (2 s' k')
    have max: "scan_step maxNestingDepth (s, k) c = Some (s', k')"
      using scan_step_mono [OF 2(1)] Cons.prems(3) by simp
    consider "(s', k') = (EndValue, [])" "is_space c" | "(s', k') = (EndValue, [])" "\<not> is_space c" | "(s', k') \<noteq> (EndValue, [])"
      by blast
    then show ?thesis
    proof cases
      case 1
      then have "v = []" "r = c # t" "scan_step lim (s, k) c = Some (EndValue, [])"
        using Cons.prems(4) max 2(1) by auto
      then show ?thesis
        using ended_by_space [OF _ 1(2)] step rest by (metis append_Nil scan_run.simps option.case(2))
    next
      case 2
      then show ?thesis
        using Cons.prems(4) max \<open>scan_step lim (s, k) c = Some (s', k')\<close> \<open>st' = (s', k' @ [p])\<close> rest by (auto simp: may_end_def)
    next
      case 3
      obtain v' where v': "take_value (s', k') t = (v', r)" "v = c # v'"
        using Cons.prems(4) max 3 by (auto split: prod.splits)
      have "scan_run (Suc lim) (s', k' @ [p]) t = Some (s2, [])"
        using rest 2(2) by simp
      then show ?thesis
        using Cons.IH [OF _ scan_step_frame [OF 2(1) Cons.prems(2)] Cons.prems(3) v'(1)] 2(1) v'(2) by simp
    qed
  qed
qed simp

lemma scan_run_skip_ws:
  "s \<in> {BeginValue, BeginString, BeginStringOrEmpty, EndValue} \<Longrightarrow> scan_run lim (s, k) (skip_ws t) = scan_run lim (s, k) t"
  by (induction t) (auto simp: end_value_space begin_value_def begin_string_def simp del: end_value.simps)

lemma value_text_valid:
  assumes "scan_run (Suc lim) (BeginValue, [p]) t = Some (s2, [])" "Suc lim \<le> maxNestingDepth" "value_text t = (v, r)"
  shows "valid_upto lim v" "scan_run (Suc lim) (EndValue, [p]) r = Some (s2, [])"
proof -
  have "scan_run (Suc lim) (BeginValue, [] @ [p]) (skip_ws t) = Some (s2, [])"
    using scan_run_skip_ws [of BeginValue "Suc lim" "[p]" t] assms(1) by simp
  moreover have "own_frame (BeginValue, [])"
    by (simp add: own_frame_def)
  ultimately show "valid_upto lim v" "scan_run (Suc lim) (EndValue, [p]) r = Some (s2, [])"
    using take_value_valid [OF _ _ assms(2), of BeginValue "[]" p "skip_ws t" s2 v r] assms(3)
    by (auto simp: value_text_def valid_upto_def scan_eof_iff)
qed

text \<open>The key of a member, from where a string must begin.\<close>

lemma key_text_valid:
  assumes "scan_run (Suc lim) (s, [ObjectKey]) t = Some (s2, [])" "s \<in> {BeginString, BeginStringOrEmpty}"
    "Suc lim \<le> maxNestingDepth" "skip_ws t = c # cs" "c \<noteq> CHR ''}''" "value_text t = (k, r)"
  shows "scan_run (Suc lim) (BeginValue, [ObjectValue]) (tl (skip_ws r)) = Some (s2, [])"
proof -
  have run: "scan_run (Suc lim) (s, [ObjectKey]) (c # cs) = Some (s2, [])"
    using scan_run_skip_ws [of s "Suc lim" "[ObjectKey]" t] assms(1,2,4) by auto
  have "\<not> is_space c"
    using assms(4) by (auto simp: dropWhile_eq_Cons_conv)
  then have c: "c = CHR 0x22" "scan_run (Suc lim) (InString, [] @ [ObjectKey]) cs = Some (s2, [])"
    using run assms(2,5) by (auto simp: begin_string_def split: if_splits)
  obtain k' where "take_value (InString, []) cs = (k', r)"
    using assms(4,6) c(1) by (auto simp: value_text_def begin_value_def split: prod.splits)
  moreover have "own_frame (InString, [])"
    by (simp add: own_frame_def)
  ultimately have "scan_run (Suc lim) (EndValue, [ObjectKey]) r = Some (s2, [])"
    using take_value_valid [OF c(2) _ assms(3)] by blast
  then have r: "scan_run (Suc lim) (EndValue, [ObjectKey]) (skip_ws r) = Some (s2, [])"
    using scan_run_skip_ws [of EndValue "Suc lim" "[ObjectKey]" r] by simp
  then obtain d ds where "skip_ws r = d # ds"
    by (cases "skip_ws r") auto
  moreover from this have "\<not> is_space d"
    by (auto simp: dropWhile_eq_Cons_conv)
  ultimately show ?thesis
    using r by (auto split: if_splits)
qed

lemma object_members_valid:
  "scan_run (Suc lim) (s, [ObjectKey]) t = Some (s2, []) \<Longrightarrow> s \<in> {BeginString, BeginStringOrEmpty} \<Longrightarrow>
   Suc lim \<le> maxNestingDepth \<Longrightarrow> (k, v) \<in> set (object_members t) \<Longrightarrow> valid_upto lim v"
proof (induction t arbitrary: s rule: object_members.induct)
  case (1 t)
  obtain c cs where t: "skip_ws t = c # cs" "c \<noteq> CHR ''}''"
    using "1.prems"(4) that by (cases "skip_ws t"; cases "hd (skip_ws t) = CHR ''}''") (auto simp: object_members.simps [of t])
  obtain k1 r1 v1 r2 where kv: "value_text t = (k1, r1)" "value_text (tl (skip_ws r1)) = (v1, r2)"
    by (meson surj_pair)
  note val = value_text_valid [OF key_text_valid [OF "1.prems"(1-3) t kv(1)] "1.prems"(3) kv(2)]
  have mem: "(k, v) = (k1, v1) \<or> (\<exists>ds. skip_ws r2 = CHR '','' # ds \<and> (k, v) \<in> set (object_members ds))"
    using "1.prems"(4) t kv by (subst (asm) object_members.simps) (auto split: list.splits if_splits)
  show ?case
  proof (cases "(k, v) = (k1, v1)")
    case False
    then obtain ds where ds: "skip_ws r2 = CHR '','' # ds" "(k, v) \<in> set (object_members ds)"
      using mem by blast
    have "scan_run (Suc lim) (EndValue, [ObjectValue]) (skip_ws r2) = Some (s2, [])"
      using scan_run_skip_ws [of EndValue "Suc lim" "[ObjectValue]" r2] val(2) by simp
    then have "scan_run (Suc lim) (BeginString, [ObjectKey]) ds = Some (s2, [])"
      by (simp add: ds(1))
    then show ?thesis
      using "1.IH" [OF t(1,2) refl kv(1) [symmetric] refl kv(2) [symmetric] ds(1) refl] ds(2) "1.prems"(3) by auto
  qed (use val(1) in simp)
qed

section \<open>Decoded envelopes\<close>

lemma unmarshal_members_valid:
  assumes "unmarshal_members s = Some ms" "(k, v) \<in> set ms"
  shows "valid_upto (maxNestingDepth - 1) v"
proof -
  obtain cs where s: "skip_ws s = CHR ''{'' # cs" "checkValid s"
    and ms: "ms = map (\<lambda>(k, v). (case unquote k of Some k' \<Rightarrow> k' | None \<Rightarrow> k, v)) (object_members cs)"
    using assms by (auto simp: unmarshal_members_def split: if_splits list.splits)
  obtain s2 where "scan_run maxNestingDepth (BeginValue, []) s = Some (s2, [])"
    using s(2) by (auto simp: checkValid_def valid_upto_def scan_eof_iff split: option.splits)
  then have "scan_run maxNestingDepth (BeginValue, []) (CHR ''{'' # cs) = Some (s2, [])"
    using scan_run_skip_ws [of BeginValue maxNestingDepth "[]" s] s(1) by simp
  then have "scan_run (Suc (maxNestingDepth - 1)) (BeginStringOrEmpty, [ObjectKey]) cs = Some (s2, [])"
    by (simp add: begin_value_def push_def maxNestingDepth_def)
  then show ?thesis
    using object_members_valid [of "maxNestingDepth - 1" BeginStringOrEmpty cs s2 _ v] assms(2) ms
    by (auto simp: maxNestingDepth_def)
qed

lemma unquote_valid: "unquote s = Some t \<Longrightarrow> ValidString t"
  by (auto simp: unquote_def split: if_splits intro: unquote_body_valid)

lemma get_string_valid: "get_string f ms cur = Some s \<Longrightarrow> ValidString cur \<Longrightarrow> ValidString s"
  by (induction f ms cur rule: get_string.induct) (auto split: if_splits option.splits intro: unquote_valid)

lemma get_int64_valid: "get_int64 f ms cur = Some n \<Longrightarrow> is_int64 cur \<Longrightarrow> is_int64 n"
proof (induction f ms cur rule: get_int64.induct)
  case (2 f k v ms cur)
  then show ?case
    using ParseInt_range [of v] by (auto split: if_splits option.splits prod.splits)
qed simp

lemma get_raw_mem: "get_raw f ms cur = Some v \<Longrightarrow> cur = Some v \<or> (\<exists>k. (k, v) \<in> set ms)"
  by (induction f ms cur rule: get_raw.induct) (auto split: if_splits)

lemma unmarshal_envelope_wf:
  assumes "unmarshal_envelope s = Some e"
  shows "wf_envelope e" "\<not> WriteRaw e"
proof -
  obtain ms where ms: "unmarshal_members s = Some ms"
    using assms by (auto simp: unmarshal_envelope_def split: option.splits)
  have raw: "raw_ok (get_raw ''data'' ms None)"
    using get_raw_mem [of "''data''" ms None] unmarshal_members_valid [OF ms] by (auto simp: raw_ok_def split: option.splits)
  have str: "get_string f ms [] = Some x \<Longrightarrow> ValidString x" for f x
    using get_string_valid [of f ms "[]" x] by simp
  have int: "get_int64 f ms 0 = Some n \<Longrightarrow> is_int64 n" for f n
    using get_int64_valid [of f ms 0 n] by (simp add: is_int64_def minInt64_def maxInt64_def)
  show "wf_envelope e" "\<not> WriteRaw e"
    using assms ms raw str int by (auto simp: unmarshal_envelope_def wf_envelope_def split: option.splits)
qed

lemma readFrame_wf:
  assumes "readFrame maxSize conn = Inr (env, rest)"
  shows "wf_envelope env" "\<not> WriteRaw env"
proof -
  obtain body e where "unmarshal_envelope body = Some e" "env = EnsureTimestampAt e"
    using assms by (auto simp: readFrame_def Let_def split: option.splits if_splits)
  then show "wf_envelope env" "\<not> WriteRaw env"
    using unmarshal_envelope_wf by (simp, simp add: EnsureTimestampAt_def)
qed

end
