(* ===== verification/Manager_Props.thy ===== *)
theory Manager_Props
  imports Manager Fallback_Store Go_Marshal Decode
begin

text \<open>
  The manager over its two writers. A Kafka write makes one call and leaves the files alone, so an
  envelope given to \<open>Write\<close> is either delivered or appended to the backlog; a recovery pass ends and
  moves a prefix of the rolled records to Kafka in order. A record whose replay fails has left the
  files already.
\<close>

section \<open>The Kafka writer\<close>

text \<open>One writer per topic, made for that topic; the map is there until \<open>Close\<close>.\<close>

definition kw_inv :: "KafkaWriter \<Rightarrow> bool" where
  "kw_inv k \<longleftrightarrow> (case writers k of None \<Rightarrow> False | Some ws \<Rightarrow> \<forall>(t, c) \<in> set ws. KTopic c = t)"

definition message :: "Envelope \<Rightarrow> kmessage" where
  "message env = \<lparr>Key = key_of env, Value = (if WriteRaw env then Data env else marshal_envelope env)\<rparr>"

text \<open>What Kafka gets of an envelope.\<close>

abbreviation record_message :: "Envelope \<Rightarrow> string \<times> kmessage" where
  "record_message e \<equiv> (Topic e, message (stamped e))"

definition sendable :: "Envelope \<Rightarrow> bool" where
  "sendable env \<longleftrightarrow> WriteRaw env \<or> marshal_envelope (stamped env) \<noteq> None"

text \<open>What a Kafka write leaves alone: everything but the calls, the metrics and the step counter.\<close>

definition same_disk :: "world \<Rightarrow> world \<Rightarrow> bool" where
  "same_disk w w' \<longleftrightarrow>
     dirents w' = dirents w \<and> inodes w' = inodes w \<and> next_ino w' = next_ino w \<and> fault w' = fault w \<and>
     panicked w' = panicked w \<and> clock w' = clock w \<and> kafka_err w' = kafka_err w"

lemma stamped_simps [simp]:
  "Topic (stamped e) = Topic e" "WriteRaw (stamped e) = WriteRaw e" "Data (stamped e) = Data e"
  "stamped (stamped e) = stamped e" "key_of (stamped e) = key_of e" "wf_envelope (stamped e) = wf_envelope e"
  by (simp_all add: stamped_def key_of_def selectPartitionKey_def)

lemma kw_inv_lookup: "kw_inv k \<Longrightarrow> writers k = Some ws \<Longrightarrow> map_of ws t = Some c \<Longrightarrow> KTopic c = t"
  by (auto simp: kw_inv_def dest: map_of_SomeD)

lemma writerFor_ok:
  assumes "kw_inv k"
  shows "\<exists>c k'. writerFor t k w = (c, k', w) \<and> KTopic c = t \<and> kw_inv k' \<and> brokers k' = brokers k"
proof -
  obtain ws where "writers k = Some ws"
    using assms by (auto simp: kw_inv_def split: option.splits)
  then show ?thesis
    using assms kw_inv_lookup [OF assms, of ws t]
    by (cases "map_of ws t") (auto simp: writerFor_def kw_inv_def Let_def)
qed

lemma send_message_ok:
  assumes "kw_inv k" "\<not> panicked w"
  shows "\<exists>r k' w'. send_message env body k w = (r, k', w') \<and> kw_inv k' \<and> brokers k' = brokers k \<and> same_disk w w' \<and>
    step w' = step w + 3 \<and> (r = None \<longleftrightarrow> \<not> kafka_err w (step w + 1)) \<and>
    kafka_calls w' = kafka_calls w @ [(Topic env, \<lparr>Key = key_of env, Value = body\<rparr>, r = None)]"
proof -
  obtain c k' where "writerFor (Topic env) k w = (c, k', w)" "KTopic c = Topic env" "kw_inv k'" "brokers k' = brokers k"
    using writerFor_ok [OF assms(1), of "Topic env" w] by blast
  then show ?thesis
    using assms(2) by (simp add: send_message_def time_Now_def WriteMessages_def Let_def same_disk_def tick_def)
qed

lemma kw_Write_ok:
  assumes "kw_inv k" "\<not> panicked w" "sendable env"
  shows "\<exists>r k' w'. kw_Write env k w = (r, stamped env, k', w') \<and> kw_inv k' \<and> brokers k' = brokers k \<and>
    same_disk w w' \<and> step w' = step w + 3 \<and> (r = None \<longleftrightarrow> \<not> kafka_err w (step w + 1)) \<and>
    kafka_calls w' = kafka_calls w @ [(Topic env, message (stamped env), r = None)]"
proof (cases "WriteRaw env")
  case True
  then show ?thesis
    using send_message_ok [OF assms(1,2), of env "Data env"]
    by (auto simp: kw_Write_def message_def stamped_def)
next
  case False
  then obtain body where "marshal_envelope (EnsureTimestampAt env) = Some body"
    using assms(3) by (auto simp: sendable_def stamped_def)
  then show ?thesis
    using send_message_ok [OF assms(1,2), of "EnsureTimestampAt env" "Some body"] False
    by (auto simp: kw_Write_def message_def stamped_def Let_def)
qed

text \<open>An envelope whose payload does not marshal is an error before anything is sent.\<close>

lemma kw_Write_unsendable:
  "\<not> sendable env \<Longrightarrow> kw_Write env k w = (Some ErrJson, stamped env, k, w)"
  by (auto simp: kw_Write_def sendable_def stamped_def Let_def)

section \<open>Writing through the manager\<close>

lemma same_disk_store:
  assumes "same_disk w w'"
  shows "store_inv fw w' = store_inv fw w" "pending fw w' = pending fw w" "active fw w' = active fw w"
    "backlog fw w' = backlog fw w" "readable fw w' = readable fw w" "panicked w' = panicked w"
proof -
  have w: "dirents w' = dirents w" "inodes w' = inodes w" "next_ino w' = next_ino w" "no_faults w' = no_faults w"
    "panicked w' = panicked w"
    using assms by (simp_all add: same_disk_def no_faults_def)
  have fc: "file_content w' = file_content w"
    using file_content_cong w by blast
  show "store_inv fw w' = store_inv fw w" "pending fw w' = pending fw w" "active fw w' = active fw w"
    "backlog fw w' = backlog fw w" "readable fw w' = readable fw w" "panicked w' = panicked w"
    using w fc by (simp_all add: store_inv_def readable_def pending_def active_def backlog_def active_ok_def
        newest_def wf_world_def split: option.split)
qed

text \<open>From here on every clock reading is later than the rolled files and names no existing file.\<close>

definition fresh_from :: "nat \<Rightarrow> FallbackWriter \<Rightarrow> world \<Rightarrow> bool" where
  "fresh_from n fw w \<longleftrightarrow> (\<forall>i \<ge> n. fresh fw (w\<lparr>step := i\<rparr>))"

lemma fresh_from_now: "fresh_from (step w) fw w \<Longrightarrow> fresh fw w"
  by (auto simp: fresh_from_def fresh_def newest_def)

lemma fresh_from_same:
  assumes "same_disk w w'" "fresh_from n fw w" "n \<le> step w'"
  shows "fresh fw w'"
proof -
  have "fresh fw (w\<lparr>step := step w'\<rparr>)"
    using assms(2,3) by (simp add: fresh_from_def)
  then show ?thesis
    using assms(1) by (simp add: fresh_def newest_def same_disk_def)
qed

definition m_inv :: "Manager \<Rightarrow> world \<Rightarrow> bool" where
  "m_inv m w \<longleftrightarrow> kw_inv (kafka m) \<and> store_inv (fallback m) w \<and> \<not> panicked w"

definition delivered :: "world \<Rightarrow> (string \<times> kmessage) list" where
  "delivered w = map (\<lambda>(t, msg, ok). (t, msg)) (filter (\<lambda>(t, msg, ok). ok) (kafka_calls w))"

lemma delivered_frame [simp]: "delivered (tick w) = delivered w" "delivered (metric f w) = delivered w"
  by (simp_all add: delivered_def)

text \<open>What \<open>Write\<close> needs of the envelope and of the fallback files.\<close>

definition writable :: "Envelope \<Rightarrow> Manager \<Rightarrow> world \<Rightarrow> bool" where
  "writable env m w \<longleftrightarrow>
     wf_envelope env \<and> line_fits env \<and> fresh_from (step w) (fallback m) w \<and> room (fallback m) w"

lemma wf_sendable: "wf_envelope env \<Longrightarrow> sendable env"
  using marshal_raw_ok [of "Data env"] by (auto simp: sendable_def marshal_envelope_def wf_envelope_def stamped_def)

text \<open>Whatever line the reader decodes can be sent again.\<close>

lemma decoded_sendable: "decode_line l = Some e \<Longrightarrow> sendable e"
  using wf_sendable [OF unmarshal_envelope_wf(1), of l e]
  by (auto simp: decode_line_def unmarshal_raw_record_def sendable_def split: option.splits if_splits)

lemma records_sendable: "e \<in> set (records s) \<Longrightarrow> sendable e"
  by (auto simp: records_def List.map_filter_def intro: decoded_sendable)

lemma pending_sendable: "e \<in> set (pending fw w) \<Longrightarrow> sendable e"
  by (auto simp: pending_def dest: records_sendable split: option.splits)

lemma backlog_sendable: "e \<in> set (backlog fw w) \<Longrightarrow> sendable e"
  by (auto simp: backlog_def active_def dest: pending_sendable records_sendable split: option.splits)

lemma line_fits_stamped [simp]: "line_fits (stamped env) = line_fits env"
  by (simp add: line_fits_def)

lemma writeFallback_ok:
  assumes "m_inv m w" "wf_envelope env" "line_fits env" "fresh (fallback m) w" "room (fallback m) w"
  shows "\<exists>m' w'. writeFallback env m w = (stamped env, m', w') \<and> m_inv m' w' \<and> healthy m' = healthy m \<and>
    backlog (fallback m') w' = backlog (fallback m) w @ [stored (stamped env)] \<and> kafka_calls w' = kafka_calls w"
  using fb_Write_ok [of "fallback m" w env] assms by (auto simp: writeFallback_def m_inv_def)

lemma m_Write_sent:
  assumes "m_inv m w" "sendable env" "healthy m" "\<not> kafka_err w (step w + 1)"
  shows "\<exists>m' w'. m_Write env m w = (stamped env, m', w') \<and> m_inv m' w' \<and> healthy m' \<and>
    delivered w' = delivered w @ [(Topic env, message (stamped env))] \<and>
    backlog (fallback m') w' = backlog (fallback m) w"
proof -
  obtain k w1 where kw: "kw_Write env (kafka m) w = (None, stamped env, k, w1)" "kw_inv k" "same_disk w w1"
    "kafka_calls w1 = kafka_calls w @ [(Topic env, message (stamped env), True)]"
    using kw_Write_ok [of "kafka m" w env] assms by (auto simp: m_inv_def)
  then show ?thesis
    using assms same_disk_store [OF kw(3)] by (simp add: m_Write_def m_inv_def delivered_def)
qed

text \<open>A refused Kafka write: the manager is unhealthy and the envelope goes to the files.\<close>

lemma m_Write_refused:
  assumes "m_inv m w" "sendable env" "healthy m" "kafka_err w (step w + 1)"
  shows "\<exists>m1 w1. m_Write env m w = writeFallback (stamped env) m1 w1 \<and> m_inv m1 w1 \<and> \<not> healthy m1 \<and>
    fallback m1 = fallback m \<and> same_disk w w1 \<and> step w \<le> step w1 \<and> delivered w1 = delivered w"
proof -
  obtain r k w1 where kw: "kw_Write env (kafka m) w = (r, stamped env, k, w1)" "kw_inv k" "same_disk w w1"
    "step w1 = step w + 3" "r \<noteq> None" "kafka_calls w1 = kafka_calls w @ [(Topic env, message (stamped env), False)]"
    using kw_Write_ok [of "kafka m" w env] assms by (auto simp: m_inv_def)
  then obtain e where "r = Some e"
    by auto
  moreover have "same_disk w (metric f w1)" for f
    using kw(3) by (simp add: same_disk_def)
  ultimately show ?thesis
    using assms kw same_disk_store [OF kw(3)]
    by (intro exI [of _ "set_healthy False (m\<lparr>kafka := k\<rparr>)"] exI [of _ "metric (KafkaHealthy False) w1"])
      (simp add: m_Write_def m_inv_def delivered_def set_healthy_def)
qed

lemma m_Write_ok:
  assumes inv: "m_inv m w" and ok: "writable env m w"
  shows "\<exists>m' w'. m_Write env m w = (stamped env, m', w') \<and> m_inv m' w' \<and>
    (if healthy m \<and> \<not> kafka_err w (step w + 1) then
       delivered w' = delivered w @ [(Topic env, message (stamped env))] \<and>
       backlog (fallback m') w' = backlog (fallback m) w \<and> healthy m'
     else
       delivered w' = delivered w \<and>
       backlog (fallback m') w' = backlog (fallback m) w @ [stored (stamped env)] \<and> \<not> healthy m')"
proof -
  have env: "sendable env" "wf_envelope env" "line_fits env" "room (fallback m) w" "fresh_from (step w) (fallback m) w"
    using ok wf_sendable by (auto simp: writable_def)
  consider "healthy m" "\<not> kafka_err w (step w + 1)" | "healthy m" "kafka_err w (step w + 1)" | "\<not> healthy m"
    by blast
  then show ?thesis
  proof cases
    case 1
    then show ?thesis
      using m_Write_sent [OF inv env(1)] by auto
  next
    case 2
    then obtain m1 w1 where w1: "m_Write env m w = writeFallback (stamped env) m1 w1" "m_inv m1 w1" "\<not> healthy m1"
      "fallback m1 = fallback m" "same_disk w w1" "step w \<le> step w1" "delivered w1 = delivered w"
      using m_Write_refused [OF inv env(1)] by blast
    have "fresh (fallback m1) w1" "room (fallback m1) w1"
      using fresh_from_same [OF w1(5) env(5) w1(6)] env(4) w1(4-6) by (simp_all add: room_def same_disk_def)
    then show ?thesis
      using writeFallback_ok [OF w1(2), of "stamped env"] env 2 w1 same_disk_store [OF w1(5)]
      by (auto simp: delivered_def)
  next
    case 3
    then show ?thesis
      using writeFallback_ok [OF inv env(2,3) fresh_from_now [OF env(5)] env(4)] by (auto simp: m_Write_def delivered_def)
  qed
qed

section \<open>Replaying gives the same message\<close>

text \<open>A bare payload is sent byte for byte the first time and compacted when it is replayed.\<close>

definition replayable :: "Envelope \<Rightarrow> bool" where
  "replayable env \<longleftrightarrow> (WriteRaw env \<longrightarrow> marshal_raw (Data env) = Data env)"

lemma stored_message:
  assumes "wf_envelope env" "replayable env"
  shows "message (stamped (stored (stamped env))) = message (stamped env)"
    "Topic (stored (stamped env)) = Topic env" "sendable (stored (stamped env))"
proof -
  obtain t where t: "marshal_raw (Data env) = Some t"
    using marshal_raw_ok [of "Data env"] assms(1) by (auto simp: wf_envelope_def)
  have "marshal_envelope (e\<lparr>Data := Some t\<rparr>) = marshal_envelope e" if "Data e = Data env" for e
    using that t marshal_raw_idem [OF t] by (simp add: marshal_envelope_def envelope_members_def)
  moreover have "stamped ((stamped env)\<lparr>Data := Some t\<rparr>) = (stamped env)\<lparr>Data := Some t\<rparr>"
    by (simp add: stamped_def EnsureTimestampAt_def)
  ultimately show "message (stamped (stored (stamped env))) = message (stamped env)"
    "Topic (stored (stamped env)) = Topic env" "sendable (stored (stamped env))"
    using t assms(2) marshal_raw_idem [OF t]
    by (auto simp: replayable_def stored_def message_def sendable_def marshal_envelope_def key_of_def selectPartitionKey_def stamped_def)
qed

section \<open>Replaying\<close>

text \<open>
  What a run of the replay does: it takes records from the front of the rolled files in order and
  sends each; all of them are delivered but possibly the last, and if that one fails it is gone from
  the files.
\<close>

definition replayed :: "Manager \<Rightarrow> world \<Rightarrow> Manager \<Rightarrow> world \<Rightarrow> nat \<Rightarrow> bool \<Rightarrow> bool" where
  "replayed m w m' w' n failed \<longleftrightarrow>
     n \<le> length (pending (fallback m) w) \<and> (failed \<longrightarrow> 0 < n) \<and>
     pending (fallback m') w' = drop n (pending (fallback m) w) \<and>
     active (fallback m') w' = active (fallback m) w \<and>
     delivered w' = delivered w @
       map (\<lambda>e. (Topic e, message (stamped e)))
         (take (if failed then n - 1 else n) (pending (fallback m) w)) \<and>
     m_inv m' w'"

lemma replayed_zero: "m_inv m w \<Longrightarrow> m_inv m' w' \<Longrightarrow> pending (fallback m') w' = pending (fallback m) w \<Longrightarrow>
    active (fallback m') w' = active (fallback m) w \<Longrightarrow> delivered w' = delivered w \<Longrightarrow> replayed m w m' w' 0 False"
  by (simp add: replayed_def)

lemma replayed_step:
  assumes "pending (fallback m) w = e # es" "pending (fallback m1) w1 = es"
    "active (fallback m1) w1 = active (fallback m) w"
    "delivered w1 = delivered w @ [(Topic e, message (stamped e))]" "replayed m1 w1 m' w' n failed"
  shows "replayed m w m' w' (Suc n) failed"
proof -
  have "take (if failed then Suc n - 1 else Suc n) (e # es) = e # take (if failed then n - 1 else n) es"
    using assms(5) by (cases n) (auto simp: replayed_def)
  then show ?thesis
    using assms by (simp add: replayed_def)
qed

lemma replayed_fail:
  assumes "pending (fallback m) w = e # es" "pending (fallback m') w' = es"
    "active (fallback m') w' = active (fallback m) w" "delivered w' = delivered w" "m_inv m' w'"
  shows "replayed m w m' w' 1 True"
  using assms by (simp add: replayed_def)

text \<open>One turn: \<open>Peek\<close> and the Kafka write of what it returned.\<close>

lemma peek_and_send:
  assumes inv: "m_inv m w" and pend: "pending (fallback m) w = e # es"
  shows "\<exists>rec fw w1 r k w2. Peek (fallback m) w = Some (Some rec, fw, w1) \<and> Env rec = e \<and>
    kw_Write e (kafka m) w1 = (r, stamped e, k, w2) \<and> kw_inv k \<and> store_inv fw w2 \<and> \<not> panicked w2 \<and>
    pending fw w2 = es \<and> active fw w2 = active (fallback m) w \<and>
    delivered w2 = delivered w @ (if r = None then [(Topic e, message (stamped e))] else []) \<and>
    (\<exists>i. (r = None) = (\<not> kafka_err w i)) \<and> kafka_err w2 = kafka_err w \<and> clock w2 = clock w"
proof -
  obtain rec fw w1 where P: "Peek (fallback m) w = Some (Some rec, fw, w1)" "store_inv fw w1"
    "peek_frame (fallback m) w fw w1" "Env rec = e" "pending fw w1 = es" "active fw w1 = active (fallback m) w"
    using Peek_store [of "fallback m" w] inv pend by (auto simp: m_inv_def)
  have pre: "kw_inv (kafka m)" "\<not> panicked w1" "sendable e"
    using inv pend P(3) pending_sendable [of e "fallback m" w] by (auto simp: m_inv_def peek_frame_def)
  obtain r k w2 where K: "kw_Write e (kafka m) w1 = (r, stamped e, k, w2)" "kw_inv k" "same_disk w1 w2"
    "r = None \<longleftrightarrow> \<not> kafka_err w1 (step w1 + 1)" "kafka_calls w2 = kafka_calls w1 @ [(Topic e, message (stamped e), r = None)]"
    using kw_Write_ok [OF pre] by blast
  have fr: "kafka_calls w1 = kafka_calls w" "kafka_err w1 = kafka_err w" "clock w1 = clock w"
    using P(3) by (simp_all add: peek_frame_def)
  have err: "\<exists>i. (r = None) = (\<not> kafka_err w i)" "kafka_err w2 = kafka_err w" "clock w2 = clock w"
    using K(3,4) fr by (auto simp: same_disk_def)
  show ?thesis
    using P(1,4) K(1,2) same_disk_store [OF K(3)] P(2,5,6) pre(2) K(5) fr(1) err by (simp add: delivered_def)
qed

lemma peek_nothing:
  assumes inv: "m_inv m w" and pend: "pending (fallback m) w = []"
  shows "\<exists>fw w1. Peek (fallback m) w = Some (None, fw, w1) \<and> store_inv fw w1 \<and> \<not> panicked w1 \<and>
    pending fw w1 = [] \<and> active fw w1 = active (fallback m) w \<and> delivered w1 = delivered w"
  using Peek_store [of "fallback m" w] inv pend by (auto simp: m_inv_def peek_frame_def delivered_def)

text \<open>The turns of the drain loop: the deadline, nothing left, a record sent, a record refused.\<close>

lemma drain_late: "\<not> clock w (step w) < deadline \<Longrightarrow> drain deadline m w = Some (m, tick w)"
  by (simp add: drain.simps [of deadline m w] time_Now_def)

lemma drain_empty:
  assumes "clock w (step w) < deadline" "m_inv m w" "pending (fallback m) w = []"
  shows "\<exists>m' w'. drain deadline m w = Some (m', w') \<and> replayed m w m' w' 0 False \<and> healthy m' = healthy m"
proof -
  have "m_inv m (tick w)" "pending (fallback m) (tick w) = []"
    using assms by (simp_all add: m_inv_def)
  then obtain fw w2 where P: "Peek (fallback m) (tick w) = Some (None, fw, w2)" "store_inv fw w2" "\<not> panicked w2"
    "pending fw w2 = []" "active fw w2 = active (fallback m) w" "delivered w2 = delivered w"
    using peek_nothing [of m "tick w"] by (auto simp: delivered_def)
  then have "drain deadline m w = Some (m\<lparr>fallback := fw\<rparr>, w2)"
    using assms(1) by (simp add: drain.simps [of deadline m w] time_Now_def)
  moreover have "replayed m w (m\<lparr>fallback := fw\<rparr>) w2 0 False"
    using P assms by (intro replayed_zero) (simp_all add: m_inv_def)
  ultimately show ?thesis
    by simp
qed

lemma drain_turn:
  assumes "clock w (step w) < deadline" "m_inv m w" "pending (fallback m) w = e # es"
  shows "\<exists>m1 w1. m_inv m1 w1 \<and> pending (fallback m1) w1 = es \<and> active (fallback m1) w1 = active (fallback m) w \<and>
    kafka_err w1 = kafka_err w \<and> clock w1 = clock w \<and>
    (drain deadline m w = drain deadline m1 w1 \<and> healthy m1 = healthy m \<and> delivered w1 = delivered w @ [record_message e] \<or>
     drain deadline m w = Some (m1, w1) \<and> \<not> healthy m1 \<and> delivered w1 = delivered w \<and> (\<exists>i. kafka_err w i))"
proof -
  have w1: "m_inv m (tick w)" "pending (fallback m) (tick w) = e # es"
    using assms by (simp_all add: m_inv_def)
  obtain rec fw w2 r k w3 where P: "Peek (fallback m) (tick w) = Some (Some rec, fw, w2)" "Env rec = e"
    "kw_Write e (kafka m) w2 = (r, stamped e, k, w3)" "kw_inv k" "store_inv fw w3" "\<not> panicked w3"
    "pending fw w3 = es" "active fw w3 = active (fallback m) w"
    "delivered w3 = delivered w @ (if r = None then [record_message e] else [])"
    "\<exists>i. (r = None) = (\<not> kafka_err w i)" "kafka_err w3 = kafka_err w" "clock w3 = clock w"
    using peek_and_send [OF w1] unfolding delivered_frame tick_outside pending_tick(2) by blast
  note drain = drain.simps [of deadline m w]
  show ?thesis
  proof (cases r)
    case None
    then show ?thesis
      using assms(1) P
      by (intro exI [of _ "m\<lparr>fallback := fw, kafka := k\<rparr>"] exI [of _ "metric (FallbackReplay ''success'') w3"])
        (simp add: drain time_Now_def Ack_def m_inv_def)
  next
    case (Some err)
    then show ?thesis
      using assms(1) P
      by (intro exI [of _ "set_healthy False (m\<lparr>fallback := fw, kafka := k\<rparr>)"]
          exI [of _ "metric (KafkaHealthy False) (metric (FallbackReplay ''error'') w3)"])
        (simp add: drain time_Now_def m_inv_def set_healthy_def)
  qed
qed

lemma drain_ok:
  assumes "m_inv m w"
  shows "\<exists>m' w' n failed. drain deadline m w = Some (m', w') \<and> replayed m w m' w' n failed \<and>
    healthy m' = (healthy m \<and> \<not> failed) \<and> ((\<forall>i. \<not> kafka_err w i) \<longrightarrow> \<not> failed) \<and>
    ((\<forall>i. clock w i < deadline) \<longrightarrow> failed \<or> n = length (pending (fallback m) w))"
  using assms
proof (induction "pending (fallback m) w" arbitrary: m w)
  case Nil
  then show ?case
    using drain_empty [OF _ Nil(2)] drain_late [of w deadline m] replayed_zero [OF Nil(2), of m "tick w"]
    by (cases "clock w (step w) < deadline") (fastforce simp: m_inv_def)+
next
  case (Cons e es)
  note pend = Cons.hyps(2) [symmetric]
  show ?case
  proof (cases "clock w (step w) < deadline")
    case False
    then show ?thesis
      using drain_late [of w deadline m] replayed_zero [OF Cons.prems, of m "tick w"] Cons.prems by (auto simp: m_inv_def)
  next
    case True
    then obtain m1 w1 where one: "m_inv m1 w1" "pending (fallback m1) w1 = es" "active (fallback m1) w1 = active (fallback m) w"
      "kafka_err w1 = kafka_err w" "clock w1 = clock w" and
      "drain deadline m w = drain deadline m1 w1 \<and> healthy m1 = healthy m \<and> delivered w1 = delivered w @ [record_message e] \<or>
       drain deadline m w = Some (m1, w1) \<and> \<not> healthy m1 \<and> delivered w1 = delivered w \<and> (\<exists>i. kafka_err w i)"
      using drain_turn [OF True Cons.prems pend] by blast
    from this(6) show ?thesis
    proof
      assume sent: "drain deadline m w = drain deadline m1 w1 \<and> healthy m1 = healthy m \<and>
        delivered w1 = delivered w @ [record_message e]"
      obtain m' w' n failed where D: "drain deadline m1 w1 = Some (m', w')"
        "replayed m1 w1 m' w' n failed" "healthy m' = (healthy m1 \<and> \<not> failed)" "(\<forall>i. \<not> kafka_err w1 i) \<longrightarrow> \<not> failed"
        "(\<forall>i. clock w1 i < deadline) \<longrightarrow> failed \<or> n = length (pending (fallback m1) w1)"
        using Cons.hyps(1) [OF one(2) [symmetric] one(1)] by blast
      then show ?thesis
        using replayed_step [OF pend one(2,3) _ D(2)] sent one pend
        by (intro exI [of _ m'] exI [of _ w'] exI [of _ "Suc n"] exI [of _ failed]) simp
    qed (use replayed_fail [OF pend one(2,3) _ one(1)] in auto)
  qed
qed

lemma tryRecover_empty:
  assumes "m_inv m w" "pending (fallback m) w = []"
  shows "\<exists>m' w'. tryRecover up m w = Some (m', w') \<and> replayed m w m' w' 0 False \<and>
    healthy m' = (healthy m \<or> Probe up (kafka m) = None)"
proof -
  obtain fw w1 where P: "Peek (fallback m) w = Some (None, fw, w1)" "store_inv fw w1" "\<not> panicked w1"
    "pending fw w1 = []" "active fw w1 = active (fallback m) w" "delivered w1 = delivered w"
    using peek_nothing [OF assms] by blast
  have "replayed m w (m\<lparr>fallback := fw\<rparr>) w1 0 False"
    "replayed m w (set_healthy True (m\<lparr>fallback := fw\<rparr>)) (metric (KafkaHealthy True) w1) 0 False"
    using P assms by (auto intro!: replayed_zero simp: m_inv_def set_healthy_def delivered_def)
  then show ?thesis
    using P(1) by (cases "Probe up (kafka m)") (auto simp: tryRecover_def probe_health_def set_healthy_def)
qed

lemma tryRecover_turn:
  assumes "m_inv m w" "pending (fallback m) w = e # es"
  shows "\<exists>m1 w1 i. m_inv m1 w1 \<and> pending (fallback m1) w1 = es \<and> active (fallback m1) w1 = active (fallback m) w \<and>
    kafka_err w1 = kafka_err w \<and> clock w1 = clock w \<and>
    (\<not> kafka_err w i \<and> healthy m1 \<and> delivered w1 = delivered w @ [record_message e] \<and>
       (\<exists>j. tryRecover up m w = drain (clock w j + (recoveryInterval - 2 * second)) m1 w1) \<or>
     kafka_err w i \<and> healthy m1 = healthy m \<and> delivered w1 = delivered w \<and> tryRecover up m w = Some (m1, w1))"
proof -
  obtain rec fw w1 r k w2 where P: "Peek (fallback m) w = Some (Some rec, fw, w1)" "Env rec = e"
    "kw_Write e (kafka m) w1 = (r, stamped e, k, w2)" "kw_inv k" "store_inv fw w2" "\<not> panicked w2"
    "pending fw w2 = es" "active fw w2 = active (fallback m) w"
    "delivered w2 = delivered w @ (if r = None then [record_message e] else [])"
    "\<exists>i. (r = None) = (\<not> kafka_err w i)" "kafka_err w2 = kafka_err w" "clock w2 = clock w"
    using peek_and_send [OF assms] by blast
  obtain i where i: "(r = None) = (\<not> kafka_err w i)"
    using P(10) by blast
  show ?thesis
  proof (cases r)
    case (Some err)
    then show ?thesis
      using P i by (intro exI [of _ "m\<lparr>fallback := fw, kafka := k\<rparr>"] exI [of _ "metric (FallbackReplay ''error'') w2"] exI [of _ i])
        (simp add: tryRecover_def m_inv_def)
  next
    case None
    define w3 where "w3 = metric (KafkaHealthy True) (metric (FallbackReplay ''success'') w2)"
    have "tryRecover up m w = drain (clock w (step w3) + (recoveryInterval - 2 * second))
        (set_healthy True (m\<lparr>fallback := fw, kafka := k\<rparr>)) (tick w3)"
      using P None by (simp add: tryRecover_def time_Now_def w3_def Ack_def)
    then show ?thesis
      using P None i by (intro exI [of _ "set_healthy True (m\<lparr>fallback := fw, kafka := k\<rparr>)"] exI [of _ "tick w3"] exI [of _ i])
        (auto simp: m_inv_def set_healthy_def w3_def)
  qed
qed

lemma tryRecover_replay:
  assumes inv: "m_inv m w" and pend: "pending (fallback m) w = e # es"
  shows "\<exists>m' w' n failed. tryRecover up m w = Some (m', w') \<and> replayed m w m' w' n failed \<and> 0 < n \<and>
    healthy m' = (if failed \<and> n = 1 then healthy m else \<not> failed) \<and>
    ((\<forall>i. \<not> kafka_err w i) \<longrightarrow> \<not> failed) \<and> ((\<forall>i. kafka_err w i) \<longrightarrow> failed \<and> n = 1) \<and>
    ((\<forall>i j. clock w j < clock w i + (recoveryInterval - 2 * second)) \<longrightarrow> failed \<or> n = length (pending (fallback m) w))"
proof -
  obtain m1 w1 i where one: "m_inv m1 w1" "pending (fallback m1) w1 = es" "active (fallback m1) w1 = active (fallback m) w"
    "kafka_err w1 = kafka_err w" "clock w1 = clock w" and
    "\<not> kafka_err w i \<and> healthy m1 \<and> delivered w1 = delivered w @ [record_message e] \<and>
       (\<exists>j. tryRecover up m w = drain (clock w j + (recoveryInterval - 2 * second)) m1 w1) \<or>
     kafka_err w i \<and> healthy m1 = healthy m \<and> delivered w1 = delivered w \<and> tryRecover up m w = Some (m1, w1)"
    using tryRecover_turn [OF assms] by blast
  from this(6) show ?thesis
  proof
    assume "kafka_err w i \<and> healthy m1 = healthy m \<and> delivered w1 = delivered w \<and> tryRecover up m w = Some (m1, w1)"
    then show ?thesis
      using replayed_fail [OF pend one(2,3) _ one(1)] by auto
  next
    assume "\<not> kafka_err w i \<and> healthy m1 \<and> delivered w1 = delivered w @ [record_message e] \<and>
       (\<exists>j. tryRecover up m w = drain (clock w j + (recoveryInterval - 2 * second)) m1 w1)"
    then obtain j where j: "\<not> kafka_err w i" "healthy m1" "delivered w1 = delivered w @ [record_message e]"
      "tryRecover up m w = drain (clock w j + (recoveryInterval - 2 * second)) m1 w1"
      by blast
    obtain m' w' n failed where D: "tryRecover up m w = Some (m', w')"
      "replayed m1 w1 m' w' n failed" "healthy m' = (healthy m1 \<and> \<not> failed)" "(\<forall>i. \<not> kafka_err w1 i) \<longrightarrow> \<not> failed"
      "(\<forall>i. clock w1 i < clock w j + (recoveryInterval - 2 * second)) \<longrightarrow> failed \<or> n = length (pending (fallback m1) w1)"
      using drain_ok [OF one(1)] j(4) by metis
    moreover have "failed \<longrightarrow> 0 < n"
      using D(2) by (simp add: replayed_def)
    ultimately show ?thesis
      using replayed_step [OF pend one(2,3) j(3) D(2)] j(1,2) one pend
      by (intro exI [of _ m'] exI [of _ w'] exI [of _ "Suc n"] exI [of _ failed]) auto
  qed
qed

text \<open>A recovery pass moves records from the files to Kafka; at most one of them is on neither side afterwards.\<close>

lemma replayed_accounts:
  assumes "replayed m w m' w' n failed"
  shows "\<exists>lost. length lost \<le> 1 \<and> set (backlog (fallback m') w') \<subseteq> set (backlog (fallback m) w) \<and>
    mset (delivered w') + mset (map record_message (backlog (fallback m') w')) + mset lost =
    mset (delivered w) + mset (map record_message (backlog (fallback m) w))"
proof -
  define ps k where "ps = pending (fallback m) w" and "k = (if failed then n - 1 else n)"
  have n: "n \<le> length ps" "failed \<longrightarrow> 0 < n"
    and st: "pending (fallback m') w' = drop n ps" "active (fallback m') w' = active (fallback m) w"
      "delivered w' = delivered w @ map record_message (take k ps)"
    using assms by (auto simp: replayed_def ps_def k_def)
  define lost where "lost = map record_message (drop k (take n ps))"
  have "take k ps @ drop k (take n ps) = take n ps"
    using append_take_drop_id [of k "take n ps"] by (simp add: k_def min_def split: if_splits)
  then have "ps = take k ps @ drop k (take n ps) @ drop n ps"
    using append_take_drop_id [of n ps] by (simp only: append_assoc [symmetric])
  then have "mset (map record_message ps) = mset (map record_message (take k ps @ drop k (take n ps) @ drop n ps))"
    by simp
  moreover have "length lost \<le> 1"
    using n by (auto simp: lost_def k_def)
  moreover have "set (backlog (fallback m') w') \<subseteq> set (backlog (fallback m) w)"
    using set_drop_subset [of n ps] by (auto simp: backlog_def st ps_def)
  ultimately show ?thesis
    by (intro exI [of _ lost]) (simp add: backlog_def st lost_def flip: ps_def)
qed

lemma recovery_tick_accounts:
  assumes "m_inv m w"
  shows "\<exists>m' w' lost. recovery_tick up m w = Some (m', w') \<and> m_inv m' w' \<and> length lost \<le> 1 \<and>
    set (backlog (fallback m') w') \<subseteq> set (backlog (fallback m) w) \<and>
    mset (delivered w') + mset (map record_message (backlog (fallback m') w')) + mset lost =
    mset (delivered w) + mset (map record_message (backlog (fallback m) w))"
proof (cases "stopped m \<or> healthy m")
  case True
  then show ?thesis
    using assms by (intro exI [of _ m] exI [of _ w] exI [of _ "[]"]) (simp add: recovery_tick_def)
next
  case False
  obtain m' w' n failed where "tryRecover up m w = Some (m', w')" "replayed m w m' w' n failed"
    using tryRecover_empty [OF assms, of up] tryRecover_replay [OF assms, of _ _ up]
    by (cases "pending (fallback m) w") blast+
  moreover from this(2) have "m_inv m' w'"
    by (simp add: replayed_def)
  ultimately show ?thesis
    using replayed_accounts [of m w m' w' n failed] False by (auto simp: recovery_tick_def)
qed

end
