(* ===== verification/State_Machine.thy ===== *)
theory State_Machine
  imports Prelude
begin

text \<open>
  Interleaved components as machines: an action either applies to a state and gives the next one, or
  does not apply there. Reachability and runs are defined once; the locales hold what every such
  component uses: an invariant that all actions keep holds in all reachable states, and actions that
  decrease a measure and are never stuck before the goal reach the goal in every maximal run.
\<close>

inductive reach :: "('a \<Rightarrow> 's \<Rightarrow> 's option) \<Rightarrow> 's \<Rightarrow> 's \<Rightarrow> bool" for ex s0 where
  reach_init: "reach ex s0 s0"
| reach_step: "reach ex s0 s \<Longrightarrow> ex a s = Some s' \<Longrightarrow> reach ex s0 s'"

inductive_simps reach_iff: "reach ex s0 s"

fun run :: "('a \<Rightarrow> 's \<Rightarrow> 's option) \<Rightarrow> 'a list \<Rightarrow> 's \<Rightarrow> 's option" where
  "run ex [] s = Some s"
| "run ex (a # as) s = (case ex a s of None \<Rightarrow> None | Some s1 \<Rightarrow> run ex as s1)"

lemma run_append: "run ex (as @ bs) s = (case run ex as s of None \<Rightarrow> None | Some s1 \<Rightarrow> run ex bs s1)"
  by (induction as arbitrary: s) (auto split: option.splits)

lemma reach_run: "reach ex s0 s \<Longrightarrow> run ex as s = Some s' \<Longrightarrow> reach ex s0 s'"
  by (induction as arbitrary: s) (auto split: option.splits intro: reach_step)

lemma reach_iff_run: "reach ex s0 s \<longleftrightarrow> (\<exists>as. run ex as s0 = Some s)"
proof
  show "reach ex s0 s \<Longrightarrow> \<exists>as. run ex as s0 = Some s"
  proof (induction rule: reach.induct)
    case reach_init
    have "run ex [] s0 = Some s0"
      by simp
    then show ?case ..
  next
    case (reach_step s a s')
    then obtain as where "run ex as s0 = Some s"
      by blast
    then have "run ex (as @ [a]) s0 = Some s'"
      using reach_step.hyps(2) by (simp add: run_append)
    then show ?case ..
  qed
qed (blast intro: reach_run reach_init)

locale invariant_machine =
  fixes ex :: "'a \<Rightarrow> 's \<Rightarrow> 's option"
    and inv :: "'s \<Rightarrow> bool"
  assumes keeps: "inv s \<Longrightarrow> ex a s = Some s' \<Longrightarrow> inv s'"
begin

lemma inv_reach: "reach ex s0 s \<Longrightarrow> inv s0 \<Longrightarrow> inv s"
  by (induction rule: reach.induct) (auto intro: keeps)

lemma inv_run: "run ex as s = Some s' \<Longrightarrow> inv s \<Longrightarrow> inv s'"
  by (induction as arbitrary: s) (auto split: option.splits intro: keeps)

end

locale ending_machine = invariant_machine +
  fixes own :: "'a \<Rightarrow> bool"
    and goal :: "'s \<Rightarrow> bool"
    and work :: "'s \<Rightarrow> nat"
  assumes decreases: "inv s \<Longrightarrow> own a \<Longrightarrow> ex a s = Some s' \<Longrightarrow> work s' < work s"
    and progress: "inv s \<Longrightarrow> \<not> goal s \<Longrightarrow> \<exists>a s'. own a \<and> ex a s = Some s'"
begin

lemma run_bounded:
  "inv s \<Longrightarrow> run ex as s = Some s' \<Longrightarrow> \<forall>a \<in> set as. own a \<Longrightarrow> length as + work s' \<le> work s"
proof (induction as arbitrary: s)
  case (Cons a as)
  then obtain s1 where "ex a s = Some s1" "run ex as s1 = Some s'"
    by (auto split: option.splits)
  then show ?case
    using Cons.IH [OF keeps [OF Cons.prems(1)]] Cons.prems(1,3) decreases [of s a s1] by fastforce
qed simp

lemma run_to_goal: "inv s \<Longrightarrow> \<exists>as s'. run ex as s = Some s' \<and> (\<forall>a \<in> set as. own a) \<and> goal s'"
proof (induction "work s" arbitrary: s rule: less_induct)
  case less
  show ?case
  proof (cases "goal s")
    case True
    then have "run ex [] s = Some s \<and> (\<forall>a \<in> set []. own a) \<and> goal s"
      by simp
    then show ?thesis
      by blast
  next
    case False
    then obtain a s1 where a: "own a" "ex a s = Some s1"
      using progress less.prems by blast
    obtain as s' where "run ex as s1 = Some s'" "\<forall>a \<in> set as. own a" "goal s'"
      using less.hyps [OF decreases [OF less.prems a] keeps [OF less.prems a(2)]] by blast
    then have "run ex (a # as) s = Some s' \<and> (\<forall>b \<in> set (a # as). own b) \<and> goal s'"
      using a by simp
    then show ?thesis
      by blast
  qed
qed

end

end
