(* ===== verification/Handlers_Props.thy ===== *)
theory Handlers_Props
  imports Handlers Manager_Props State_Machine
begin

text \<open>
  What dispatching does, stated without the registry: \<open>routed\<close> is the envelope that is written for a
  given one, if any. The writer behind the handlers is an interface, \<open>envelope_writer\<close>: it keeps each
  envelope it is given, sent or stored; the manager implements it.
\<close>

section \<open>Routing as a table\<close>

definition strings_of :: "string list \<Rightarrow> Envelope \<Rightarrow> string list option" where
  "strings_of fs env =
     (case payload_members env of
        None \<Rightarrow> None
      | Some ms \<Rightarrow>
          (let vs = map (\<lambda>f. get_string f ms []) fs in
           if None \<in> set vs then None else Some (map the vs)))"

definition raw_topics :: "string set" where
  "raw_topics = {TopicAppEvent, TopicSysEvent, TopicExpAssignment}"

definition routed :: "Envelope \<Rightarrow> Envelope option" where
  "routed env =
     (if Topic env = TopicAppLogs then
        (case strings_of [''level'', ''message''] env of
           Some [lvl, msg] \<Rightarrow>
             if lvl = [] \<or> msg = [] then None
             else map_option (\<lambda>t. env\<lparr>Topic := t\<rparr>) (levelTopic lvl)
         | _ \<Rightarrow> None)
      else if Topic env = TopicRPCCalls then
        (case strings_of [''caller'', ''callee'', ''method''] env of
           Some vs \<Rightarrow> if [] \<in> set vs then None else Some env
         | None \<Rightarrow> None)
      else if Topic env \<in> raw_topics then Some (env\<lparr>WriteRaw := True\<rparr>)
      else Some env)"

definition known_topics :: "string list" where
  "known_topics = map Handler_Topic
     [app_log, app_message, event, exp_assignment_message, inbound_http, outbound_http, rpc, sys_message]"

section \<open>The registry after start-up\<close>

definition the_registry :: registry where
  "the_registry = rev (map (\<lambda>h. (Handler_Topic h, h))
     [app_log, app_message, event, exp_assignment_message, inbound_http, outbound_http, rpc, sys_message])"

lemma init_handlers_eq: "init_handlers = Some the_registry"
  by (simp add: init_handlers_def init_defs the_registry_def Register_def topic_defs)

lemma Lookup_Topic: "Lookup t the_registry = Some h \<longleftrightarrow> t = Handler_Topic h"
  by (cases h) (auto simp: Lookup_def the_registry_def topic_defs split: if_splits)

lemma Lookup_None: "Lookup t the_registry = None \<longleftrightarrow> t \<notin> set known_topics"
  by (auto simp: Lookup_def the_registry_def known_topics_def map_of_eq_None_iff)

section \<open>Handlers follow the table\<close>

lemma app_log_routed:
  assumes "Topic env = TopicAppLogs"
  shows "\<exists>e. app_log_Handle fn env g =
    (case routed env of None \<Rightarrow> (Some e, env, g) | Some env1 \<Rightarrow> ok_write fn env1 g)"
  using assms
  by (auto simp: app_log_Handle_def routed_def strings_of_def Let_def split: option.splits)

lemma rpc_routed:
  assumes "Topic env = TopicRPCCalls"
  shows "\<exists>e. rpc_Handle fn env g =
    (case routed env of None \<Rightarrow> (Some e, env, g) | Some env1 \<Rightarrow> ok_write fn env1 g)"
proof -
  have "TopicRPCCalls \<noteq> TopicAppLogs"
    by (simp add: topic_defs)
  then show ?thesis
    using assms by (auto simp: rpc_Handle_def routed_def strings_of_def Let_def split: option.splits)
qed

lemma Handle_routed:
  assumes "Topic env = Handler_Topic h"
  shows "\<exists>e. Handle fn h env g =
    (case routed env of None \<Rightarrow> (Some e, env, g) | Some env1 \<Rightarrow> ok_write fn env1 g)"
proof (cases h)
  case app_log
  then show ?thesis
    using assms app_log_routed by simp
next
  case rpc
  then show ?thesis
    using assms rpc_routed by simp
qed (use assms in \<open>simp_all add: plain_Handle_defs routed_def raw_topics_def topic_defs\<close>)

lemma routed_unknown: "Topic env \<notin> set known_topics \<Longrightarrow> routed env = Some env"
  by (auto simp: routed_def known_topics_def raw_topics_def)

lemma dispatch_routed:
  "dispatch the_registry (Some f) env g =
     (case routed env of
        None \<Rightarrow> observe (Topic env) ''invalid'' g
      | Some env1 \<Rightarrow>
          (case f env1 g of (env2, g1) \<Rightarrow>
             observe (Topic env2) (if Topic env \<in> set known_topics then ''handled'' else ''passthrough'') g1))"
proof (cases "Lookup (Topic env) the_registry")
  case None
  then have "Topic env \<notin> set known_topics"
    using Lookup_None by blast
  then show ?thesis
    using None routed_unknown [of env]
    by (simp add: dispatch_def passthrough_Handle_def ok_write_def adapter_Write_def split: prod.split)
next
  case (Some h)
  then have h: "Topic env = Handler_Topic h" "Topic env \<in> set known_topics"
    using Lookup_Topic [of "Topic env" h] Lookup_None [of "Topic env"] by auto
  obtain e where "Handle (Some f) h env g =
      (case routed env of None \<Rightarrow> (Some e, env, g) | Some env1 \<Rightarrow> ok_write (Some f) env1 g)"
    using Handle_routed [OF h(1)] by blast
  then show ?thesis
    using Some h(2) by (auto simp: dispatch_def ok_write_def adapter_Write_def split: option.split prod.split)
qed


section \<open>What happens to the writer\<close>

text \<open>
  The writer sees envelopes the workers dispatch and, between them, attempts to deliver again what it
  keeps; both change the shared state.
\<close>

datatype 't event = Dispatched Envelope | Retried 't

fun happen :: "write_func \<Rightarrow> ('t \<Rightarrow> gateway \<Rightarrow> gateway option) \<Rightarrow> 't event \<Rightarrow> gateway \<Rightarrow> gateway option" where
  "happen f retry (Dispatched env) g = Some (dispatch the_registry (Some f) env g)"
| "happen f retry (Retried t) g = retry t g"

definition dispatched :: "'t event list \<Rightarrow> Envelope list" where
  "dispatched evs = List.map_filter (\<lambda>ev. case ev of Dispatched env \<Rightarrow> Some env | Retried t \<Rightarrow> None) evs"

definition retries :: "'t event list \<Rightarrow> nat" where
  "retries evs = length (filter (\<lambda>ev. \<exists>t. ev = Retried t) evs)"

lemma event_simps [simp]:
  "dispatched [] = []" "dispatched (Dispatched env # evs) = env # dispatched evs"
  "dispatched (Retried t # evs) = dispatched evs" "dispatched (evs @ evs') = dispatched evs @ dispatched evs'"
  "retries [] = 0" "retries (Dispatched env # evs) = retries evs" "retries (Retried t # evs) = Suc (retries evs)"
  by (simp_all add: dispatched_def retries_def List.map_filter_def)

text \<open>Each write of the sequence finds the writer ready for it.\<close>

fun all_fit :: "(Envelope \<Rightarrow> gateway \<Rightarrow> bool) \<Rightarrow> write_func \<Rightarrow> ('t \<Rightarrow> gateway \<Rightarrow> gateway option) \<Rightarrow> 't event list \<Rightarrow>
    gateway \<Rightarrow> bool" where
  "all_fit ok f retry [] g = True"
| "all_fit ok f retry (Dispatched env # evs) g =
     ((case routed env of None \<Rightarrow> True | Some env1 \<Rightarrow> ok env1 g) \<and>
      all_fit ok f retry evs (dispatch the_registry (Some f) env g))"
| "all_fit ok f retry (Retried t # evs) g =
     (case retry t g of None \<Rightarrow> True | Some g1 \<Rightarrow> all_fit ok f retry evs g1)"

section \<open>The writer interface\<close>

text \<open>
  What the handlers rely on: an envelope that fits is either sent, as the last message, or kept, as
  the last record, and recording a metric changes neither.
\<close>

locale envelope_writer =
  fixes good :: "gateway \<Rightarrow> bool"
    and fits :: "Envelope \<Rightarrow> gateway \<Rightarrow> bool"
    and sent :: "gateway \<Rightarrow> 'm list"
    and kept :: "gateway \<Rightarrow> 'r list"
    and msg :: "Envelope \<Rightarrow> 'm"
    and rcd :: "Envelope \<Rightarrow> 'r"
    and put :: write_func
  assumes put_law: "good g \<Longrightarrow> fits env g \<Longrightarrow> good (snd (put env g)) \<and>
      (sent (snd (put env g)) = sent g @ [msg env] \<and> kept (snd (put env g)) = kept g \<or>
       sent (snd (put env g)) = sent g \<and> kept (snd (put env g)) = kept g @ [rcd env])"
    and observe_law: "good (observe t out g) = good g" "sent (observe t out g) = sent g"
      "kept (observe t out g) = kept g"
begin

lemma dispatch_one:
  assumes "good g" "routed env = Some env1" "fits env1 g"
  shows "good (dispatch the_registry (Some put) env g) \<and>
    (sent (dispatch the_registry (Some put) env g) = sent g @ [msg env1] \<and>
       kept (dispatch the_registry (Some put) env g) = kept g \<or>
     sent (dispatch the_registry (Some put) env g) = sent g \<and>
       kept (dispatch the_registry (Some put) env g) = kept g @ [rcd env1])"
  using put_law [OF assms(1,3)] assms(2)
  by (cases "put env1 g") (simp add: dispatch_routed observe_law)

lemma dispatch_invalid:
  assumes "routed env = None"
  shows "good (dispatch the_registry (Some put) env g) = good g"
    "sent (dispatch the_registry (Some put) env g) = sent g"
    "kept (dispatch the_registry (Some put) env g) = kept g"
  using assms by (simp_all add: dispatch_routed observe_law)

end

text \<open>
  A writer that delivers again what it keeps: the message of a record is the one the envelope would
  have given, and an attempt moves records from one side to the other, losing at most one.
\<close>

locale retrying_writer = envelope_writer +
  fixes retry :: "'t \<Rightarrow> gateway \<Rightarrow> gateway option"
    and again :: "'c \<Rightarrow> 'b"
  assumes again_law: "fits env g \<Longrightarrow> again (rcd env) = msg env"
    and retry_law: "good g \<Longrightarrow> \<exists>g' lost. retry t g = Some g' \<and> good g' \<and> length lost \<le> 1 \<and>
      mset (sent g') + mset (map again (kept g')) + mset lost = mset (sent g) + mset (map again (kept g))"
begin

lemma dispatch_accounts:
  assumes "good g" "case routed env of None \<Rightarrow> True | Some env1 \<Rightarrow> fits env1 g"
  shows "good (dispatch the_registry (Some put) env g) \<and>
    mset (sent (dispatch the_registry (Some put) env g)) + mset (map again (kept (dispatch the_registry (Some put) env g))) =
    mset (sent g) + mset (map again (kept g)) + mset (map msg (List.map_filter routed [env]))"
proof (cases "routed env")
  case None
  then show ?thesis
    using assms(1) dispatch_invalid [OF None, of g] by (simp add: List.map_filter_simps)
next
  case (Some env1)
  then show ?thesis
    using dispatch_one [OF assms(1) Some] assms(2) again_law [of env1 g] by (auto simp: List.map_filter_simps)
qed

text \<open>Every valid envelope is accounted for: sent, kept, or lost in one of the attempts.\<close>

lemma all_accounted:
  "good g \<Longrightarrow> all_fit fits put retry evs g \<Longrightarrow>
   \<exists>g' lost. run (happen put retry) evs g = Some g' \<and> good g' \<and> length lost \<le> retries evs \<and>
     mset (sent g') + mset (map again (kept g')) + mset lost =
     mset (sent g) + mset (map again (kept g)) + mset (map msg (List.map_filter routed (dispatched evs)))"
proof (induction evs arbitrary: g)
  case Nil
  show ?case
    using Nil.prems(1) by (intro exI [of _ g] exI [of _ "[]"]) (simp add: List.map_filter_simps)
next
  case (Cons ev evs)
  show ?case
  proof (cases ev)
    case (Dispatched env)
    let ?g = "dispatch the_registry (Some put) env g"
    have "good ?g" "mset (sent ?g) + mset (map again (kept ?g)) =
        mset (sent g) + mset (map again (kept g)) + mset (map msg (List.map_filter routed [env]))"
      using dispatch_accounts [OF Cons.prems(1), of env] Cons.prems(2) Dispatched by simp_all
    moreover from this(1) obtain g' lost where "run (happen put retry) evs ?g = Some g'" "good g'"
      "length lost \<le> retries evs" "mset (sent g') + mset (map again (kept g')) + mset lost =
        mset (sent ?g) + mset (map again (kept ?g)) + mset (map msg (List.map_filter routed (dispatched evs)))"
      using Cons.IH [of ?g] Cons.prems(2) Dispatched by auto
    ultimately show ?thesis
      using Dispatched by (intro exI [of _ g'] exI [of _ lost]) (simp add: List.map_filter_simps split: option.split)
  next
    case (Retried t)
    obtain g1 lost1 where one: "retry t g = Some g1" "good g1" "length lost1 \<le> 1"
      "mset (sent g1) + mset (map again (kept g1)) + mset lost1 = mset (sent g) + mset (map again (kept g))"
      using retry_law [OF Cons.prems(1)] by blast
    obtain g' lost where "run (happen put retry) evs g1 = Some g'" "good g'"
      "length lost \<le> retries evs" "mset (sent g') + mset (map again (kept g')) + mset lost =
        mset (sent g1) + mset (map again (kept g1)) + mset (map msg (List.map_filter routed (dispatched evs)))"
      using Cons.IH [OF one(2)] Cons.prems(2) Retried one(1) by auto
    then show ?thesis
      using Retried one by (intro exI [of _ g'] exI [of _ "lost1 @ lost"]) (simp, simp add: ac_simps flip: one(4))
  qed
qed

end

section \<open>The manager as the writer\<close>

definition gw_sent :: "gateway \<Rightarrow> (string \<times> kmessage) list" where
  "gw_sent g = delivered (snd g)"

definition gw_kept :: "gateway \<Rightarrow> Envelope list" where
  "gw_kept g = backlog (fallback (fst g)) (snd g)"

definition gw_good :: "gateway \<Rightarrow> bool" where
  "gw_good g \<longleftrightarrow> m_inv (fst g) (snd g)"

definition gw_fits :: "Envelope \<Rightarrow> gateway \<Rightarrow> bool" where
  "gw_fits env g \<longleftrightarrow> writable env (fst g) (snd g) \<and> replayable env"

text \<open>One tick of the recovery loop.\<close>

definition gw_tick :: "(string \<Rightarrow> bool) \<Rightarrow> gateway \<Rightarrow> gateway option" where
  "gw_tick up g = recovery_tick up (fst g) (snd g)"

interpretation gw: envelope_writer gw_good gw_fits gw_sent gw_kept record_message "\<lambda>env. stored (stamped env)" manager_write
proof unfold_locales
  fix g env assume "gw_good g" "gw_fits env g"
  then show "gw_good (snd (manager_write env g)) \<and>
      (gw_sent (snd (manager_write env g)) = gw_sent g @ [record_message env] \<and>
         gw_kept (snd (manager_write env g)) = gw_kept g \<or>
       gw_sent (snd (manager_write env g)) = gw_sent g \<and>
         gw_kept (snd (manager_write env g)) = gw_kept g @ [stored (stamped env)])"
    using m_Write_ok [of "fst g" "snd g" env]
    by (auto simp: gw_good_def gw_fits_def gw_sent_def gw_kept_def manager_write_def writable_def split: if_splits)
qed (simp_all add: gw_good_def gw_sent_def gw_kept_def observe_def m_inv_def)

interpretation gwr: retrying_writer gw_good gw_fits gw_sent gw_kept record_message "\<lambda>env. stored (stamped env)" manager_write
  gw_tick record_message
proof unfold_locales
  show "gw_fits env g \<Longrightarrow> record_message (stored (stamped env)) = record_message env" for env g
    using stored_message [of env] by (simp add: gw_fits_def writable_def)
  show "gw_good g \<Longrightarrow> \<exists>g' lost. gw_tick up g = Some g' \<and> gw_good g' \<and> length lost \<le> 1 \<and>
      mset (gw_sent g') + mset (map record_message (gw_kept g')) + mset lost =
      mset (gw_sent g) + mset (map record_message (gw_kept g))" for g up
    using recovery_tick_accounts [of "fst g" "snd g" up]
    by (auto simp: gw_good_def gw_tick_def gw_sent_def gw_kept_def)
qed

end
