(* ===== verification/Examples.thy ===== *)
theory Examples
  imports Handlers_Props
begin

text \<open>
  Concrete inputs at which the hypotheses of the theorems hold: an envelope with a payload, an empty
  fallback directory with a running clock, and a fallback writer, a Kafka writer and a manager as
  their constructors make them.
\<close>

lemmas [json_simps] = push_def begin_value_def begin_string_def expect_def scan_eof_iff may_end_def
  is_digit_def is_space_def state0_def compact_emit_def is_2028_def maxNestingDepth_def compact_def
  marshal_raw_def valid_upto_def

section \<open>An envelope\<close>

definition ex_env :: Envelope where
  "ex_env = zero_envelope\<lparr>Version := ''1.0'', Topic := ''t'', PartitionKey := ''k'',
     Data := Some ''{\"a\": 1}''\<rparr>"

lemma ex_env_wf: "wf_envelope ex_env"
  by (simp add: ex_env_def zero_envelope_def wf_envelope_def is_int64_def minInt64_def maxInt64_def
      raw_ok_def ValidString_ascii json_simps)

lemma ex_marshal: "marshal_raw (Some ''{\"a\": 1}'') = Some ''{\"a\":1}''"
  by (simp add: json_simps)

lemma ex_fields: "Data ex_env = Some ''{\"a\": 1}''" "WriteRaw ex_env = False" "Topic ex_env = ''t''"
  "stamped ex_env = ex_env"
  by (simp_all add: stamped_def ex_env_def zero_envelope_def EnsureTimestampAt_def TimestampAtFromMillis_def)

lemma ex_body: "marshal_envelope ex_env =
  Some ''{\"version\":\"1.0\",\"topic\":\"t\",\"service\":\"\",\"host\":\"\",\"timestamp\":0,\"partition_key\":\"k\",\"data\":{\"a\":1}}''"
  using ex_fields(1) ex_marshal
  by (simp add: marshal_envelope_def envelope_members_def ex_env_def zero_envelope_def json_object_def
      quote_def quote_body_ascii quote_ascii_def omit_empty_def FormatInt_def fmt_nat.simps digit_char_def
      byte_eq_iff)

lemma ex_line_fits: "line_fits ex_env"
  by (simp add: line_fits_def encode_line_def ex_fields ex_body maxLine_def)

section \<open>An empty directory\<close>

text \<open>The clock shows the number of interactions; Kafka answers every call with the same outcome.\<close>

definition ex_world :: "bool \<Rightarrow> world" where
  "ex_world err = \<lparr>step = 0, fault = (\<lambda>_. None), clock = (\<lambda>n. if n < 1000 then int n else 1000), kafka_err = (\<lambda>_. err), dirents = [],
     inodes = (\<lambda>_. []), next_ino = 0, kafka_calls = [], mets = [], panicked = False\<rparr>"

definition ex_fw :: FallbackWriter where
  "ex_fw = \<lparr>maxFileSize = 100, maxFiles = 3, current = None, currentPath = [], currentSize = 0,
     peekState = None\<rparr>"

definition ex_manager :: Manager where
  "ex_manager = NewManager (NewKafkaWriter [''kafka:9092''] 100 10000000 (2 * second)) ex_fw"

lemma ex_store_inv: "store_inv ex_fw (ex_world err)"
  by (simp add: store_inv_def readable_def ex_fw_def ex_world_def wf_world_def no_faults_def done_files_def
      active_ok_def)

lemma ex_fresh_from: "fresh_from n ex_fw (ex_world err)"
  by (simp add: fresh_from_def fresh_def newest_def ex_fw_def ex_world_def done_files_def is_int64_def
      minInt64_def maxInt64_def)

lemma ex_fresh: "fresh ex_fw (ex_world err)"
  using ex_fresh_from [of 0 err] by (intro fresh_from_now) (simp add: ex_world_def)

lemma ex_room: "room ex_fw (ex_world err)"
  by (simp add: room_def ex_fw_def ex_world_def done_files_def)

lemma ex_m_inv: "m_inv ex_manager (ex_world err)"
  using ex_store_inv [of err]
  by (simp add: m_inv_def ex_manager_def NewManager_def NewKafkaWriter_def kw_inv_def) (simp add: ex_world_def)

lemma ex_writable: "writable ex_env ex_manager (ex_world err)"
  using ex_env_wf ex_line_fits ex_fresh_from ex_room by (simp add: writable_def ex_manager_def NewManager_def)


section \<open>A directory with one rolled file\<close>

definition ex_line :: string where
  "ex_line = (case encode_line ex_env of None \<Rightarrow> [] | Some body \<Rightarrow> body)"

definition ex_done :: "bool \<Rightarrow> world" where
  "ex_done err = (ex_world err)\<lparr>dirents := [(''5.log.done'', 0)], inodes := (\<lambda>_. ex_line @ [CHR 0x0A]), next_ino := 1\<rparr>"

lemma ex_line_ok: "encode_line ex_env = Some ex_line" "decode_line ex_line = Some (stored ex_env)"
  "\<forall>c \<in> set ex_line. 32 \<le> code c" "length ex_line < maxLine"
  using encode_decode_line [OF ex_env_wf] ex_line_fits by (auto simp: ex_line_def line_fits_def ex_fields)

lemma ex_done_files: "done_files (dirents (ex_done err)) = [''5.log.done'']"
  by (simp add: done_files_def ex_done_def HasSuffix_def suffix_def)

lemma ex_done_content: "file_content (ex_done err) ''5.log.done'' = ex_line @ [CHR 0x0A]"
  by (simp add: file_content_def ex_done_def)

lemma ex_done_pending: "pending ex_fw (ex_done err) = [stored ex_env]"
  using records_line [OF ex_line_ok(3,2)] by (simp add: pending_def ex_fw_def ex_done_files ex_done_content)

lemma ex_done_inv: "store_inv ex_fw (ex_done err)"
proof -
  have "wf_world (ex_done err)" "no_faults (ex_done err)" "distinct (map snd (dirents (ex_done err)))"
    by (simp_all add: ex_done_def wf_world_def no_faults_def ex_world_def)
  moreover have "active_ok ex_fw (ex_done err)" "peekState ex_fw = None"
    by (simp_all add: active_ok_def ex_fw_def)
  moreover have "\<forall>n \<in> set (done_files (dirents (ex_done err))). short_lines (file_content (ex_done err) n)"
    using short_line [OF ex_line_ok(3,4)] by (simp add: ex_done_files ex_done_content)
  ultimately show ?thesis
    by (simp add: store_inv_def readable_def)
qed

lemma ex_done_m_inv: "m_inv ex_manager (ex_done err)"
  using ex_done_inv [of err]
  by (simp add: m_inv_def ex_manager_def NewManager_def NewKafkaWriter_def kw_inv_def)
    (simp add: ex_done_def ex_world_def)

lemma ex_fallback: "fallback ex_manager = ex_fw"
  by (simp add: ex_manager_def NewManager_def)

section \<open>An active file\<close>

definition ex_afw :: FallbackWriter where
  "ex_afw = ex_fw\<lparr>current := Some \<lparr>h_ino = 0, h_closed = False\<rparr>, currentPath := ''7.log''\<rparr>"

definition ex_active :: world where
  "ex_active = (ex_world True)\<lparr>dirents := [(''7.log'', 0)], inodes := (\<lambda>_. ex_line @ [CHR 0x0A]), next_ino := 1\<rparr>"

lemma FormatInt_7: "FormatInt 7 = ''7''"
  by (simp add: FormatInt_def fmt_nat.simps digit_char_def byte_eq_iff)

lemma ex_active_done: "done_files (dirents ex_active) = []"
  by (simp add: done_files_def ex_active_def HasSuffix_def suffix_def)

lemma ex_active_inv: "store_inv ex_afw ex_active"
proof -
  have "wf_world ex_active" "no_faults ex_active" "distinct (map snd (dirents ex_active))"
    by (simp_all add: ex_active_def wf_world_def no_faults_def ex_world_def)
  moreover have "peekState ex_afw = None" "current ex_afw = Some \<lparr>h_ino = 0, h_closed = False\<rparr>"
    "currentPath ex_afw = FormatInt 7 @ ''.log''"
    by (simp_all add: ex_afw_def ex_fw_def FormatInt_7)
  moreover from this have "newest 7 ex_afw ex_active"
    by (simp add: newest_def ex_active_done is_int64_def minInt64_def maxInt64_def)
  moreover have "map_of (dirents ex_active) (currentPath ex_afw) = Some 0"
    "inodes ex_active 0 = ex_line @ [CHR 0x0A]"
    by (simp_all add: ex_active_def ex_afw_def)
  ultimately show ?thesis
    using short_line [OF ex_line_ok(3,4)]
    by (auto simp: store_inv_def readable_def ex_active_done active_ok_def complete_def)
qed

lemma ex_afw_simps: "current ex_afw = Some \<lparr>h_ino = 0, h_closed = False\<rparr>" "maxFiles ex_afw = 3" "peekState ex_afw = None"
  "currentPath ex_afw = ''7.log''"
  by (simp_all add: ex_afw_def ex_fw_def)

end
