(* ===== verification/Writer_Threads.thy ===== *)
theory Writer_Threads
  imports Manager_Props State_Machine
begin

text \<open>
  The manager of \<open>internal/writer/manager.go\<close> under concurrency: any number of workers are inside \<open>Write\<close>
  while the recovery loop runs. The manager holds no lock of its own; an action is one access to what the
  goroutines share: a load or store of \<open>healthy\<close>, a call of the Kafka writer, a call of the fallback
  writer, which locks itself. Calls and ticks may begin at any moment and interleave in any order.
\<close>

section \<open>State\<close>

text \<open>A call of \<open>Write\<close>: entered, in \<open>kafka.Write\<close>, behind its error, in \<open>writeFallback\<close>.\<close>

datatype write_at = Entered Envelope | ToKafka Envelope | KafkaRefused Envelope | ToFallback Envelope

text \<open>
  The recovery loop: waiting for a tick, before the first \<open>Peek\<close>, before the probe, sending the first record,
  behind its success, and in the drain loop before the deadline check, before \<open>Peek\<close>, sending a record,
  behind an error.
\<close>

datatype recovery_at =
    AwaitTick | FirstPeek | Probing | FirstSend FallbackRecord | Recovered
  | CheckDeadline int | DrainPeek int | DrainSend int FallbackRecord | DrainRefused

text \<open>\<open>begun\<close> records the envelopes whose \<open>Write\<close> was called, \<open>refused\<close> counts replays Kafka refused.\<close>

record Threads =
  mgr :: Manager
  wrld :: world
  calls :: "(nat \<times> write_at) list"
  recovery :: recovery_at
  begun :: "Envelope list"
  refused :: nat

definition start_threads :: "Manager \<Rightarrow> world \<Rightarrow> Threads" where
  "start_threads m w = \<lparr>mgr = m, wrld = w, calls = [], recovery = AwaitTick, begun = [], refused = 0\<rparr>"

section \<open>Actions\<close>

definition set_call :: "nat \<Rightarrow> write_at option \<Rightarrow> Threads \<Rightarrow> Threads" where
  "set_call t c T = T\<lparr>calls := (case c of None \<Rightarrow> [] | Some x \<Rightarrow> [(t, x)]) @ filter (\<lambda>p. fst p \<noteq> t) (calls T)\<rparr>"

definition write_step :: "nat \<Rightarrow> write_at \<Rightarrow> Threads \<Rightarrow> Threads" where
  "write_step t at T =
     (case at of
        Entered env \<Rightarrow> set_call t (Some (if healthy (mgr T) then ToKafka env else ToFallback env)) T
      | ToKafka env \<Rightarrow>
          (case kw_Write env (kafka (mgr T)) (wrld T) of (r, env1, k, w) \<Rightarrow>
             set_call t (case r of None \<Rightarrow> None | Some e \<Rightarrow> Some (KafkaRefused env1))
               (T\<lparr>mgr := (mgr T)\<lparr>kafka := k\<rparr>, wrld := w\<rparr>))
      | KafkaRefused env \<Rightarrow>
          set_call t (Some (ToFallback env))
            (T\<lparr>mgr := set_healthy False (mgr T), wrld := metric (KafkaHealthy False) (wrld T)\<rparr>)
      | ToFallback env \<Rightarrow>
          (case writeFallback env (mgr T) (wrld T) of (env1, m, w) \<Rightarrow> set_call t None (T\<lparr>mgr := m, wrld := w\<rparr>)))"

text \<open>A \<open>Peek\<close> of the recovery loop, and a Kafka write of what it returned.\<close>

definition recovery_peek :: "recovery_at \<Rightarrow> (FallbackRecord \<Rightarrow> recovery_at) \<Rightarrow> Threads \<Rightarrow> Threads option" where
  "recovery_peek nothing found T =
     (case Peek (fallback (mgr T)) (wrld T) of
        None \<Rightarrow> None
      | Some (r, fw, w) \<Rightarrow>
          Some (T\<lparr>mgr := (mgr T)\<lparr>fallback := fw\<rparr>, wrld := w,
                  recovery := (case r of None \<Rightarrow> nothing | Some rec \<Rightarrow> found rec)\<rparr>))"

definition recovery_send :: "FallbackRecord \<Rightarrow> recovery_at \<Rightarrow> recovery_at \<Rightarrow> Threads \<Rightarrow> Threads" where
  "recovery_send rec sent failed T =
     (case kw_Write (Env rec) (kafka (mgr T)) (wrld T) of
        (None, env1, k, w) \<Rightarrow>
          T\<lparr>mgr := (mgr T)\<lparr>kafka := k, fallback := Ack (rec\<lparr>Env := env1\<rparr>) (fallback (mgr T))\<rparr>,
            wrld := metric (FallbackReplay ''success'') w, recovery := sent\<rparr>
      | (Some e, env1, k, w) \<Rightarrow>
          T\<lparr>mgr := (mgr T)\<lparr>kafka := k\<rparr>, wrld := metric (FallbackReplay ''error'') w, recovery := failed,
            refused := refused T + 1\<rparr>)"

definition recovery_step :: "(string \<Rightarrow> bool) \<Rightarrow> Threads \<Rightarrow> Threads option" where
  "recovery_step up T =
     (case recovery T of
        AwaitTick \<Rightarrow> Some (if stopped (mgr T) \<or> healthy (mgr T) then T else T\<lparr>recovery := FirstPeek\<rparr>)
      | FirstPeek \<Rightarrow> recovery_peek Probing FirstSend T
      | Probing \<Rightarrow> (case probe_health up (mgr T) (wrld T) of (m, w) \<Rightarrow> Some (T\<lparr>mgr := m, wrld := w, recovery := AwaitTick\<rparr>))
      | FirstSend rec \<Rightarrow> Some (recovery_send rec Recovered AwaitTick T)
      | Recovered \<Rightarrow>
          (case time_Now (metric (KafkaHealthy True) (wrld T)) of (t, w) \<Rightarrow>
             Some (T\<lparr>mgr := set_healthy True (mgr T), wrld := w,
                     recovery := CheckDeadline (t + (recoveryInterval - 2 * second))\<rparr>))
      | CheckDeadline d \<Rightarrow>
          (case time_Now (wrld T) of (t, w) \<Rightarrow>
             Some (T\<lparr>wrld := w, recovery := (if t < d then DrainPeek d else AwaitTick)\<rparr>))
      | DrainPeek d \<Rightarrow> recovery_peek AwaitTick (DrainSend d) T
      | DrainSend d rec \<Rightarrow> Some (recovery_send rec (CheckDeadline d) DrainRefused T)
      | DrainRefused \<Rightarrow>
          Some (T\<lparr>mgr := set_healthy False (mgr T), wrld := metric (KafkaHealthy False) (wrld T), recovery := AwaitTick\<rparr>))"

datatype thread_action =
    BeginWrite nat Envelope
  | WriteStep nat
  | RecoveryStep "string \<Rightarrow> bool"

fun t_step :: "thread_action \<Rightarrow> Threads \<Rightarrow> Threads option" where
  "t_step (BeginWrite t env) T =
     (case map_of (calls T) t of
        Some _ \<Rightarrow> None
      | None \<Rightarrow> Some (set_call t (Some (Entered env)) (T\<lparr>begun := begun T @ [env]\<rparr>)))"
| "t_step (WriteStep t) T = map_option (\<lambda>at. write_step t at T) (map_of (calls T) t)"
| "t_step (RecoveryStep up) T = recovery_step up T"

text \<open>A panic ends the process.\<close>

definition t_exec :: "thread_action \<Rightarrow> Threads \<Rightarrow> Threads option" where
  "t_exec a T = (if panicked (wrld T) then None else t_step a T)"

section \<open>Every message is somewhere\<close>

fun call_env :: "write_at \<Rightarrow> Envelope" where
  "call_env (Entered env) = env"
| "call_env (ToKafka env) = env"
| "call_env (KafkaRefused env) = env"
| "call_env (ToFallback env) = env"

fun peeked :: "recovery_at \<Rightarrow> Envelope list" where
  "peeked (FirstSend rec) = [Env rec]"
| "peeked (DrainSend d rec) = [Env rec]"
| "peeked _ = []"

text \<open>The messages: delivered, on disk, in a call of \<open>Write\<close>, in the hands of the recovery loop.\<close>

definition in_calls :: "Threads \<Rightarrow> (string \<times> kmessage) multiset" where
  "in_calls T = image_mset (\<lambda>p. record_message (call_env (snd p))) (mset (calls T))"

definition account :: "Threads \<Rightarrow> (string \<times> kmessage) multiset" where
  "account T =
     mset (delivered (wrld T)) + mset (map record_message (backlog (fallback (mgr T)) (wrld T))) + in_calls T +
     mset (map record_message (peeked (recovery T)))"

text \<open>What the envelopes need for a line of the files that is replayed as the same message.\<close>

definition keepable :: "Envelope \<Rightarrow> bool" where
  "keepable env \<longleftrightarrow> wf_envelope env \<and> line_fits env \<and> replayable env"

definition t_inv :: "(string \<times> kmessage) multiset \<Rightarrow> Threads \<Rightarrow> bool" where
  "t_inv M0 T \<longleftrightarrow>
     m_inv (mgr T) (wrld T) \<and> distinct (map fst (calls T)) \<and> (\<forall>p \<in> set (calls T). keepable (call_env (snd p))) \<and>
     (\<forall>e \<in> set (backlog (fallback (mgr T)) (wrld T) @ peeked (recovery T)). sendable e) \<and>
     (\<exists>lost. length lost \<le> refused T \<and> account T + mset lost = M0 + mset (map record_message (begun T)))"

lemma t_inv_conserve:
  assumes "t_inv M0 T" "m_inv (mgr T') (wrld T')" "distinct (map fst (calls T'))" "\<forall>p \<in> set (calls T'). keepable (call_env (snd p))"
    "\<forall>e \<in> set (backlog (fallback (mgr T')) (wrld T') @ peeked (recovery T')). sendable e"
    "account T' + mset l = account T + mset (map record_message b)" "begun T' = begun T @ b" "refused T' = refused T + length l"
  shows "t_inv M0 T'"
proof -
  obtain lost where lost: "length lost \<le> refused T" "account T + mset lost = M0 + mset (map record_message (begun T))"
    using assms(1) by (auto simp: t_inv_def)
  have "account T' + mset (l @ lost) = account T + mset lost + mset (map record_message b)"
    using assms(6) by (simp add: ac_simps)
  then have "account T' + mset (l @ lost) = M0 + mset (map record_message (begun T'))"
    unfolding lost(2) assms(7) by (simp add: ac_simps)
  then show ?thesis
    using assms(2-5,8) lost(1) unfolding t_inv_def by (metis add.commute add_le_mono1 length_append)
qed

lemma set_call_frame [simp]:
  "mgr (set_call t c T) = mgr T" "wrld (set_call t c T) = wrld T" "recovery (set_call t c T) = recovery T"
  "begun (set_call t c T) = begun T" "refused (set_call t c T) = refused T"
  by (simp_all add: set_call_def)

lemma set_call_distinct: "distinct (map fst (calls T)) \<Longrightarrow> distinct (map fst (calls (set_call t c T)))"
  by (cases c) (auto simp: set_call_def distinct_map_filter)

lemma set_call_ok:
  "\<forall>p \<in> set (calls T). keepable (call_env (snd p)) \<Longrightarrow> (\<And>x. c = Some x \<Longrightarrow> keepable (call_env x)) \<Longrightarrow>
   \<forall>p \<in> set (calls (set_call t c T)). keepable (call_env (snd p))"
  by (cases c) (auto simp: set_call_def)

text \<open>A call that is there changes its place, or returns.\<close>

lemma in_calls_move:
  assumes "distinct (map fst (calls T))" "map_of (calls T) t = Some at"
  shows "in_calls (set_call t c T) + {#record_message (call_env at)#} =
    in_calls T + mset (case c of None \<Rightarrow> [] | Some x \<Rightarrow> [record_message (call_env x)])"
proof -
  have "in_calls T = add_mset (record_message (call_env at)) (in_calls (set_call t None T))"
    unfolding in_calls_def arg_cong [OF mset_remove_key [OF assms], of "image_mset (\<lambda>p. record_message (call_env (snd p)))"]
    by (simp add: set_call_def)
  then show ?thesis
    by (cases c) (simp_all add: in_calls_def set_call_def)
qed

lemma in_calls_enter:
  assumes "map_of (calls T) t = None"
  shows "in_calls (set_call t (Some x) T) = in_calls T + {#record_message (call_env x)#}"
proof -
  have "filter (\<lambda>p. fst p \<noteq> t) (calls T) = calls T"
    using assms by (auto simp: map_of_eq_None_iff intro!: filter_True)
  then show ?thesis
    by (simp add: in_calls_def set_call_def)
qed

lemma in_calls_frame [simp]: "in_calls (T\<lparr>mgr := m\<rparr>) = in_calls T" "in_calls (T\<lparr>wrld := w\<rparr>) = in_calls T"
  "in_calls (T\<lparr>recovery := r\<rparr>) = in_calls T" "in_calls (T\<lparr>refused := n\<rparr>) = in_calls T" "in_calls (T\<lparr>begun := b\<rparr>) = in_calls T"
  by (simp_all add: in_calls_def)

section \<open>A call of Write\<close>

lemma keepable_stamped [simp]: "keepable (stamped env) = keepable env"
  by (simp add: keepable_def replayable_def)

lemma keepable_sendable: "keepable env \<Longrightarrow> sendable env"
  by (simp add: keepable_def wf_sendable)

lemma begin_inv:
  assumes "t_inv M0 T" "map_of (calls T) t = None" "keepable env"
  shows "t_inv M0 (set_call t (Some (Entered env)) (T\<lparr>begun := begun T @ [env]\<rparr>))"
proof (rule t_inv_conserve [OF assms(1), where l = "[]" and b = "[env]"])
  let ?T = "T\<lparr>begun := begun T @ [env]\<rparr>"
  have "in_calls (set_call t (Some (Entered env)) ?T) = in_calls T + {#record_message env#}"
    using in_calls_enter [of ?T t "Entered env"] assms(2) by simp
  then show "account (set_call t (Some (Entered env)) ?T) + mset [] = account T + mset (map record_message [env])"
    by (simp add: account_def)
  show "\<forall>p \<in> set (calls (set_call t (Some (Entered env)) ?T)). keepable (call_env (snd p))"
    by (rule set_call_ok) (use assms in \<open>auto simp: t_inv_def\<close>)
qed (use assms set_call_distinct [of "T\<lparr>begun := begun T @ [env]\<rparr>"] in \<open>simp_all add: t_inv_def\<close>)

text \<open>A step of a call that keeps its message, or hands it over when it returns.\<close>

lemma call_moved:
  assumes inv: "t_inv M0 T" and at: "map_of (calls T) t = Some at"
    and m: "m_inv m w" "\<forall>e \<in> set (backlog (fallback m) w). sendable e"
    and c: "\<And>x. c = Some x \<Longrightarrow> record_message (call_env x) = record_message (call_env at) \<and> keepable (call_env x)"
    and msgs: "mset (delivered w) + mset (map record_message (backlog (fallback m) w)) =
       mset (delivered (wrld T)) + mset (map record_message (backlog (fallback (mgr T)) (wrld T))) +
       (if c = None then {#record_message (call_env at)#} else {#})"
  shows "t_inv M0 (set_call t c (T\<lparr>mgr := m, wrld := w\<rparr>))"
proof (rule t_inv_conserve [OF inv, where l = "[]" and b = "[]"])
  let ?T = "T\<lparr>mgr := m, wrld := w\<rparr>"
  have i: "distinct (map fst (calls T))" "\<forall>p \<in> set (calls T). keepable (call_env (snd p))"
    "\<forall>e \<in> set (peeked (recovery T)). sendable e"
    using inv by (simp_all add: t_inv_def)
  have eq: "in_calls (set_call t c ?T) + {#record_message (call_env at)#} =
      in_calls T + mset (case c of None \<Rightarrow> [] | Some x \<Rightarrow> [record_message (call_env x)])"
    using in_calls_move [of ?T t at c] i(1) at by simp
  have "mset (delivered w) + mset (map record_message (backlog (fallback m) w)) + in_calls (set_call t c ?T) =
      mset (delivered (wrld T)) + mset (map record_message (backlog (fallback (mgr T)) (wrld T))) + in_calls T"
    using eq c msgs by (cases c) (simp_all add: ac_simps)
  then show "account (set_call t c ?T) + mset [] = account T + mset (map record_message [])"
    by (simp add: account_def)
  show "\<forall>p \<in> set (calls (set_call t c ?T)). keepable (call_env (snd p))"
    by (rule set_call_ok) (use i(2) c in auto)
  show "\<forall>e \<in> set (backlog (fallback (mgr (set_call t c ?T))) (wrld (set_call t c ?T)) @ peeked (recovery (set_call t c ?T))). sendable e"
    using m(2) i(3) by auto
  show "distinct (map fst (calls (set_call t c ?T)))"
    using i(1) set_call_distinct [of ?T] by simp
qed (use m(1) in simp_all)

lemma write_step_inv:
  assumes inv: "t_inv M0 T" and at: "map_of (calls T) t = Some at"
    and ready: "\<And>env. at = ToFallback env \<Longrightarrow> fresh (fallback (mgr T)) (wrld T) \<and> room (fallback (mgr T)) (wrld T)"
  shows "t_inv M0 (write_step t at T)"
proof -
  have i: "m_inv (mgr T) (wrld T)" "\<forall>e \<in> set (backlog (fallback (mgr T)) (wrld T)). sendable e"
    "\<forall>p \<in> set (calls T). keepable (call_env (snd p))"
    using inv by (simp_all add: t_inv_def)
  have keep: "keepable (call_env at)"
    using i(3) map_of_SomeD [OF at] by force
  note moved = call_moved [OF inv at]
  show ?thesis
  proof (cases at)
    case (Entered env)
    then show ?thesis
      using moved [of "mgr T" "wrld T" "Some (if healthy (mgr T) then ToKafka env else ToFallback env)"] i keep
      by (auto simp: write_step_def)
  next
    case (ToKafka env)
    obtain r k w where kw: "kw_Write env (kafka (mgr T)) (wrld T) = (r, stamped env, k, w)" "kw_inv k" "same_disk (wrld T) w"
      "kafka_calls w = kafka_calls (wrld T) @ [(Topic env, message (stamped env), r = None)]"
      using kw_Write_ok [of "kafka (mgr T)" "wrld T" env] i(1) keepable_sendable keep ToKafka by (auto simp: m_inv_def)
    then show ?thesis
      using moved [of "(mgr T)\<lparr>kafka := k\<rparr>" w "case r of None \<Rightarrow> None | Some e \<Rightarrow> Some (KafkaRefused (stamped env))"]
        i(1,2) keep ToKafka same_disk_store [OF kw(3)]
      by (cases r) (auto simp: write_step_def m_inv_def delivered_def)
  next
    case (KafkaRefused env)
    then show ?thesis
      using moved [of "set_healthy False (mgr T)" "metric (KafkaHealthy False) (wrld T)" "Some (ToFallback env)"] i keep
      by (auto simp: write_step_def m_inv_def set_healthy_def)
  next
    case (ToFallback env)
    have env: "wf_envelope env" "line_fits env" "replayable env"
      using keep ToFallback by (simp_all add: keepable_def)
    obtain m w where wf: "writeFallback env (mgr T) (wrld T) = (stamped env, m, w)" "m_inv m w"
      "backlog (fallback m) w = backlog (fallback (mgr T)) (wrld T) @ [stored (stamped env)]" "kafka_calls w = kafka_calls (wrld T)"
      using writeFallback_ok [OF i(1) env(1,2)] ready [OF ToFallback] by blast
    then show ?thesis
      using moved [of m w None] i(2) stored_message [OF env(1,3)] ToFallback by (auto simp: write_step_def delivered_def)
  qed
qed

section \<open>The recovery loop\<close>

lemma recovery_moved:
  assumes inv: "t_inv M0 T" and m: "m_inv m w" "\<forall>e \<in> set (backlog (fallback m) w @ peeked r). sendable e"
    and msgs: "mset (delivered w) + mset (map record_message (backlog (fallback m) w)) + mset (map record_message (peeked r)) + mset l =
      mset (delivered (wrld T)) + mset (map record_message (backlog (fallback (mgr T)) (wrld T))) +
      mset (map record_message (peeked (recovery T)))"
    and n: "n = refused T + length l"
  shows "t_inv M0 (T\<lparr>mgr := m, wrld := w, recovery := r, refused := n\<rparr>)"
proof (rule t_inv_conserve [OF inv, where l = l and b = "[]"])
  let ?T = "T\<lparr>mgr := m, wrld := w, recovery := r, refused := n\<rparr>"
  have "account ?T + mset l = account T"
    using arg_cong [OF msgs, of "\<lambda>M. M + in_calls T"] by (simp add: account_def ac_simps)
  then show "account ?T + mset l = account T + mset (map record_message [])"
    by simp
qed (use inv m n in \<open>simp_all add: t_inv_def\<close>)

lemma recovery_peek_inv:
  assumes inv: "t_inv M0 T" and T': "recovery_peek nothing found T = Some T'" and free: "peeked (recovery T) = []" "peeked nothing = []"
    and found: "\<And>rec. peeked (found rec) = [Env rec]"
  shows "t_inv M0 T'"
proof -
  have i: "m_inv (mgr T) (wrld T)" "\<forall>e \<in> set (backlog (fallback (mgr T)) (wrld T)). sendable e"
    using inv by (simp_all add: t_inv_def)
  obtain rec fw w where P: "Peek (fallback (mgr T)) (wrld T) = Some (rec, fw, w)" "store_inv fw w" "peek_frame (fallback (mgr T)) (wrld T) fw w"
    "map_option Env rec = (case pending (fallback (mgr T)) (wrld T) of [] \<Rightarrow> None | e # _ \<Rightarrow> Some e)"
    "pending fw w = tl (pending (fallback (mgr T)) (wrld T))" "active fw w = active (fallback (mgr T)) (wrld T)"
    using Peek_store [of "fallback (mgr T)" "wrld T"] i(1) by (auto simp: m_inv_def)
  let ?r = "case rec of None \<Rightarrow> nothing | Some x \<Rightarrow> found x"
  have "T' = T\<lparr>mgr := (mgr T)\<lparr>fallback := fw\<rparr>, wrld := w, recovery := ?r\<rparr>"
    using T' P(1) by (simp add: recovery_peek_def)
  then have T'_eq: "T' = T\<lparr>mgr := (mgr T)\<lparr>fallback := fw\<rparr>, wrld := w, recovery := ?r, refused := refused T\<rparr>"
    by simp
  have inv': "m_inv ((mgr T)\<lparr>fallback := fw\<rparr>) w" "delivered w = delivered (wrld T)"
    using i(1) P(2,3) by (simp_all add: m_inv_def peek_frame_def delivered_def)
  have parts: "peeked ?r @ pending fw w = pending (fallback (mgr T)) (wrld T)"
    using P(4,5) free(2) found by (cases rec; cases "pending (fallback (mgr T)) (wrld T)") auto
  then have whole: "mset (backlog fw w) + mset (peeked ?r) = mset (backlog (fallback (mgr T)) (wrld T))"
    using P(6) by (simp add: backlog_def ac_simps flip: parts)
  show ?thesis
    unfolding T'_eq
  proof (rule recovery_moved [OF inv inv'(1), where l = "[]"])
    have "set (backlog fw w @ peeked ?r) = set_mset (mset (backlog fw w) + mset (peeked ?r))"
      by simp
    then show "\<forall>e \<in> set (backlog (fallback ((mgr T)\<lparr>fallback := fw\<rparr>)) w @ peeked ?r). sendable e"
      unfolding whole using i(2) by simp
    show "mset (delivered w) + mset (map record_message (backlog (fallback ((mgr T)\<lparr>fallback := fw\<rparr>)) w)) +
        mset (map record_message (peeked ?r)) + mset [] =
      mset (delivered (wrld T)) + mset (map record_message (backlog (fallback (mgr T)) (wrld T))) +
      mset (map record_message (peeked (recovery T)))"
      using arg_cong [OF whole, of "image_mset record_message"] inv'(2) free(1) by simp
  qed simp
qed

lemma recovery_send_inv:
  assumes inv: "t_inv M0 T" and rec: "peeked (recovery T) = [Env rec]" and free: "peeked sent = []" "peeked failed = []"
  shows "t_inv M0 (recovery_send rec sent failed T)"
proof -
  have i: "m_inv (mgr T) (wrld T)" "\<forall>e \<in> set (backlog (fallback (mgr T)) (wrld T)). sendable e" "sendable (Env rec)"
    using inv rec by (simp_all add: t_inv_def)
  obtain r k w where kw: "kw_Write (Env rec) (kafka (mgr T)) (wrld T) = (r, stamped (Env rec), k, w)" "kw_inv k" "same_disk (wrld T) w"
    "kafka_calls w = kafka_calls (wrld T) @ [(Topic (Env rec), message (stamped (Env rec)), r = None)]"
    using kw_Write_ok [of "kafka (mgr T)" "wrld T" "Env rec"] i by (auto simp: m_inv_def)
  have inv': "m_inv ((mgr T)\<lparr>kafka := k, fallback := fallback (mgr T)\<rparr>) (metric f w)" for f
    using i(1) kw(2) same_disk_store [OF kw(3)] by (simp add: m_inv_def)
  note disk = same_disk_store [OF kw(3)]
  show ?thesis
  proof (cases r)
    case None
    then have eq: "recovery_send rec sent failed T = T\<lparr>mgr := (mgr T)\<lparr>kafka := k, fallback := fallback (mgr T)\<rparr>,
        wrld := metric (FallbackReplay ''success'') w, recovery := sent, refused := refused T\<rparr>"
      using kw(1) by (simp add: recovery_send_def Ack_def)
    show ?thesis
      unfolding eq
      by (rule recovery_moved [OF inv inv', where l = "[]"])
        (use i free rec disk kw(4) None in \<open>simp_all add: delivered_def\<close>)
  next
    case (Some e)
    then have eq: "recovery_send rec sent failed T = T\<lparr>mgr := (mgr T)\<lparr>kafka := k, fallback := fallback (mgr T)\<rparr>,
        wrld := metric (FallbackReplay ''error'') w, recovery := failed, refused := refused T + 1\<rparr>"
      using kw(1) by (simp add: recovery_send_def)
    show ?thesis
      unfolding eq
      by (rule recovery_moved [OF inv inv', where l = "[record_message (Env rec)]"])
        (use i free rec disk kw(4) Some in \<open>simp_all add: delivered_def\<close>)
  qed
qed

text \<open>The other steps of the loop touch neither messages nor files.\<close>

lemma recovery_quiet:
  assumes "t_inv M0 T" "m_inv m w" "fallback m = fallback (mgr T)" "backlog (fallback m) w = backlog (fallback m) (wrld T)"
    "delivered w = delivered (wrld T)" "peeked (recovery T) = []" "peeked r = []"
  shows "t_inv M0 (T\<lparr>mgr := m, wrld := w, recovery := r\<rparr>)"
proof -
  have "t_inv M0 (T\<lparr>mgr := m, wrld := w, recovery := r, refused := refused T\<rparr>)"
    by (rule recovery_moved [OF assms(1,2), where l = "[]"]) (use assms in \<open>simp_all add: t_inv_def\<close>)
  then show ?thesis
    by simp
qed

lemma recovery_step_inv:
  assumes inv: "t_inv M0 T" and T': "recovery_step up T = Some T'"
  shows "t_inv M0 T'"
proof -
  have i: "m_inv (mgr T) (wrld T)"
    using inv by (simp add: t_inv_def)
  have w: "m_inv (set_healthy b (mgr T)) (metric f (wrld T))" "m_inv (set_healthy b (mgr T)) (tick (metric f (wrld T)))"
    "m_inv (mgr T) (tick (wrld T))" for b f
    using i by (simp_all add: m_inv_def set_healthy_def)
  note quiet = recovery_quiet [OF inv]
  show ?thesis
  proof (cases "recovery T")
    case AwaitTick
    then show ?thesis
      using T' inv quiet [OF i, of FirstPeek] by (auto simp: recovery_step_def split: if_splits)
  next
    case FirstPeek
    then show ?thesis
      using T' recovery_peek_inv [OF inv, of Probing FirstSend T'] by (simp add: recovery_step_def)
  next
    case Probing
    then show ?thesis
      using T' quiet [OF i, of AwaitTick] quiet [OF w(1) [of True "KafkaHealthy True"], of AwaitTick]
      by (auto simp: recovery_step_def probe_health_def set_healthy_def delivered_def split: option.splits)
  next
    case (FirstSend rec)
    then show ?thesis
      using T' recovery_send_inv [OF inv, of rec Recovered AwaitTick] by (simp add: recovery_step_def)
  next
    case Recovered
    then show ?thesis
      using T' quiet [OF w(2) [of True "KafkaHealthy True"]]
      by (auto simp: recovery_step_def time_Now_def set_healthy_def)
  next
    case (CheckDeadline d)
    then show ?thesis
      using T' quiet [OF w(3)] by (auto simp: recovery_step_def time_Now_def split: if_splits)
  next
    case (DrainPeek d)
    then show ?thesis
      using T' recovery_peek_inv [OF inv, of AwaitTick "DrainSend d" T'] by (simp add: recovery_step_def)
  next
    case (DrainSend d rec)
    then show ?thesis
      using T' recovery_send_inv [OF inv, of rec "CheckDeadline d" DrainRefused] by (simp add: recovery_step_def)
  next
    case DrainRefused
    then show ?thesis
      using T' quiet [OF w(1) [of False "KafkaHealthy False"], of AwaitTick] by (auto simp: recovery_step_def set_healthy_def)
  qed
qed

section \<open>Any interleaving\<close>

text \<open>
  What is assumed of a run: the envelopes given to \<open>Write\<close> can be kept, and whenever a call is about to
  append to the files, a new file gets a new name and rotation has room.
\<close>

definition ready :: "thread_action \<Rightarrow> Threads \<Rightarrow> bool" where
  "ready a T \<longleftrightarrow>
     (case a of
        BeginWrite t env \<Rightarrow> keepable env
      | WriteStep t \<Rightarrow>
          (case map_of (calls T) t of
             Some (ToFallback env) \<Rightarrow> fresh (fallback (mgr T)) (wrld T) \<and> room (fallback (mgr T)) (wrld T)
           | _ \<Rightarrow> True)
      | RecoveryStep up \<Rightarrow> True)"

fun all_ready :: "thread_action list \<Rightarrow> Threads \<Rightarrow> bool" where
  "all_ready [] T = True"
| "all_ready (a # as) T = (ready a T \<and> (case t_exec a T of None \<Rightarrow> True | Some T1 \<Rightarrow> all_ready as T1))"

lemma t_exec_inv: "t_inv M0 T \<Longrightarrow> ready a T \<Longrightarrow> t_exec a T = Some T' \<Longrightarrow> t_inv M0 T'"
  by (cases a) (auto simp: t_exec_def ready_def intro: begin_inv write_step_inv recovery_step_inv split: if_splits option.splits)

lemma t_run_inv: "t_inv M0 T \<Longrightarrow> all_ready as T \<Longrightarrow> run t_exec as T = Some T' \<Longrightarrow> t_inv M0 T'"
  by (induction as arbitrary: T) (auto split: option.splits intro: t_exec_inv)

text \<open>A call that is not interleaved with anything is \<open>m_Write\<close>.\<close>

lemma write_uninterrupted:
  assumes "m_inv m w" "sendable env"
  shows "\<exists>n T. n \<le> 4 \<and> run t_exec (BeginWrite t env # replicate n (WriteStep t)) (start_threads m w) = Some T \<and>
    calls T = [] \<and> (mgr T, wrld T) = snd (m_Write env m w)"
proof -
  have np: "\<not> panicked w"
    using assms(1) by (simp add: m_inv_def)
  obtain r k w1 where kw: "kw_Write env (kafka m) w = (r, stamped env, k, w1)" "same_disk w w1"
    using kw_Write_ok [of "kafka m" w env] assms by (auto simp: m_inv_def)
  then have np1: "\<not> panicked w1"
    using np by (simp add: same_disk_def)
  note defs = start_threads_def t_exec_def write_step_def set_call_def m_Write_def
  consider "\<not> healthy m" | "healthy m" "r = None" | e where "healthy m" "r = Some e"
    by (cases r) auto
  then show ?thesis
  proof cases
    case 1
    then show ?thesis
      using np by (intro exI [of _ 2]) (simp add: defs numeral_2_eq_2 split: prod.splits)
  next
    case 2
    then show ?thesis
      using np kw by (intro exI [of _ 2]) (simp add: defs numeral_2_eq_2)
  next
    case (3 e)
    then show ?thesis
      using np np1 kw by (intro exI [of _ 4]) (simp add: defs eval_nat_numeral split: prod.splits)
  qed
qed

end
