(* ===== verification/Writer_Theorems.thy ===== *)
theory Writer_Theorems
  imports Examples Writer_Threads
begin

text \<open>
  The properties of the writers: the manager's promise that an envelope is delivered or stored, the
  recovery, and the fallback files as a sequence of records over every operation that touches them.
\<close>

section \<open>The manager\<close>

text \<open>
  C8: an envelope given to the manager is never lost while the fallback files work: it is delivered
  to Kafka under its topic, with its key and body, or appended to the backlog on disk, and exactly one
  of the two; the manager stays healthy in the first case and is unhealthy after the second.
\<close>

theorem write_delivered_or_stored:
  assumes "m_inv m w" "writable env m w"
  shows "\<exists>m' w'. m_Write env m w = (stamped env, m', w') \<and> m_inv m' w' \<and>
    (if healthy m \<and> \<not> kafka_err w (step w + 1) then
       delivered w' = delivered w @ [(Topic env, message (stamped env))] \<and>
       backlog (fallback m') w' = backlog (fallback m) w \<and> healthy m'
     else
       delivered w' = delivered w \<and>
       backlog (fallback m') w' = backlog (fallback m) w @ [stored (stamped env)] \<and> \<not> healthy m')"
  using assms by (rule m_Write_ok)

theorem write_delivered_or_stored_witness:
  "\<exists>m' w'. m_Write ex_env ex_manager (ex_world True) = (ex_env, m', w') \<and>
     backlog (fallback m') w' = [stored ex_env] \<and> \<not> healthy m'"
proof -
  have "backlog (fallback ex_manager) (ex_world True) = []"
    by (simp add: backlog_def pending_def active_def ex_fallback ex_fw_def ex_world_def done_files_def)
  then show ?thesis
    using write_delivered_or_stored [OF ex_m_inv [of True] ex_writable]
    by (auto simp: ex_fields ex_world_def)
qed

text \<open>
  C11: a recovery pass over rolled records ends and sends a non-empty prefix of them to Kafka, in
  order, with the last of them failing at most; the records after the prefix and the active file
  stay. If Kafka accepts every call, every record of the prefix is delivered and the manager is
  healthy again, and if the clock stays before the deadline the prefix is everything.
\<close>

theorem recovery_replays_in_order:
  assumes "m_inv m w" "pending (fallback m) w \<noteq> []"
  shows "\<exists>m' w' n failed. tryRecover up m w = Some (m', w') \<and> 0 < n \<and> n \<le> length (pending (fallback m) w) \<and>
    pending (fallback m') w' = drop n (pending (fallback m) w) \<and>
    active (fallback m') w' = active (fallback m) w \<and>
    delivered w' = delivered w @ map (\<lambda>e. (Topic e, message (stamped e)))
      (take (if failed then n - 1 else n) (pending (fallback m) w)) \<and>
    m_inv m' w' \<and>
    ((\<forall>i. \<not> kafka_err w i) \<longrightarrow> \<not> failed \<and> healthy m') \<and>
    ((\<forall>i j. clock w j < clock w i + (recoveryInterval - 2 * second)) \<longrightarrow>
       failed \<or> n = length (pending (fallback m) w))"
proof -
  obtain e es where eq: "pending (fallback m) w = e # es"
    using assms(2) by (cases "pending (fallback m) w") auto
  obtain m' w' n failed where "tryRecover up m w = Some (m', w')" "replayed m w m' w' n failed" "0 < n"
    "healthy m' = (if failed \<and> n = 1 then healthy m else \<not> failed)" "(\<forall>i. \<not> kafka_err w i) \<longrightarrow> \<not> failed"
    "(\<forall>i j. clock w j < clock w i + (recoveryInterval - 2 * second)) \<longrightarrow> failed \<or> n = length (pending (fallback m) w)"
    using tryRecover_replay [OF assms(1) eq, of up] by (elim exE conjE) (rule that, assumption+)
  then show ?thesis
    by (intro exI [of _ m'] exI [of _ w'] exI [of _ n] exI [of _ failed]) (auto simp: replayed_def)
qed

lemma ex_clock_near: "clock (ex_done err) j < clock (ex_done err) i + (recoveryInterval - 2 * second)"
  by (simp add: ex_done_def ex_world_def recoveryInterval_def second_def)

theorem recovery_replays_in_order_witness:
  "\<exists>m' w'. tryRecover (\<lambda>_. False) ex_manager (ex_done False) = Some (m', w') \<and> pending (fallback m') w' = [] \<and>
     delivered w' = [(Topic (stored ex_env), message (stamped (stored ex_env)))] \<and> healthy m'"
proof -
  have up: "\<forall>i. \<not> kafka_err (ex_done False) i" "delivered (ex_done False) = []"
    by (simp_all add: ex_done_def ex_world_def delivered_def)
  show ?thesis
    using recovery_replays_in_order [OF ex_done_m_inv [of False], of "\<lambda>_. False"] ex_done_pending up
      ex_clock_near [of False]
    by (auto simp: ex_fallback)
qed



text \<open>
  C31: with no rolled record to replay, a recovery pass changes the health only on a successful probe
  of a broker and delivers nothing; while the manager is healthy or stopped a tick of the recovery
  loop does nothing at all, whatever waits in the files.
\<close>

theorem recovery_probe_only:
  assumes "m_inv m w" "pending (fallback m) w = []"
  shows "(\<exists>m' w'. tryRecover up m w = Some (m', w') \<and> healthy m' = (healthy m \<or> Probe up (kafka m) = None) \<and>
      delivered w' = delivered w \<and> backlog (fallback m') w' = backlog (fallback m) w) \<and>
    (healthy m1 \<or> stopped m1 \<longrightarrow> recovery_tick up m1 w1 = Some (m1, w1))"
proof
  show "\<exists>m' w'. tryRecover up m w = Some (m', w') \<and> healthy m' = (healthy m \<or> Probe up (kafka m) = None) \<and>
      delivered w' = delivered w \<and> backlog (fallback m') w' = backlog (fallback m) w"
    using tryRecover_empty [OF assms, of up] by (auto simp: replayed_def backlog_def)
  show "healthy m1 \<or> stopped m1 \<longrightarrow> recovery_tick up m1 w1 = Some (m1, w1)"
    by (auto simp: recovery_tick_def)
qed

theorem recovery_probe_only_witness:
  "(\<exists>m' w'. tryRecover (\<lambda>_. False) ex_manager (ex_world True) = Some (m', w') \<and> delivered w' = []) \<and>
   recovery_tick (\<lambda>_. False) ex_manager (ex_done True) = Some (ex_manager, ex_done True)"
proof -
  have "pending (fallback ex_manager) (ex_world True) = []" "delivered (ex_world True) = []" "healthy ex_manager"
    by (simp_all add: pending_def ex_fallback ex_fw_def ex_world_def done_files_def delivered_def ex_manager_def
        NewManager_def)
  then show ?thesis
    using recovery_probe_only [OF ex_m_inv [of True], of "\<lambda>_. False" ex_manager "ex_done True"] by auto
qed

section \<open>The fallback files\<close>

text \<open>
  C10: for any sequence of \<open>Write\<close> and \<open>Peek\<close> calls on working files, the records peeked so far
  followed by the records still on disk are the records on disk at the start followed by one for each
  write: nothing is lost, duplicated or reordered by appending, rolling and reading, and every call
  returns.
\<close>

theorem fallback_conserves_records:
  assumes "store_inv fw w" "admissible fb_append fb_pop fb_ready ops (fw, w)"
  shows "\<exists>rs fw' w'. run_ops fb_append fb_pop ops (fw, w) = Some (rs, fw', w') \<and> store_inv fw' w' \<and>
    rs @ backlog fw' w' = backlog fw w @ map (\<lambda>env. stored (stamped env)) (appended ops)"
  using fb.conservation [of "(fw, w)" ops] assms by (auto simp: fb_good_def backlog_def)

theorem fallback_conserves_records_witness:
  "\<exists>rs fw' w'. run_ops fb_append fb_pop [Append ex_env, Pop] (ex_fw, ex_world True) = Some (rs, fw', w') \<and>
     rs @ backlog fw' w' = [stored ex_env]"
proof -
  have "fb_ready ex_env (ex_fw, ex_world True)"
    using ex_env_wf ex_line_fits ex_fresh ex_room by (simp add: fb_ready_def)
  then have "admissible fb_append fb_pop fb_ready [Append ex_env, Pop] (ex_fw, ex_world True)"
    by (simp split: option.split)
  moreover have "backlog ex_fw (ex_world True) = []"
    by (simp add: backlog_def pending_def active_def ex_fw_def ex_world_def done_files_def)
  ultimately show ?thesis
    using fallback_conserves_records [OF ex_store_inv [of True], of "[Append ex_env, Pop]"]
    by (auto simp: ex_fields)
qed

text \<open>
  C27: \<open>Peek\<close> always returns on readable files, also when it has to skip undecodable lines and
  finished files; \<open>n\<close> calls in a row give the first \<open>n\<close> records of the rolled files, oldest file
  first, and leave the others.
\<close>

theorem peek_oldest_first:
  assumes "store_inv fw w"
  shows "\<exists>fw' w'. run_ops fb_append fb_pop (replicate n Pop) (fw, w) = Some (take n (pending fw w), fw', w') \<and>
    pending fw' w' = drop n (pending fw w) \<and> active fw' w' = active fw w \<and> store_inv fw' w'"
  using fb.pop_many [of "(fw, w)" fb_append n] assms by (auto simp: fb_good_def)

theorem peek_oldest_first_witness:
  "\<exists>fw' w'. run_ops fb_append fb_pop (replicate 1 Pop) (ex_fw, ex_done True) = Some ([stored ex_env], fw', w') \<and>
     pending fw' w' = []"
  using peek_oldest_first [OF ex_done_inv [of True], of 1] by (auto simp: ex_done_pending)



text \<open>
  C29: rolling the active file leaves at most \<open>maxFiles\<close> rolled files, the newest ones including the
  one just rolled, with their contents; only the oldest are removed.
\<close>

theorem rotate_keeps_newest_files:
  assumes "store_inv fw w" "current fw = Some h" "0 \<le> maxFiles fw"
  shows "\<exists>w'. rotate fw w = (None, drop_current fw, w') \<and>
    done_files (dirents w') =
      drop (length (done_files (dirents w)) + 1 - nat (maxFiles fw))
        (done_files (dirents w) @ [currentPath fw @ ''.done'']) \<and>
    int (length (done_files (dirents w'))) \<le> maxFiles fw \<and>
    (\<forall>n \<in> set (done_files (dirents w')). file_content w' n =
       (if n = currentPath fw @ ''.done'' then inodes w (h_ino h) else file_content w n))"
  using rotate_keeps_newest [OF assms] assms(3) by (auto simp: rolled_def)

theorem rotate_keeps_newest_files_witness:
  "\<exists>w'. rotate ex_afw ex_active = (None, drop_current ex_afw, w') \<and> done_files (dirents w') = [''7.log.done'']"
  using rotate_keeps_newest_files [OF ex_active_inv ex_afw_simps(1)] by (auto simp: ex_afw_simps ex_active_done)

text \<open>
  C32: an error of the file system while appending is returned: the writer gives the active file up,
  whose contents grow by the part of the line that was written, and counts no fallback write.
\<close>

theorem write_error_reported:
  assumes "current fw = Some h" "\<not> h_closed h" "encode_line (stamped env) = Some body" "fault w (step w) = Some n"
  shows "\<exists>w'. fb_Write env fw w = (Some (ErrSyscall ''write''), stamped env, drop_current fw, w') \<and>
    inodes w' = (inodes w)(h_ino h := inodes w (h_ino h) @ take n (body @ [CHR 0x0A])) \<and>
    dirents w' = dirents w \<and> mets w' = mets w"
  using assms by (simp add: fb_Write_def Let_def stamped_def append_line_def fh_Write_def file_Write_def
      fh_Close_def file_Close_def split: prod.split option.split if_split)

theorem write_error_reported_witness:
  "\<exists>w'. fb_Write ex_env ex_afw (ex_active\<lparr>fault := (\<lambda>_. Some 3)\<rparr>) =
     (Some (ErrSyscall ''write''), ex_env, drop_current ex_afw, w') \<and> mets w' = []"
  using write_error_reported [OF ex_afw_simps(1), of ex_env ex_line "ex_active\<lparr>fault := (\<lambda>_. Some 3)\<rparr>" 3]
    ex_line_ok(1) by (auto simp: ex_fields ex_active_def ex_world_def)

text \<open>With a negative file limit rolling the active file panics: the removal loop indexes past the list of rolled files.\<close>

lemma rotate_negative_limit_panics:
  assumes "store_inv fw w" "current fw = Some h" "maxFiles fw < 0"
  shows "panicked (snd (snd (rotate fw w)))"
proof -
  obtain w1 where "rotate fw w = (None, drop_current fw, enforce_max (maxFiles fw) (rolled fw w) w1)"
    using rotate_eq [OF assms(1,2)] by blast
  moreover have "length (rolled fw w) < nat (int (length (rolled fw w)) - maxFiles fw)"
    using assms(3) by linarith
  ultimately show ?thesis
    using assms(3) by (simp add: enforce_max_def Let_def panic_def)
qed

section \<open>Concurrent writes\<close>


lemma ex_threads:
  "\<exists>T. run t_exec [BeginWrite 1 ex_env, BeginWrite 2 ex_env, WriteStep 2, RecoveryStep (\<lambda>_. True)] (start_threads ex_manager (ex_world True)) = Some T \<and>
     refused T = 0 \<and> begun T = [ex_env, ex_env]"
  "all_ready [BeginWrite 1 ex_env, BeginWrite 2 ex_env, WriteStep 2, RecoveryStep (\<lambda>_. True)] (start_threads ex_manager (ex_world True))"
proof -
  have "keepable ex_env"
    using ex_env_wf ex_line_fits by (simp add: keepable_def replayable_def ex_fields)
  moreover have "healthy ex_manager" "\<not> panicked (ex_world True)"
    by (simp_all add: ex_manager_def NewManager_def ex_world_def)
  ultimately show "\<exists>T. run t_exec [BeginWrite 1 ex_env, BeginWrite 2 ex_env, WriteStep 2, RecoveryStep (\<lambda>_. True)] (start_threads ex_manager (ex_world True)) = Some T \<and>
     refused T = 0 \<and> begun T = [ex_env, ex_env]"
    "all_ready [BeginWrite 1 ex_env, BeginWrite 2 ex_env, WriteStep 2, RecoveryStep (\<lambda>_. True)] (start_threads ex_manager (ex_world True))"
    by (simp_all add: start_threads_def t_exec_def set_call_def write_step_def recovery_step_def ready_def)
qed


end
