(* ===== verification/Queue.thy ===== *)
theory Queue
  imports Metrics State_Machine
begin

text \<open>
  The queue of \<open>internal/queue/queue.go\<close>: a bounded channel, producers inside \<open>Enqueue\<close> and a pool
  of workers. The goroutines interleave, so the operations are cut at the points where they touch
  the mutex, the channel or a wait group, and a run of the queue is a sequence of such actions in
  any order. The function the workers call is a parameter; its effect is on a state \<open>sink\<close>.
\<close>

section \<open>State\<close>

text \<open>
  A worker: in the select of its main loop, in \<open>fn\<close> called from there, in \<open>producers.Wait\<close>, in the
  select of the drain loop, in \<open>fn\<close> called from there, returned.
\<close>

datatype 'e worker = Selecting | Running 'e | AwaitProducers | Draining | DrainRunning 'e | Exited

text \<open>
  \<open>blocked\<close> are the producers in the select of \<open>Enqueue\<close>; \<open>reporting\<close> and \<open>leaving\<close> count those that
  are past it, with result true and false, and have not called \<open>producers.Done\<close> yet. \<open>accepted\<close>,
  \<open>taken\<close>, \<open>handled\<close> and \<open>rejected\<close> record what happened: the envelopes sent on the channel and
  received from it, those \<open>fn\<close> has returned for, and those \<open>Enqueue\<close> refused.
\<close>

record ('e, 's) Queue =
  name :: string
  capacity :: nat
  ch :: "'e list"
  closed :: bool
  blocked :: "'e list"
  reporting :: nat
  leaving :: nat
  workers :: "'e worker list"
  accepted :: "'e list"
  taken :: "'e list"
  handled :: "'e list"
  rejected :: "'e list"
  sink :: 's
  depths :: metrics

text \<open>\<open>make\<close> with a negative capacity panics.\<close>

definition NewNamed :: "string \<Rightarrow> int \<Rightarrow> 's \<Rightarrow> ('e, 's) Queue option" where
  "NewNamed n cap s =
     (if cap < 0 then None
      else Some \<lparr>name = (if n = [] then ''default'' else n), capacity = nat cap, ch = [], closed = False,
             blocked = [], reporting = 0, leaving = 0, workers = [], accepted = [], taken = [],
             handled = [], rejected = [], sink = s, depths = []\<rparr>)"

definition New :: "int \<Rightarrow> 's \<Rightarrow> ('e, 's) Queue option" where
  "New cap s = NewNamed ''default'' cap s"

definition Start :: "int \<Rightarrow> ('e, 's) Queue \<Rightarrow> ('e, 's) Queue" where
  "Start n q = q\<lparr>workers := workers q @ replicate (nat n) Selecting\<rparr>"

definition Len :: "('e, 's) Queue \<Rightarrow> nat" where
  "Len q = length (ch q)"

definition reportDepth :: "('e, 's) Queue \<Rightarrow> ('e, 's) Queue" where
  "reportDepth q = q\<lparr>depths := QueueDepthSetForQueue (name q) (Len q) (depths q)\<rparr>"

section \<open>Actions\<close>

datatype 'e action =
    Enter 'e            \<comment> \<open>\<open>Enqueue\<close> up to its select\<close>
  | Send 'e             \<comment> \<open>its select sends into the buffer\<close>
  | Handoff 'e nat      \<comment> \<open>its select hands over to a waiting receiver\<close>
  | SeeDone 'e          \<comment> \<open>its select takes the closed \<open>done\<close> channel\<close>
  | Return bool         \<comment> \<open>\<open>reportDepth\<close> if accepted, then \<open>producers.Done\<close>\<close>
  | Recv nat            \<comment> \<open>worker: receive in the main loop\<close>
  | Finish nat          \<comment> \<open>worker: \<open>fn\<close> returns, \<open>reportDepth\<close>\<close>
  | WorkerDone nat      \<comment> \<open>worker: takes the closed \<open>done\<close> channel\<close>
  | Waited nat          \<comment> \<open>worker: \<open>producers.Wait\<close> returns\<close>
  | DrainExit nat       \<comment> \<open>worker: the drain loop finds the channel empty\<close>
  | StopEnqueue         \<comment> \<open>\<open>closeOnce\<close> body of \<open>StopEnqueue\<close>\<close>

definition no_producers :: "('e, 's) Queue \<Rightarrow> bool" where
  "no_producers q \<longleftrightarrow> blocked q = [] \<and> reporting q = 0 \<and> leaving q = 0"

definition set_worker :: "nat \<Rightarrow> 'e worker \<Rightarrow> ('e, 's) Queue \<Rightarrow> ('e, 's) Queue" where
  "set_worker i s q = q\<lparr>workers := (workers q)[i := s]\<rparr>"

definition worker_at :: "nat \<Rightarrow> ('e, 's) Queue \<Rightarrow> 'e worker" where
  "worker_at i q = (if i < length (workers q) then workers q ! i else Exited)"

definition enter :: "'e \<Rightarrow> ('e, 's) Queue \<Rightarrow> ('e, 's) Queue" where
  "enter e q = (if closed q then q\<lparr>rejected := rejected q @ [e]\<rparr> else q\<lparr>blocked := blocked q @ [e]\<rparr>)"

definition send :: "'e \<Rightarrow> ('e, 's) Queue \<Rightarrow> ('e, 's) Queue option" where
  "send e q =
     (if e \<in> set (blocked q) \<and> length (ch q) < capacity q then
        Some (q\<lparr>blocked := remove1 e (blocked q), ch := ch q @ [e], accepted := accepted q @ [e],
                reporting := reporting q + 1\<rparr>)
      else None)"

definition handoff :: "'e \<Rightarrow> nat \<Rightarrow> ('e, 's) Queue \<Rightarrow> ('e, 's) Queue option" where
  "handoff e i q =
     (if e \<in> set (blocked q) \<and> ch q = [] \<and> worker_at i q = Selecting then
        Some (set_worker i (Running e)
               (q\<lparr>blocked := remove1 e (blocked q), accepted := accepted q @ [e], taken := taken q @ [e],
                  reporting := reporting q + 1\<rparr>))
      else None)"

definition see_done :: "'e \<Rightarrow> ('e, 's) Queue \<Rightarrow> ('e, 's) Queue option" where
  "see_done e q =
     (if e \<in> set (blocked q) \<and> closed q then
        Some (q\<lparr>blocked := remove1 e (blocked q), rejected := rejected q @ [e], leaving := leaving q + 1\<rparr>)
      else None)"

definition producer_return :: "bool \<Rightarrow> ('e, 's) Queue \<Rightarrow> ('e, 's) Queue option" where
  "producer_return ok q =
     (if ok then (if 0 < reporting q then Some (reportDepth (q\<lparr>reporting := reporting q - 1\<rparr>)) else None)
      else (if 0 < leaving q then Some (q\<lparr>leaving := leaving q - 1\<rparr>) else None))"

definition recv :: "nat \<Rightarrow> ('e, 's) Queue \<Rightarrow> ('e, 's) Queue option" where
  "recv i q =
     (case ch q of
        [] \<Rightarrow> None
      | e # es \<Rightarrow>
          (let q1 = q\<lparr>ch := es, taken := taken q @ [e]\<rparr> in
           case worker_at i q of
             Selecting \<Rightarrow> Some (set_worker i (Running e) q1)
           | Draining \<Rightarrow> Some (set_worker i (DrainRunning e) q1)
           | _ \<Rightarrow> None))"

definition finish :: "('e \<Rightarrow> 's \<Rightarrow> 's) \<Rightarrow> nat \<Rightarrow> ('e, 's) Queue \<Rightarrow> ('e, 's) Queue option" where
  "finish fn i q =
     (let after = (\<lambda>e s. Some (reportDepth (set_worker i s
                     (q\<lparr>sink := fn e (sink q), handled := handled q @ [e]\<rparr>)))) in
      case worker_at i q of
        Running e \<Rightarrow> after e Selecting
      | DrainRunning e \<Rightarrow> after e Draining
      | _ \<Rightarrow> None)"

definition stop_enqueue :: "('e, 's) Queue \<Rightarrow> ('e, 's) Queue" where
  "stop_enqueue q = q\<lparr>closed := True\<rparr>"

fun exec :: "('e \<Rightarrow> 's \<Rightarrow> 's) \<Rightarrow> 'e action \<Rightarrow> ('e, 's) Queue \<Rightarrow> ('e, 's) Queue option" where
  "exec fn (Enter e) q = Some (enter e q)"
| "exec fn (Send e) q = send e q"
| "exec fn (Handoff e i) q = handoff e i q"
| "exec fn (SeeDone e) q = see_done e q"
| "exec fn (Return ok) q = producer_return ok q"
| "exec fn (Recv i) q = recv i q"
| "exec fn (Finish i) q = finish fn i q"
| "exec fn (WorkerDone i) q =
     (if worker_at i q = Selecting \<and> closed q then Some (set_worker i AwaitProducers q) else None)"
| "exec fn (Waited i) q =
     (if worker_at i q = AwaitProducers \<and> no_producers q then Some (set_worker i Draining q) else None)"
| "exec fn (DrainExit i) q =
     (if worker_at i q = Draining \<and> ch q = [] then Some (set_worker i Exited q) else None)"
| "exec fn StopEnqueue q = Some (stop_enqueue q)"

text \<open>When the calls of \<open>StopEnqueue\<close> and \<open>Close\<close> have returned.\<close>

definition stopped_q :: "('e, 's) Queue \<Rightarrow> bool" where
  "stopped_q q \<longleftrightarrow> closed q \<and> no_producers q"

definition Close_returns :: "('e, 's) Queue \<Rightarrow> bool" where
  "Close_returns q \<longleftrightarrow> stopped_q q \<and> (\<forall>wk \<in> set (workers q). wk = Exited)"

end
