(* ===== verification/Queue_Props.thy ===== *)
theory Queue_Props
  imports Queue
begin

text \<open>
  Invariants of the queue over every interleaving, by induction on the reachable states: the buffer
  respects its capacity, envelopes leave in the order they were accepted, each accepted envelope is
  in the buffer, in a worker or handled, and once a worker drains nothing is accepted any more.
  \<open>Close\<close> makes progress in every state and its steps decrease a measure.
\<close>

section \<open>The invariant\<close>

definition in_worker :: "'e worker \<Rightarrow> 'e list" where
  "in_worker wk = (case wk of Running e \<Rightarrow> [e] | DrainRunning e \<Rightarrow> [e] | _ \<Rightarrow> [])"

definition in_hand :: "('e, 's) Queue \<Rightarrow> 'e list" where
  "in_hand q = concat (map in_worker (workers q))"

definition drains :: "'e worker \<Rightarrow> bool" where
  "drains wk \<longleftrightarrow> (case wk of Draining \<Rightarrow> True | DrainRunning _ \<Rightarrow> True | Exited \<Rightarrow> True | _ \<Rightarrow> False)"

definition q_inv :: "('e, 's) Queue \<Rightarrow> bool" where
  "q_inv q \<longleftrightarrow>
     length (ch q) \<le> capacity q \<and>
     accepted q = taken q @ ch q \<and>
     mset (taken q) = mset (handled q) + mset (in_hand q) \<and>
     (\<forall>wk \<in> set (workers q). drains wk \<longrightarrow> stopped_q q) \<and>
     (\<forall>wk \<in> set (workers q). wk = Exited \<longrightarrow> ch q = []) \<and>
     (\<forall>wk \<in> set (workers q). wk = AwaitProducers \<longrightarrow> closed q)"

lemma mset_in_hand_update:
  assumes "i < length (workers q)"
  shows "mset (in_hand (set_worker i wk q)) + mset (in_worker (workers q ! i)) =
    mset (in_hand q) + mset (in_worker wk)"
proof -
  have "mset (concat (map in_worker (xs[i := wk]))) + mset (in_worker (xs ! i)) =
      mset (concat (map in_worker xs)) + mset (in_worker wk)" if "i < length xs" for xs
    using that by (induction xs arbitrary: i) (auto split: nat.splits)
  then show ?thesis
    using assms by (simp add: in_hand_def set_worker_def)
qed

lemma set_worker_simps [simp]:
  "ch (set_worker i wk q) = ch q" "closed (set_worker i wk q) = closed q"
  "blocked (set_worker i wk q) = blocked q" "reporting (set_worker i wk q) = reporting q"
  "leaving (set_worker i wk q) = leaving q" "accepted (set_worker i wk q) = accepted q"
  "taken (set_worker i wk q) = taken q" "handled (set_worker i wk q) = handled q"
  "rejected (set_worker i wk q) = rejected q" "sink (set_worker i wk q) = sink q"
  "capacity (set_worker i wk q) = capacity q" "workers (set_worker i wk q) = (workers q)[i := wk]"
  "stopped_q (set_worker i wk q) = stopped_q q" "no_producers (set_worker i wk q) = no_producers q"
  by (simp_all add: set_worker_def stopped_q_def no_producers_def)

lemma reportDepth_simps [simp]:
  "ch (reportDepth q) = ch q" "closed (reportDepth q) = closed q"
  "blocked (reportDepth q) = blocked q" "reporting (reportDepth q) = reporting q"
  "leaving (reportDepth q) = leaving q" "accepted (reportDepth q) = accepted q"
  "taken (reportDepth q) = taken q" "handled (reportDepth q) = handled q"
  "rejected (reportDepth q) = rejected q" "sink (reportDepth q) = sink q"
  "capacity (reportDepth q) = capacity q" "workers (reportDepth q) = workers q"
  "stopped_q (reportDepth q) = stopped_q q" "in_hand (reportDepth q) = in_hand q"
  by (simp_all add: reportDepth_def stopped_q_def no_producers_def in_hand_def)

lemma worker_atD: "worker_at i q = wk \<Longrightarrow> wk \<noteq> Exited \<Longrightarrow> i < length (workers q) \<and> workers q ! i = wk"
  by (auto simp: worker_at_def split: if_splits)

lemma in_hand_cong: "workers q' = workers q \<Longrightarrow> in_hand q' = in_hand q"
  by (simp add: in_hand_def)

text \<open>A worker changes its state; the queue around it has changed to \<open>q1\<close>.\<close>

lemma q_inv_worker:
  assumes inv: "q_inv q" and wk: "worker_at i q = old" "old \<noteq> Exited"
    and q1: "workers q1 = workers q" "length (ch q1) \<le> capacity q1" "accepted q1 = taken q1 @ ch q1"
      "mset (taken q1) + mset (in_worker old) + mset (handled q) = mset (handled q1) + mset (in_worker new) + mset (taken q)"
      "drains new \<longrightarrow> stopped_q q1" "new = Exited \<longrightarrow> ch q1 = []" "new = AwaitProducers \<longrightarrow> closed q1"
      "stopped_q q \<longrightarrow> stopped_q q1" "ch q = [] \<longrightarrow> ch q1 = []" "closed q \<longrightarrow> closed q1"
  shows "q_inv (set_worker i new q1)"
proof -
  have i: "i < length (workers q)" "workers q ! i = old"
    using worker_atD [OF wk] by auto
  have "mset (in_hand (set_worker i new q1)) + mset (in_worker old) = mset (in_hand q) + mset (in_worker new)"
    using mset_in_hand_update [of i q1 new] i q1(1) in_hand_cong [OF q1(1)] by simp
  moreover have "mset (taken q) = mset (handled q) + mset (in_hand q)"
    using inv by (simp add: q_inv_def)
  ultimately have "mset (in_hand (set_worker i new q1)) + mset (in_worker old) + mset (handled q1) + mset (taken q) =
      mset (taken q1) + mset (in_worker old) + mset (taken q)"
    using q1(4) by (simp add: ac_simps)
  then have "mset (taken q1) = mset (handled q1) + mset (in_hand (set_worker i new q1))"
    by (simp add: ac_simps)
  moreover have "wk \<in> set (workers q) \<or> wk = new" if "wk \<in> set ((workers q)[i := new])" for wk
    using that set_update_subset_insert by fastforce
  ultimately show ?thesis
    using inv q1 unfolding q_inv_def set_worker_simps by metis
qed


text \<open>A producer is in \<open>Enqueue\<close>, so no worker has gone past \<open>producers.Wait\<close>.\<close>

lemma q_inv_producer:
  assumes inv: "q_inv q" and busy: "\<not> stopped_q q"
    and q1: "workers q1 = workers q" "length (ch q1) \<le> capacity q1" "accepted q1 = taken q1 @ ch q1"
      "taken q1 = taken q" "handled q1 = handled q" "closed q1 = closed q"
  shows "q_inv q1"
proof -
  have "\<not> drains wk" if "wk \<in> set (workers q)" for wk
    using inv busy that by (auto simp: q_inv_def)
  moreover from this have "wk \<noteq> Exited" if "wk \<in> set (workers q)" for wk
    using that by (force simp: drains_def)
  ultimately show ?thesis
    using inv q1 in_hand_cong [OF q1(1)] by (simp add: q_inv_def)
qed

lemma drains_simps [simp]:
  "\<not> drains Selecting" "\<not> drains (Running e)" "\<not> drains AwaitProducers" "drains Draining"
  "drains (DrainRunning e)" "drains Exited"
  by (simp_all add: drains_def)

lemma in_worker_simps [simp]:
  "in_worker Selecting = []" "in_worker (Running e) = [e]" "in_worker AwaitProducers = []"
  "in_worker Draining = []" "in_worker (DrainRunning e) = [e]" "in_worker Exited = []"
  by (simp_all add: in_worker_def)

lemma q_inv_drains: "q_inv q \<Longrightarrow> worker_at i q = wk \<Longrightarrow> wk \<noteq> Exited \<Longrightarrow> drains wk \<Longrightarrow> stopped_q q"
  using worker_atD [of i q wk] nth_mem [of i "workers q"] by (auto simp: q_inv_def)

lemma q_inv_recv:
  assumes inv: "q_inv q" and "recv i q = Some q'"
  shows "q_inv q'"
proof -
  obtain e es where ch: "ch q = e # es"
    using assms(2) by (cases "ch q") (auto simp: recv_def)
  define q1 where "q1 = q\<lparr>ch := es, taken := taken q @ [e]\<rparr>"
  have "accepted q = taken q @ ch q" "length (ch q) \<le> capacity q"
    using inv by (simp_all add: q_inv_def)
  then have q1: "workers q1 = workers q" "length (ch q1) \<le> capacity q1" "accepted q1 = taken q1 @ ch q1"
    "mset (taken q1) = mset (taken q) + {#e#}" "handled q1 = handled q"
    "stopped_q q1 = stopped_q q" "closed q1 = closed q"
    using ch by (simp_all add: q1_def stopped_q_def no_producers_def)
  consider "worker_at i q = Selecting" "q' = set_worker i (Running e) q1"
    | "worker_at i q = Draining" "q' = set_worker i (DrainRunning e) q1"
    using assms(2) ch by (auto simp: recv_def Let_def q1_def split: worker.splits)
  then show ?thesis
  proof cases
    case 1
    then show ?thesis
      using q_inv_worker [OF inv 1(1), of q1 "Running e"] q1 ch by simp
  next
    case 2
    then show ?thesis
      using q_inv_worker [OF inv 2(1), of q1 "DrainRunning e"] q1 ch q_inv_drains [OF inv 2(1)] by simp
  qed
qed

lemma q_inv_reportDepth: "q_inv (reportDepth q) = q_inv q"
  by (simp add: q_inv_def)

lemma finishE:
  assumes "finish fn i q = Some q'"
  obtains e old new where "worker_at i q = old"
    "old = Running e \<and> new = Selecting \<or> old = DrainRunning e \<and> new = Draining"
    "q' = reportDepth (set_worker i new (q\<lparr>sink := fn e (sink q), handled := handled q @ [e]\<rparr>))"
  using assms by (auto simp: finish_def Let_def split: worker.splits)

lemma q_inv_finish:
  assumes inv: "q_inv q" and "finish fn i q = Some q'"
  shows "q_inv q'"
proof -
  obtain e old new where wk: "worker_at i q = old" "old = Running e \<and> new = Selecting \<or> old = DrainRunning e \<and> new = Draining"
    and q': "q' = reportDepth (set_worker i new (q\<lparr>sink := fn e (sink q), handled := handled q @ [e]\<rparr>))"
    using assms(2) by (rule finishE)
  define q1 where "q1 = q\<lparr>sink := fn e (sink q), handled := handled q @ [e]\<rparr>"
  have new: "in_worker old = [e]" "in_worker new = []" "new \<noteq> Exited" "new \<noteq> AwaitProducers" "old \<noteq> Exited"
    "drains new \<longrightarrow> stopped_q q"
    using wk(2) q_inv_drains [OF inv wk(1)] by auto
  have q: "length (ch q) \<le> capacity q" "accepted q = taken q @ ch q"
    using inv by (simp_all add: q_inv_def)
  have q1: "stopped_q q1 = stopped_q q"
    by (simp add: q1_def stopped_q_def no_producers_def)
  have "q_inv (set_worker i new q1)"
    by (rule q_inv_worker [OF inv wk(1) new(5)]) (use q q1 new in \<open>simp_all add: q1_def\<close>)
  then show ?thesis
    by (simp add: q' q1_def q_inv_reportDepth)
qed

lemma q_inv_bounds: "q_inv q \<Longrightarrow> length (ch q) \<le> capacity q \<and> accepted q = taken q @ ch q"
  by (simp add: q_inv_def)

lemma q_inv_enter: "q_inv q \<Longrightarrow> q_inv (enter e q)"
proof (cases "closed q")
  case False
  assume inv: "q_inv q"
  have "\<not> stopped_q q"
    using False by (simp add: stopped_q_def)
  then show ?thesis
    by (rule q_inv_producer [OF inv]) (use q_inv_bounds [OF inv] False in \<open>simp_all add: enter_def\<close>)
qed (simp add: enter_def q_inv_def stopped_q_def no_producers_def in_hand_def)

lemma busy_blocked: "e \<in> set (blocked q) \<Longrightarrow> \<not> stopped_q q"
  by (auto simp: stopped_q_def no_producers_def)

lemma q_inv_send:
  assumes inv: "q_inv q" and "send e q = Some q'"
  shows "q_inv q'"
proof -
  have "e \<in> set (blocked q)" "length (ch q) < capacity q"
    and q': "q' = q\<lparr>blocked := remove1 e (blocked q), ch := ch q @ [e], accepted := accepted q @ [e],
                reporting := reporting q + 1\<rparr>"
    using assms(2) by (auto simp: send_def split: if_splits)
  then show ?thesis
    by (intro q_inv_producer [OF inv busy_blocked]) (use q_inv_bounds [OF inv] in simp_all)
qed

lemma q_inv_handoff:
  assumes inv: "q_inv q" and "handoff e i q = Some q'"
  shows "q_inv q'"
proof -
  define q1 where "q1 = q\<lparr>blocked := remove1 e (blocked q), accepted := accepted q @ [e], taken := taken q @ [e],
                  reporting := reporting q + 1\<rparr>"
  have wk: "worker_at i q = Selecting" "e \<in> set (blocked q)" "ch q = []" "q' = set_worker i (Running e) q1"
    using assms(2) by (auto simp: handoff_def q1_def split: if_splits)
  then show ?thesis
    unfolding wk(4) using inv busy_blocked [OF wk(2)]
    by (intro q_inv_worker [OF inv wk(1)]) (simp_all add: q1_def q_inv_def)
qed

lemma q_inv_see_done:
  assumes inv: "q_inv q" and "see_done e q = Some q'"
  shows "q_inv q'"
proof -
  have "e \<in> set (blocked q)" and q': "q' = q\<lparr>blocked := remove1 e (blocked q),
      rejected := rejected q @ [e], leaving := leaving q + 1\<rparr>"
    using assms(2) by (auto simp: see_done_def split: if_splits)
  then show ?thesis
    by (intro q_inv_producer [OF inv busy_blocked]) (use q_inv_bounds [OF inv] in simp_all)
qed

lemma q_inv_return:
  assumes inv: "q_inv q" and "producer_return ok q = Some q'"
  shows "q_inv q'"
proof -
  have "\<not> stopped_q q" and q': "q' = reportDepth (q\<lparr>reporting := reporting q - 1\<rparr>) \<or> q' = q\<lparr>leaving := leaving q - 1\<rparr>"
    using assms(2) by (auto simp: producer_return_def stopped_q_def no_producers_def split: if_splits)
  then show ?thesis
    by (intro q_inv_producer [OF inv]) (use q_inv_bounds [OF inv] in auto)
qed

text \<open>The three steps in which a worker only changes its own state.\<close>

lemma q_inv_stop:
  assumes inv: "q_inv q"
  shows "worker_at i q = Selecting \<Longrightarrow> closed q \<Longrightarrow> q_inv (set_worker i AwaitProducers q)"
    and "worker_at i q = AwaitProducers \<Longrightarrow> no_producers q \<Longrightarrow> q_inv (set_worker i Draining q)"
    and "worker_at i q = Draining \<Longrightarrow> ch q = [] \<Longrightarrow> q_inv (set_worker i Exited q)"
proof -
  show "q_inv (set_worker i AwaitProducers q)" if "worker_at i q = Selecting" "closed q"
    using inv that by (intro q_inv_worker [OF inv that(1)]) (simp_all add: q_inv_def)
  show "q_inv (set_worker i Draining q)" if wk: "worker_at i q = AwaitProducers" "no_producers q"
  proof -
    have "stopped_q q"
      using inv wk(2) worker_atD [OF wk(1)] nth_mem [of i "workers q"] by (auto simp: q_inv_def stopped_q_def)
    then show ?thesis
      using inv by (intro q_inv_worker [OF inv wk(1)]) (simp_all add: q_inv_def)
  qed
  show "q_inv (set_worker i Exited q)" if "worker_at i q = Draining" "ch q = []"
    using inv that q_inv_drains [OF inv that(1)] by (intro q_inv_worker [OF inv that(1)]) (simp_all add: q_inv_def)
qed

lemma q_inv_stop_enqueue: "q_inv q \<Longrightarrow> q_inv (stop_enqueue q)"
  by (auto simp: stop_enqueue_def q_inv_def stopped_q_def no_producers_def in_hand_def)

lemmas q_inv_steps = q_inv_enter q_inv_send q_inv_handoff q_inv_see_done q_inv_return q_inv_recv q_inv_finish
  q_inv_stop q_inv_stop_enqueue

lemma q_inv_exec: "q_inv q \<Longrightarrow> exec fn a q = Some q' \<Longrightarrow> q_inv q'"
  by (cases a) (auto intro: q_inv_steps split: if_splits)

text \<open>A queue as \<open>NewNamed\<close> and \<open>Start\<close> leave it.\<close>

definition q_init :: "string \<Rightarrow> int \<Rightarrow> int \<Rightarrow> 's \<Rightarrow> ('e, 's) Queue \<Rightarrow> bool" where
  "q_init n cap k s q \<longleftrightarrow> map_option (Start k) (NewNamed n cap s) = Some q"

lemma q_init_inv: "q_init n cap k s q \<Longrightarrow> q_inv q"
  by (auto simp: q_init_def NewNamed_def Start_def q_inv_def in_hand_def split: if_splits)

interpretation q: invariant_machine "exec fn" q_inv for fn
  by unfold_locales (rule q_inv_exec)

text \<open>The state the workers act on changes only by their calls of \<open>fn\<close>, in the order they return.\<close>

lemma exec_sink:
  assumes "exec fn a q = Some q'"
  shows "\<exists>hs. handled q' = handled q @ hs \<and> sink q' = fold fn hs (sink q)"
proof (cases a)
  case (Finish i)
  then obtain e where "handled q' = handled q @ [e]" "sink q' = fn e (sink q)"
    using assms by (auto simp: finish_def Let_def split: worker.splits)
  then show ?thesis
    by (intro exI [of _ "[e]"]) simp
qed (use assms in \<open>auto simp: enter_def send_def handoff_def see_done_def producer_return_def recv_def
    stop_enqueue_def Let_def split: if_splits list.splits worker.splits\<close>)

interpretation q_sink: invariant_machine "exec fn" "\<lambda>q. sink q = fold fn (handled q) s0" for fn s0
proof unfold_locales
  show "sink q = fold fn (handled q) s0 \<Longrightarrow> exec fn a q = Some q' \<Longrightarrow> sink q' = fold fn (handled q') s0" for q a q'
    using exec_sink [of fn a q q'] by auto
qed

lemma q_init_sink: "q_init n cap k s q \<Longrightarrow> sink q = fold fn (handled q) s"
  by (auto simp: q_init_def NewNamed_def Start_def split: if_splits)

lemma exec_workers: "exec fn a q = Some q' \<Longrightarrow> length (workers q') = length (workers q)"
  by (cases a) (auto simp: enter_def send_def handoff_def see_done_def producer_return_def recv_def finish_def
      stop_enqueue_def Let_def split: if_splits list.splits worker.splits)

interpretation q_workers: invariant_machine "exec fn" "\<lambda>q. length (workers q) = n" for fn n
  by unfold_locales (simp add: exec_workers)

lemma exec_capacity: "exec fn a q = Some q' \<Longrightarrow> capacity q' = capacity q"
  by (cases a) (auto simp: enter_def send_def handoff_def see_done_def producer_return_def recv_def finish_def
      stop_enqueue_def Let_def split: if_splits list.splits worker.splits)

interpretation q_capacity: invariant_machine "exec fn" "\<lambda>q. capacity q = n" for fn n
  by unfold_locales (simp add: exec_capacity)

lemma q_init_capacity: "q_init n cap k s q \<Longrightarrow> capacity q = nat cap"
  by (auto simp: q_init_def NewNamed_def Start_def split: if_splits)

lemma q_init_workers: "q_init n cap k s q \<Longrightarrow> length (workers q) = nat k"
  by (auto simp: q_init_def NewNamed_def Start_def split: if_splits)

section \<open>What has happened when Close returns\<close>

lemma q_inv_closed:
  assumes "q_inv q" "Close_returns q" "workers q \<noteq> []"
  shows "ch q = []" "mset (handled q) = mset (accepted q)" "taken q = accepted q"
proof -
  obtain wk where "wk \<in> set (workers q)"
    using assms(3) by (cases "workers q") auto
  then show "ch q = []"
    using assms(1,2) by (auto simp: q_inv_def Close_returns_def)
  moreover have "in_hand q = []"
    using assms(2) by (auto simp: in_hand_def Close_returns_def)
  ultimately show "mset (handled q) = mset (accepted q)" "taken q = accepted q"
    using assms(1) by (simp_all add: q_inv_def)
qed

lemma stopped_exec:
  assumes "exec fn a q = Some q'" "stopped_q q"
  shows "stopped_q q' \<and> accepted q' = accepted q"
proof (cases a)
  case (Return ok)
  then show ?thesis
    using assms by (auto simp: producer_return_def stopped_q_def no_producers_def split: if_splits)
qed (use assms in \<open>auto simp: enter_def send_def handoff_def see_done_def recv_def finish_def stop_enqueue_def
    stopped_q_def no_producers_def Let_def set_worker_def reportDepth_def split: if_splits list.splits worker.splits\<close>)

section \<open>Close ends\<close>

text \<open>The actions of goroutines that are already there; the others are new calls.\<close>

fun internal :: "'e action \<Rightarrow> bool" where
  "internal (Enter _) = False"
| "internal StopEnqueue = False"
| "internal _ = True"

fun work_of :: "'e worker \<Rightarrow> nat" where
  "work_of Selecting = 3"
| "work_of (Running _) = 4"
| "work_of AwaitProducers = 2"
| "work_of Draining = 1"
| "work_of (DrainRunning _) = 2"
| "work_of Exited = 0"

definition work_left :: "('e, 's) Queue \<Rightarrow> nat" where
  "work_left q =
     5 * length (blocked q) + reporting q + leaving q + 3 * length (ch q) + sum_list (map work_of (workers q))"

lemma work_update:
  "i < length xs \<Longrightarrow> sum_list (map work_of (xs[i := wk])) + work_of (xs ! i) = sum_list (map work_of xs) + work_of wk"
  by (induction xs arbitrary: i) (auto split: nat.splits)

lemma work_set_worker:
  assumes "worker_at i q = old" "old \<noteq> Exited"
  shows "work_left (set_worker i new (q\<lparr>sink := s, handled := h\<rparr>)) + work_of old = work_left q + work_of new"
    "work_left (set_worker i new q) + work_of old = work_left q + work_of new"
  using work_update [of i "workers q" new] worker_atD [OF assms] by (simp_all add: work_left_def)

lemma work_reportDepth [simp]: "work_left (reportDepth q) = work_left q"
  by (simp add: work_left_def)

lemma length_remove1_less: "x \<in> set xs \<Longrightarrow> Suc (length (remove1 x xs)) = length xs"
  by (induction xs) auto

lemma recv_decreases:
  assumes "recv i q = Some q'"
  shows "work_left q' < work_left q"
proof -
  obtain x xs where ch: "ch q = x # xs"
    using assms by (cases "ch q") (auto simp: recv_def)
  then show ?thesis
    using assms work_update [of i "workers q" "Running x"] work_update [of i "workers q" "DrainRunning x"]
      worker_atD [of i q Selecting] worker_atD [of i q Draining]
    by (auto simp: recv_def Let_def work_left_def split: worker.splits)
qed

lemma finish_decreases:
  assumes "finish fn i q = Some q'"
  shows "work_left q' < work_left q"
proof -
  obtain e old new where wk: "worker_at i q = old"
      "old = Running e \<and> new = Selecting \<or> old = DrainRunning e \<and> new = Draining"
    and q': "q' = reportDepth (set_worker i new (q\<lparr>sink := fn e (sink q), handled := handled q @ [e]\<rparr>))"
    using assms by (rule finishE)
  have "old \<noteq> Exited" "work_of new < work_of old"
    using wk(2) by auto
  then show ?thesis
    using work_set_worker(1) [OF wk(1), of new "handled q @ [e]" "fn e (sink q)"] by (simp add: q')
qed

lemma exec_decreases:
  assumes "exec fn a q = Some q'" "internal a"
  shows "work_left q' < work_left q"
proof (cases a)
  case (Send e)
  then show ?thesis
    using assms length_remove1_less [of e "blocked q"] by (auto simp: send_def work_left_def split: if_splits)
next
  case (SeeDone e)
  then show ?thesis
    using assms length_remove1_less [of e "blocked q"] by (auto simp: see_done_def work_left_def split: if_splits)
next
  case (Return ok)
  then show ?thesis
    using assms by (auto simp: producer_return_def work_left_def split: if_splits)
next
  case (Handoff e i)
  then show ?thesis
    using assms length_remove1_less [of e "blocked q"] work_update [of i "workers q" "Running e"]
      worker_atD [of i q Selecting] by (auto simp: handoff_def work_left_def split: if_splits)
next
  case (Recv i)
  then show ?thesis
    using assms recv_decreases by simp
next
  case (Finish i)
  then show ?thesis
    using assms finish_decreases by simp
next
  case (WorkerDone i)
  then show ?thesis
    using assms work_set_worker(2) [of i q Selecting AwaitProducers] by (auto split: if_splits)
next
  case (Waited i)
  then show ?thesis
    using assms work_set_worker(2) [of i q AwaitProducers Draining] by (auto split: if_splits)
next
  case (DrainExit i)
  then show ?thesis
    using assms work_set_worker(2) [of i q Draining Exited] by (auto split: if_splits)
qed (use assms in simp_all)

lemma enabledI: "exec fn a q \<noteq> None \<Longrightarrow> internal a \<Longrightarrow> \<exists>a q'. internal a \<and> exec fn a q = Some q'"
  by auto

lemma producer_progress: "\<not> no_producers q \<Longrightarrow> closed q \<Longrightarrow> \<exists>a q'. internal a \<and> exec fn a q = Some q'"
proof -
  assume "\<not> no_producers q" "closed q"
  then consider e where "e \<in> set (blocked q)" | "0 < reporting q" | "0 < leaving q"
    by (cases "blocked q") (auto simp: no_producers_def)
  then show ?thesis
  proof cases
    case (1 e)
    then show ?thesis
      using \<open>closed q\<close> by (intro enabledI [of fn "SeeDone e"]) (simp_all add: see_done_def)
  next
    case 2
    then show ?thesis
      by (intro enabledI [of fn "Return True"]) (simp_all add: producer_return_def)
  next
    case 3
    then show ?thesis
      by (intro enabledI [of fn "Return False"]) (simp_all add: producer_return_def)
  qed
qed

lemma worker_progress:
  assumes "worker_at i q \<noteq> Exited" "closed q" "no_producers q"
  shows "\<exists>a q'. internal a \<and> exec fn a q = Some q'"
proof (cases "worker_at i q")
  case Selecting
  then show ?thesis
    using assms(2) by (intro enabledI [of fn "WorkerDone i"]) simp_all
next
  case (Running e)
  then show ?thesis
    by (intro enabledI [of fn "Finish i"]) (simp_all add: finish_def Let_def)
next
  case AwaitProducers
  then show ?thesis
    using assms(3) by (intro enabledI [of fn "Waited i"]) simp_all
next
  case Draining
  then have "exec fn (if ch q = [] then DrainExit i else Recv i) q \<noteq> None"
    by (cases "ch q") (simp_all add: recv_def Let_def)
  then show ?thesis
    by (rule enabledI) simp
next
  case (DrainRunning e)
  then show ?thesis
    by (intro enabledI [of fn "Finish i"]) (simp_all add: finish_def Let_def)
qed (use assms in simp)

lemma close_progress:
  assumes "closed q" "\<not> Close_returns q"
  shows "\<exists>a q'. internal a \<and> exec fn a q = Some q'"
proof (cases "no_producers q")
  case True
  then obtain i where "i < length (workers q)" "workers q ! i \<noteq> Exited"
    using assms by (auto simp: Close_returns_def stopped_q_def in_set_conv_nth)
  then have "worker_at i q \<noteq> Exited"
    by (simp add: worker_at_def)
  then show ?thesis
    using worker_progress [OF _ assms(1) True] by blast
qed (use producer_progress assms in blast)

lemma closed_exec: "exec fn a q = Some q' \<Longrightarrow> closed q \<Longrightarrow> closed q'"
  by (cases a) (auto simp: enter_def send_def handoff_def see_done_def producer_return_def recv_def finish_def
      stop_enqueue_def Let_def set_worker_def reportDepth_def split: if_splits list.splits worker.splits)

interpretation q_close: ending_machine "exec fn" closed internal Close_returns work_left for fn
proof unfold_locales
  show "closed q \<Longrightarrow> exec fn a q = Some q' \<Longrightarrow> closed q'" for q a q'
    using closed_exec by blast
  show "closed q \<Longrightarrow> internal a \<Longrightarrow> exec fn a q = Some q' \<Longrightarrow> work_left q' < work_left q" for a q q'
    using exec_decreases by blast
  show "closed q \<Longrightarrow> \<not> Close_returns q \<Longrightarrow> \<exists>a q'. internal a \<and> exec fn a q = Some q'" for q
    by (rule close_progress)
qed

interpretation q_stop: invariant_machine "exec fn" "\<lambda>q. stopped_q q \<and> accepted q = xs" for fn xs
  by unfold_locales (auto dest: stopped_exec)


section \<open>Properties\<close>

text \<open>
  C12: whatever the interleaving of producers, workers and \<open>Close\<close>: the channel never holds more than
  its capacity, envelopes are received in the order they were accepted, and when \<open>Close\<close> has returned
  on a queue with at least one worker, every accepted envelope has been handled exactly once and the
  state the workers act on is the result of handling them one after the other.
\<close>

theorem queue_close_handles_all:
  assumes "q_init n cap k s0 q0" "reach (exec fn) q0 q"
  shows "length (ch q) \<le> nat cap \<and> accepted q = taken q @ ch q \<and> sink q = fold fn (handled q) s0 \<and>
    (0 < k \<and> Close_returns q \<longrightarrow> taken q = accepted q \<and> mset (handled q) = mset (accepted q))"
proof -
  have inv: "q_inv q"
    using q.inv_reach [OF assms(2)] q_init_inv [OF assms(1)] by blast
  have len: "length (workers q) = nat k"
    using q_workers.inv_reach [OF assms(2)] q_init_workers [OF assms(1)] by blast
  have "capacity q = nat cap"
    using q_capacity.inv_reach [OF assms(2)] q_init_capacity [OF assms(1)] by blast
  then have "length (ch q) \<le> nat cap" "accepted q = taken q @ ch q"
    using inv unfolding q_inv_def by simp_all
  moreover have "sink q = fold fn (handled q) s0"
    using q_sink.inv_reach [OF assms(2)] q_init_sink [OF assms(1)] by blast
  moreover have "taken q = accepted q \<and> mset (handled q) = mset (accepted q)" if "0 < k \<and> Close_returns q"
  proof -
    have "workers q \<noteq> []"
      using that len by auto
    then show ?thesis
      using q_inv_closed(2,3) [OF inv conjunct2 [OF that]] by blast
  qed
  ultimately show ?thesis
    by blast
qed

lemma ex_queue_init: "q_init ''q'' 1 1 (0 :: nat) \<lparr>name = ''q'', capacity = 1, ch = [], closed = False, blocked = [],
    reporting = 0, leaving = 0, workers = [Selecting], accepted = [], taken = [], handled = [], rejected = [],
    sink = 0, depths = []\<rparr>"
  by (simp add: q_init_def NewNamed_def Start_def)

definition ex_queue :: "(nat, nat) Queue" where
  "ex_queue = \<lparr>name = ''q'', capacity = 1, ch = [], closed = False, blocked = [],
    reporting = 0, leaving = 0, workers = [Selecting], accepted = [], taken = [], handled = [], rejected = [],
    sink = 0, depths = []\<rparr>"

lemmas exec_defs = enter_def send_def producer_return_def recv_def finish_def stop_enqueue_def set_worker_def
  worker_at_def reportDepth_def no_producers_def stopped_q_def Close_returns_def

theorem queue_close_handles_all_witness:
  "\<exists>q. run (exec (+)) [Enter 5, Send 5, Return True, Recv 0, Finish 0, StopEnqueue, WorkerDone 0, Waited 0, DrainExit 0]
         ex_queue = Some q \<and> mset (handled q) = mset (accepted q) \<and> accepted q = [5] \<and> sink q = fold (+) (handled q) 0"
proof -
  have "\<exists>q. run (exec (+)) [Enter 5, Send 5, Return True, Recv 0, Finish 0, StopEnqueue, WorkerDone 0, Waited 0, DrainExit 0]
         ex_queue = Some q \<and> Close_returns q \<and> accepted q = [5]"
    by (simp add: ex_queue_def exec_defs Let_def)
  then obtain q where run: "run (exec (+)) [Enter 5, Send 5, Return True, Recv 0, Finish 0, StopEnqueue, WorkerDone 0,
      Waited 0, DrainExit 0] ex_queue = Some q" and q: "Close_returns q" "accepted q = [5]"
    by blast
  have "q_init ''q'' 1 1 0 ex_queue"
    using ex_queue_init by (simp add: ex_queue_def)
  from queue_close_handles_all [OF this reach_run [OF reach_init run]] run q show ?thesis
    by (metis zero_less_one)
qed

text \<open>
  C13: \<open>Close\<close> ends: once the queue is closed, the goroutines that are in it make at most
  \<open>work_left\<close> steps, they are never stuck before \<open>Close\<close> has returned, and so every way to let them
  run leads there; meanwhile a stopped queue accepts nothing more.
\<close>

theorem queue_close_ends:
  assumes "closed q" "run (exec fn) as q = Some q'" "\<forall>a \<in> set as. internal a"
  shows "length as \<le> work_left q \<and> (Close_returns q' \<or> (\<exists>a q''. internal a \<and> exec fn a q' = Some q'')) \<and>
    (stopped_q q \<longrightarrow> accepted q' = accepted q)"
proof (intro conjI)
  show "length as \<le> work_left q"
    using q_close.run_bounded [OF assms] by simp
  have "closed q'"
    using q_close.inv_run [OF assms(2,1)] .
  then show "Close_returns q' \<or> (\<exists>a q''. internal a \<and> exec fn a q' = Some q'')"
    using q_close.progress by blast
  show "stopped_q q \<longrightarrow> accepted q' = accepted q"
    using q_stop.inv_run [OF assms(2)] by blast
qed


theorem queue_close_ends_witness:
  "\<exists>q'. run (exec (+)) [WorkerDone 0] (ex_queue\<lparr>closed := True\<rparr>) = Some q' \<and>
     (Close_returns q' \<or> (\<exists>a q''. internal a \<and> exec (+) a q' = Some q''))"
proof -
  have "\<exists>q'. run (exec (+)) [WorkerDone 0] (ex_queue\<lparr>closed := True\<rparr>) = Some q'"
    by (simp add: ex_queue_def exec_defs)
  then obtain q' where run: "run (exec (+)) [WorkerDone 0] (ex_queue\<lparr>closed := True\<rparr>) = Some q'"
    by blast
  have "\<forall>a \<in> set [WorkerDone 0]. internal a" "closed (ex_queue\<lparr>closed := True\<rparr>)"
    by simp_all
  then show ?thesis
    using queue_close_ends [OF _ run] run by blast
qed

end
