(* ===== verification/Server.thy ===== *)
theory Server
  imports Frame Metrics State_Machine
begin

text \<open>
  The TCP server of \<open>internal/server/tcp.go\<close>: the accept loop with its connection limit, the read
  loop of a connection, and the shutdown. The goroutines interleave: accepting a connection, one turn
  of a read loop, the end of a read loop and the steps of \<open>Shutdown\<close> are the actions of a machine.
  What \<open>Enqueue\<close> answers is an input of the turn: it refuses only once the queues were stopped.
\<close>

section \<open>One connection\<close>

record server_config =
  Address :: string
  MaxConnections :: int
  MaxMessageSize :: int
  ConnReadTimeout :: int

text \<open>
  One turn of the loop of \<open>serve\<close> on the bytes the connection still delivers: the loop ends, a message
  is dropped for its version, or a message goes to the critical or the normal queue.
\<close>

datatype turn = TurnEnd | TurnSkip string string | TurnPut bool Envelope string

definition serve_turn :: "server_config \<Rightarrow> string \<Rightarrow> turn" where
  "serve_turn cfg conn =
     (case readFrame (MaxMessageSize cfg) conn of
        Inl e \<Rightarrow> TurnEnd
      | Inr (env, conn1) \<Rightarrow>
          if Version env \<noteq> EnvVersion then TurnSkip (Topic env) conn1
          else TurnPut (Topic env = TopicEventTracks) env conn1)"

lemma readFrame_shorter: "readFrame n conn = Inr (env, conn1) \<Longrightarrow> length conn1 < length conn"
  by (auto simp: readFrame_def ReadFull_def Let_def split: if_splits option.splits)

lemma serve_turn_shorter [simp]:
  "serve_turn cfg conn = TurnSkip t conn1 \<Longrightarrow> length conn1 < length conn"
  "serve_turn cfg conn = TurnPut c env conn1 \<Longrightarrow> length conn1 < length conn"
  by (auto simp: serve_turn_def split: sum.splits prod.splits if_splits dest: readFrame_shorter)

text \<open>The messages a connection puts into the queues, with the queue, while \<open>Enqueue\<close> accepts.\<close>

function serve_all :: "server_config \<Rightarrow> string \<Rightarrow> (bool \<times> Envelope) list" where
  "serve_all cfg conn =
     (case serve_turn cfg conn of
        TurnEnd \<Rightarrow> []
      | TurnSkip t conn1 \<Rightarrow> serve_all cfg conn1
      | TurnPut c env conn1 \<Rightarrow> (c, env) # serve_all cfg conn1)"
  by pat_completeness auto
termination
  by (relation "measure (\<lambda>(cfg, conn). length conn)") auto

declare serve_all.simps [simp del]

section \<open>The server\<close>

datatype listener = NoListener | Listening | ListenerClosed

text \<open>Where the call of \<open>Shutdown\<close> is.\<close>

datatype phase = Serving | AwaitAccept | AwaitConns | AwaitGoroutines | ShutdownReturned

text \<open>
  \<open>conns\<close> are the connections with the bytes they still deliver, \<open>returning\<close> counts read loops whose
  clean-up has run but not \<open>connsWG.Done\<close>. \<open>queued\<close> is what went to the queues, in order.
\<close>

record Server =
  cfg :: server_config
  listener :: listener
  conns :: "(nat \<times> string) list"
  connCount :: int
  returning :: nat
  acceptStarted :: bool
  acceptDone :: bool
  shutdownMode :: bool
  phase :: phase
  stops :: bool
  queued :: "(bool \<times> Envelope) list"
  smets :: metrics

definition New :: "server_config \<Rightarrow> Server" where
  "New c = \<lparr>cfg = c, listener = NoListener, conns = [], connCount = 0, returning = 0,
     acceptStarted = False, acceptDone = False, shutdownMode = False, phase = Serving, stops = False,
     queued = [], smets = []\<rparr>"

text \<open>
  \<open>Start\<close> up to its accept loop: the compare-and-swap, where a second call is an error, and
  \<open>Listen\<close>, whose failure ends the call.
\<close>

definition start_call :: "Server \<Rightarrow> error option \<times> Server" where
  "start_call s =
     (if acceptStarted s then (Some (ErrMsg ''server already started''), s)
      else (None, s\<lparr>acceptStarted := True\<rparr>))"

definition start_listen :: "bool \<Rightarrow> Server \<Rightarrow> error option \<times> Server" where
  "start_listen listen_ok s =
     (if listen_ok then (None, s\<lparr>listener := Listening\<rparr>)
      else (Some (ErrSyscall ''listen''), s\<lparr>acceptDone := True\<rparr>))"

definition accept_conn :: "nat \<Rightarrow> string \<Rightarrow> Server \<Rightarrow> Server" where
  "accept_conn cid bytes s =
     (if MaxConnections (cfg s) < connCount s + 1 then s
      else s\<lparr>connCount := connCount s + 1, conns := (cid, bytes) # conns s, smets := ConnInc (smets s)\<rparr>)"

text \<open>The deferred clean-up of \<open>serve\<close>.\<close>

definition end_serve :: "nat \<Rightarrow> Server \<Rightarrow> Server" where
  "end_serve cid s =
     s\<lparr>conns := filter (\<lambda>p. fst p \<noteq> cid) (conns s), connCount := connCount s - 1, smets := ConnDec (smets s),
       returning := returning s + 1\<rparr>"

definition set_bytes :: "nat \<Rightarrow> string \<Rightarrow> Server \<Rightarrow> Server" where
  "set_bytes cid bytes s = s\<lparr>conns := map (\<lambda>p. if fst p = cid then (cid, bytes) else p) (conns s)\<rparr>"

definition serve_step :: "nat \<Rightarrow> bool \<Rightarrow> Server \<Rightarrow> Server option" where
  "serve_step cid ok s =
     (case map_of (conns s) cid of
        None \<Rightarrow> None
      | Some bytes \<Rightarrow>
          (case serve_turn (cfg s) bytes of
             TurnEnd \<Rightarrow> Some (end_serve cid s)
           | TurnSkip t rest \<Rightarrow>
               Some (set_bytes cid rest (s\<lparr>smets := MessageObserved t ''version_dropped'' (smets s)\<rparr>))
           | TurnPut c env rest \<Rightarrow>
               if ok then Some (set_bytes cid rest (s\<lparr>queued := queued s @ [(c, env)]\<rparr>))
               else if stops s then Some (end_serve cid s)
               else None))"

definition forceCloseAll :: "Server \<Rightarrow> Server" where
  "forceCloseAll s = s\<lparr>conns := map (\<lambda>p. (fst p, [])) (conns s)\<rparr>"

text \<open>\<open>Shutdown\<close> up to its first wait; the read deadlines it sets show up as connections running dry.\<close>

definition shutdown_call :: "Server \<Rightarrow> Server" where
  "shutdown_call s =
     s\<lparr>listener := (if listener s = Listening then ListenerClosed else listener s), shutdownMode := True,
       phase := (if acceptStarted s then AwaitAccept else AwaitConns)\<rparr>"

definition shutdown_force :: "Server \<Rightarrow> Server" where
  "shutdown_force s = (forceCloseAll (s\<lparr>stops := True\<rparr>))\<lparr>phase := AwaitGoroutines\<rparr>"

datatype server_action =
    StartCall                \<comment> \<open>\<open>Start\<close>: compare-and-swap\<close>
  | Listen bool              \<comment> \<open>\<open>Start\<close>: \<open>net.Listen\<close> returns\<close>
  | Accept nat string        \<comment> \<open>\<open>Accept\<close> returns a connection\<close>
  | AcceptClosed             \<comment> \<open>\<open>Accept\<close> fails with \<open>ErrClosed\<close>: \<open>Start\<close> returns\<close>
  | ServeTurn nat bool       \<comment> \<open>a turn of a read loop\<close>
  | RunDry nat               \<comment> \<open>peer or deadline: no more bytes\<close>
  | ServeDone                \<comment> \<open>\<open>connsWG.Done\<close>\<close>
  | ShutdownCall
  | SeeAcceptDone
  | CtxDone
  | SeeNoConns
  | GoroutinesDone

fun server_exec :: "server_action \<Rightarrow> Server \<Rightarrow> Server option" where
  "server_exec StartCall s = Some (snd (start_call s))"
| "server_exec (Listen ok) s =
     (if acceptStarted s \<and> \<not> acceptDone s \<and> listener s = NoListener
      then Some (snd (start_listen ok s)) else None)"
| "server_exec (Accept cid bytes) s =
     (if listener s = Listening \<and> acceptStarted s \<and> map_of (conns s) cid = None
      then Some (accept_conn cid bytes s) else None)"
| "server_exec AcceptClosed s =
     (if listener s = ListenerClosed \<and> \<not> acceptDone s then Some (s\<lparr>acceptDone := True\<rparr>) else None)"
| "server_exec (ServeTurn cid ok) s = serve_step cid ok s"
| "server_exec (RunDry cid) s = Some (set_bytes cid [] s)"
| "server_exec ServeDone s = (if 0 < returning s then Some (s\<lparr>returning := returning s - 1\<rparr>) else None)"
| "server_exec ShutdownCall s = (if phase s = Serving then Some (shutdown_call s) else None)"
| "server_exec SeeAcceptDone s =
     (if phase s = AwaitAccept \<and> acceptDone s then Some (s\<lparr>phase := AwaitConns\<rparr>) else None)"
| "server_exec CtxDone s =
     (if phase s = AwaitAccept \<or> phase s = AwaitConns then Some (shutdown_force s) else None)"
| "server_exec SeeNoConns s =
     (if phase s = AwaitConns \<and> connCount s = 0 then Some (s\<lparr>phase := AwaitGoroutines\<rparr>) else None)"
| "server_exec GoroutinesDone s =
     (if phase s = AwaitGoroutines \<and> conns s = [] \<and> returning s = 0
      then Some (s\<lparr>phase := ShutdownReturned\<rparr>) else None)"

end
