(* ===== verification/Server_Props.thy ===== *)
theory Server_Props
  imports Server
begin

text \<open>
  Invariants of the server over every interleaving: the connection count, its limit and its gauge;
  and what has happened when \<open>Shutdown\<close> returns. For one connection, what its byte stream puts into
  the queues.
\<close>

section \<open>The connection count\<close>

definition conn_gauge :: "Server \<Rightarrow> int" where
  "conn_gauge s = gauge Connections [] (smets s)"

definition server_inv :: "server_config \<Rightarrow> Server \<Rightarrow> bool" where
  "server_inv c s \<longleftrightarrow>
     cfg s = c \<and> connCount s = int (length (conns s)) \<and> distinct (map fst (conns s)) \<and>
     connCount s \<le> max 0 (MaxConnections c) \<and> conn_gauge s = connCount s"

lemma server_inv_New: "server_inv c (New c)"
  by (simp add: server_inv_def New_def conn_gauge_def gauge_def)

lemma gauge_calls:
  "gauge Connections [] (ConnInc m) = gauge Connections [] m + 1"
  "gauge Connections [] (ConnDec m) = gauge Connections [] m - 1"
  "gauge Connections [] (MessageObserved t out m) = gauge Connections [] m"
  by (simp_all add: gauge_append ConnInc_def ConnDec_def MessageObserved_def)

lemma map_fst_set_bytes: "map fst (map (\<lambda>p. if fst p = i then (i, b) else p) cs) = map fst cs"
  by (induction cs) auto

lemma length_remove_conn:
  "distinct (map fst cs) \<Longrightarrow> map_of cs i = Some b \<Longrightarrow> Suc (length (filter (\<lambda>p. fst p \<noteq> i) cs)) = length cs"
  using arg_cong [OF mset_remove_key, of cs i b size] by (simp del: mset_filter)

lemma end_serve_inv:
  "server_inv c s \<Longrightarrow> map_of (conns s) i = Some b \<Longrightarrow> server_inv c (end_serve i s)"
  using length_remove_conn [of "conns s" i b]
  by (auto simp: server_inv_def end_serve_def conn_gauge_def gauge_calls distinct_map_filter)

lemma set_bytes_inv: "server_inv c (set_bytes i b s) = server_inv c s"
  by (simp add: server_inv_def set_bytes_def conn_gauge_def map_fst_set_bytes del: map_map)

lemma serve_step_inv:
  assumes "server_inv c s" "serve_step i ok s = Some s'"
  shows "server_inv c s'"
proof -
  obtain b where b: "map_of (conns s) i = Some b"
    using assms(2) by (auto simp: serve_step_def split: option.splits)
  have "server_inv c (s\<lparr>smets := MessageObserved t out (smets s)\<rparr>)" "server_inv c (s\<lparr>queued := q\<rparr>)" for t out q
    using assms(1) by (simp_all add: server_inv_def conn_gauge_def gauge_calls)
  then show ?thesis
    using assms b end_serve_inv [OF assms(1) b]
    by (auto simp: serve_step_def set_bytes_inv split: turn.splits if_splits)
qed

lemma server_exec_inv:
  assumes "server_inv c s" "server_exec a s = Some s'"
  shows "server_inv c s'"
proof (cases a)
  case (ServeTurn i ok)
  then show ?thesis
    using assms serve_step_inv by simp
next
  case (RunDry i)
  then show ?thesis
    using assms by (auto simp: set_bytes_inv)
next
  case (Accept i b)
  then show ?thesis
    using assms by (auto simp: accept_conn_def server_inv_def conn_gauge_def gauge_calls map_of_eq_None_iff
        split: if_splits)
qed (use assms in \<open>auto simp: server_inv_def conn_gauge_def start_call_def start_listen_def shutdown_call_def shutdown_force_def
    forceCloseAll_def o_def split: if_splits\<close>)

interpretation sv: invariant_machine server_exec "server_inv c" for c
  by unfold_locales (rule server_exec_inv)

section \<open>Shutdown\<close>

text \<open>
  A server whose listener was open when \<open>Shutdown\<close> was called accepts nothing afterwards, so it has
  no connection and no read loop left once \<open>Shutdown\<close> has returned.
\<close>

definition shut_inv :: "Server \<Rightarrow> bool" where
  "shut_inv s \<longleftrightarrow>
     (listener s = ListenerClosed \<longrightarrow> phase s \<noteq> Serving) \<and>
     (phase s = ShutdownReturned \<and> listener s = ListenerClosed \<longrightarrow> conns s = [] \<and> returning s = 0)"

lemma shut_inv_exec:
  assumes "shut_inv s" "server_exec a s = Some s'"
  shows "shut_inv s'"
  using assms
  by (cases a) (auto simp: shut_inv_def start_call_def start_listen_def accept_conn_def set_bytes_def
      serve_step_def end_serve_def shutdown_call_def shutdown_force_def forceCloseAll_def
      split: if_splits option.splits turn.splits)

interpretation shut: invariant_machine server_exec shut_inv
  by unfold_locales (rule shut_inv_exec)

lemma no_conns_frozen:
  assumes "conns s = []" "listener s \<noteq> Listening" "server_exec a s = Some s'"
  shows "queued s' = queued s"
  using assms by (cases a) (auto simp: start_call_def start_listen_def accept_conn_def set_bytes_def
      serve_step_def shutdown_call_def shutdown_force_def forceCloseAll_def split: if_splits)

section \<open>Shutdown returns\<close>

definition shutting :: "server_config \<Rightarrow> Server \<Rightarrow> bool" where
  "shutting c s \<longleftrightarrow> server_inv c s \<and> phase s \<noteq> Serving"

fun own_step :: "server_action \<Rightarrow> bool" where
  "own_step (ServeTurn _ _) = True"
| "own_step ServeDone = True"
| "own_step AcceptClosed = True"
| "own_step SeeAcceptDone = True"
| "own_step CtxDone = True"
| "own_step SeeNoConns = True"
| "own_step GoroutinesDone = True"
| "own_step _ = False"

fun phase_work :: "phase \<Rightarrow> nat" where
  "phase_work Serving = 4"
| "phase_work AwaitAccept = 3"
| "phase_work AwaitConns = 2"
| "phase_work AwaitGoroutines = 1"
| "phase_work ShutdownReturned = 0"

definition bytes_left :: "(nat \<times> string) list \<Rightarrow> nat" where
  "bytes_left cs = sum_list (map (\<lambda>p. length (snd p)) cs)"

definition server_work :: "Server \<Rightarrow> nat" where
  "server_work s =
     bytes_left (conns s) + 2 * length (conns s) + returning s + phase_work (phase s) +
     (if acceptDone s then 0 else 1)"

lemma bytes_left_filter: "bytes_left (filter P cs) \<le> bytes_left cs"
  by (induction cs) (auto simp: bytes_left_def)

lemma bytes_left_drop: "bytes_left (map (\<lambda>p. (fst p, [])) cs) = 0"
  by (induction cs) (auto simp: bytes_left_def)

lemma bytes_left_update:
  "distinct (map fst cs) \<Longrightarrow> map_of cs i = Some b \<Longrightarrow>
   bytes_left (map (\<lambda>p. if fst p = i then (i, b') else p) cs) + length b = bytes_left cs + length b'"
proof (induction cs)
  case (Cons p cs)
  show ?case
  proof (cases "fst p = i")
    case True
    then have "i \<notin> fst ` set cs"
      using Cons.prems(1) by auto
    then have "map (\<lambda>p. if fst p = i then (i, b') else p) cs = cs"
      by (intro map_idI) force
    then show ?thesis
      using True Cons.prems(2) by (cases p) (simp add: bytes_left_def)
  next
    case False
    then show ?thesis
      using Cons by (cases p) (auto simp: bytes_left_def)
  qed
qed simp

lemma end_serve_work:
  "server_inv c s \<Longrightarrow> map_of (conns s) i = Some b \<Longrightarrow> server_work (end_serve i s) < server_work s"
  using length_remove_conn [of "conns s" i b] bytes_left_filter [of "\<lambda>p. fst p \<noteq> i" "conns s"]
  by (simp add: server_work_def end_serve_def server_inv_def)

lemma set_bytes_work:
  "server_inv c s \<Longrightarrow> map_of (conns s) i = Some b \<Longrightarrow> length b' < length b \<Longrightarrow>
   server_work (set_bytes i b' s) < server_work s"
  using bytes_left_update [of "conns s" i b b'] by (simp add: server_work_def set_bytes_def server_inv_def)

lemma server_work_frame [simp]:
  "server_work (set_bytes i b (s\<lparr>smets := m\<rparr>)) = server_work (set_bytes i b s)"
  "server_work (set_bytes i b (s\<lparr>queued := q\<rparr>)) = server_work (set_bytes i b s)"
  by (simp_all add: server_work_def set_bytes_def)

lemma serve_step_work:
  assumes "server_inv c s" "serve_step i ok s = Some s'"
  shows "server_work s' < server_work s"
proof -
  obtain b where b: "map_of (conns s) i = Some b"
    using assms(2) by (auto simp: serve_step_def split: option.splits)
  show ?thesis
    using assms b end_serve_work [OF assms(1) b] set_bytes_work [OF assms(1) b]
    by (auto simp: serve_step_def split: turn.splits if_splits)
qed

lemma server_exec_work:
  assumes "server_inv c s" "own_step a" "server_exec a s = Some s'"
  shows "server_work s' < server_work s"
proof (cases a)
  case (ServeTurn i ok)
  then show ?thesis
    using assms serve_step_work by simp
qed (use assms in \<open>auto simp: server_work_def shutdown_force_def forceCloseAll_def bytes_left_drop split: if_splits\<close>)

lemma shutting_exec:
  assumes "shutting c s" "server_exec a s = Some s'"
  shows "shutting c s'"
proof -
  have "phase s' \<noteq> Serving"
    using assms by (cases a) (auto simp: shutting_def start_call_def start_listen_def accept_conn_def
        set_bytes_def serve_step_def end_serve_def shutdown_force_def forceCloseAll_def
        split: if_splits option.splits turn.splits)
  then show ?thesis
    using assms server_exec_inv by (auto simp: shutting_def)
qed

lemma shutting_progress:
  assumes "phase s \<noteq> Serving" "phase s \<noteq> ShutdownReturned"
  shows "\<exists>a s'. own_step a \<and> server_exec a s = Some s'"
proof (cases "phase s = AwaitGoroutines")
  case False
  then have "server_exec CtxDone s = Some (shutdown_force s)"
    using assms by (cases "phase s") simp_all
  then show ?thesis
    using own_step.simps(5) by blast
next
  case True
  consider i b cs where "conns s = (i, b) # cs" | "conns s = []" "0 < returning s" | "conns s = []" "returning s = 0"
    by (cases "conns s") auto
  then show ?thesis
  proof cases
    case 1
    then have "server_exec (ServeTurn i True) s \<noteq> None"
      by (auto simp: serve_step_def split: turn.splits)
    then show ?thesis
      using own_step.simps(1) by blast
  next
    case 2
    then have "server_exec ServeDone s \<noteq> None"
      by simp
    then show ?thesis
      using own_step.simps(2) by blast
  next
    case 3
    then have "server_exec GoroutinesDone s \<noteq> None"
      using True by simp
    then show ?thesis
      using own_step.simps(7) by blast
  qed
qed

interpretation sd: ending_machine server_exec "shutting c" own_step "\<lambda>s. phase s = ShutdownReturned" server_work for c
proof unfold_locales
  show "shutting c s \<Longrightarrow> server_exec a s = Some s' \<Longrightarrow> shutting c s'" for s a s'
    by (rule shutting_exec)
  show "shutting c s \<Longrightarrow> own_step a \<Longrightarrow> server_exec a s = Some s' \<Longrightarrow> server_work s' < server_work s" for s a s'
    using server_exec_work by (auto simp: shutting_def)
  show "shutting c s \<Longrightarrow> phase s \<noteq> ShutdownReturned \<Longrightarrow> \<exists>a s'. own_step a \<and> server_exec a s = Some s'" for s
    using shutting_progress by (auto simp: shutting_def)
qed


section \<open>The stream of one connection\<close>

text \<open>A frame as the SDK makes it, within the limits of the protocol and of the server.\<close>

definition framed :: "server_config \<Rightarrow> Envelope \<Rightarrow> string \<Rightarrow> bool" where
  "framed c env frame \<longleftrightarrow>
     wf_envelope env \<and> encodeFrame env = Inr frame \<and> length frame < 2 ^ 32 \<and>
     int (length frame) \<le> MaxMessageSize c + 4"

lemma serve_all_frame:
  assumes "framed c env frame"
  shows "serve_all c (frame @ rest) =
    (if Version env = EnvVersion then [(Topic env = TopicEventTracks, received env)] else []) @ serve_all c rest"
proof -
  have "readFrame (MaxMessageSize c) (frame @ rest) = Inr (received env, rest)"
    using assms readFrame_encodeFrame by (auto simp: framed_def)
  moreover have "Version (received env) = Version env" "Topic (received env) = Topic env"
    by (simp_all add: received_def)
  ultimately show ?thesis
    by (simp add: serve_all.simps [of c "frame @ rest"] serve_turn_def)
qed

lemma serve_all_frames:
  "list_all2 (framed c) envs frames \<Longrightarrow>
   serve_all c (concat frames @ rest) =
     map (\<lambda>env. (Topic env = TopicEventTracks, received env)) (filter (\<lambda>env. Version env = EnvVersion) envs) @
     serve_all c rest"
  by (induction rule: list_all2_induct) (auto simp: serve_all_frame)

lemma serve_all_bad:
  "readFrame (MaxMessageSize c) conn = Inl e \<Longrightarrow> serve_all c conn = []"
  by (simp add: serve_all.simps [of c conn] serve_turn_def)

end
