(* ===== verification/Go_Text.thy ===== *)
theory Go_Text
  imports Go_Strings
begin

text \<open>
  \<open>strings.Split\<close> at commas and \<open>strings.TrimSpace\<close>, which removes every rune \<open>unicode.IsSpace\<close> accepts
  from both ends of a string.
\<close>

section \<open>strings.Split, strings.TrimSpace\<close>

fun Split_comma :: "string \<Rightarrow> string list" where
  "Split_comma [] = [[]]"
| "Split_comma (c # s) =
     (if c = CHR '','' then [] # Split_comma s
      else case Split_comma s of [] \<Rightarrow> [[c]] | p # ps \<Rightarrow> (c # p) # ps)"

definition ascii_space :: "char \<Rightarrow> bool" where
  "ascii_space c \<longleftrightarrow> code c \<in> {9, 10, 11, 12, 13, 32}"

text \<open>The white-space runes beyond ASCII, encoded: U+0085, U+00A0, U+1680, U+2000 to U+200A and so on.\<close>

definition wide_space :: "nat list \<Rightarrow> bool" where
  "wide_space bs \<longleftrightarrow>
     (case bs of
        [a, b] \<Rightarrow> a = 0xC2 \<and> (b = 0x85 \<or> b = 0xA0)
      | [a, b, c] \<Rightarrow>
          a = 0xE1 \<and> b = 0x9A \<and> c = 0x80 \<or>
          a = 0xE2 \<and> b = 0x80 \<and> (0x80 \<le> c \<and> c \<le> 0x8A \<or> c = 0xA8 \<or> c = 0xA9 \<or> c = 0xAF) \<or>
          a = 0xE2 \<and> b = 0x81 \<and> c = 0x9F \<or>
          a = 0xE3 \<and> b = 0x80 \<and> c = 0x80
      | _ \<Rightarrow> False)"

definition is_space_rune :: "string \<Rightarrow> bool" where
  "is_space_rune s \<longleftrightarrow> (case s of [c] \<Rightarrow> ascii_space c | _ \<Rightarrow> wide_space (map code s))"

definition space_prefix :: "string \<Rightarrow> nat" where
  "space_prefix s =
     (if s \<noteq> [] \<and> is_space_rune (take 1 s) then 1
      else if 2 \<le> length s \<and> is_space_rune (take 2 s) then 2
      else if 3 \<le> length s \<and> is_space_rune (take 3 s) then 3
      else 0)"

definition space_suffix :: "string \<Rightarrow> nat" where
  "space_suffix s =
     (if s \<noteq> [] \<and> is_space_rune (drop (length s - 1) s) then 1
      else if 2 \<le> length s \<and> is_space_rune (drop (length s - 2) s) then 2
      else if 3 \<le> length s \<and> is_space_rune (drop (length s - 3) s) then 3
      else 0)"

function TrimLeft :: "string \<Rightarrow> string" where
  "TrimLeft s = (if space_prefix s = 0 then s else TrimLeft (drop (space_prefix s) s))"
  by pat_completeness auto
termination
  by (relation "measure length") (auto simp: space_prefix_def split: if_splits)

function TrimRight :: "string \<Rightarrow> string" where
  "TrimRight s = (if space_suffix s = 0 then s else TrimRight (take (length s - space_suffix s) s))"
  by pat_completeness auto
termination
  by (relation "measure length") (auto simp: space_suffix_def split: if_splits)

declare TrimLeft.simps [simp del] TrimRight.simps [simp del]

definition TrimSpace :: "string \<Rightarrow> string" where
  "TrimSpace s = TrimRight (TrimLeft s)"

lemma TrimLeft_prefix: "space_prefix (TrimLeft s) = 0"
  by (induction s rule: TrimLeft.induct) (simp add: TrimLeft.simps)

lemma TrimRight_suffix: "space_suffix (TrimRight s) = 0"
  by (induction s rule: TrimRight.induct) (simp add: TrimRight.simps)

end
