(* ===== verification/Config.thy ===== *)
theory Config
  imports Go_Text
begin

text \<open>
  \<open>internal/config/config.go\<close>: the configuration read from the environment, with
  \<open>time.ParseDuration\<close>. The environment is a function from names to values.
\<close>

section \<open>time.ParseDuration\<close>

definition two63 :: nat where
  "two63 = 9223372036854775808"

text \<open>\<open>None\<close>: the number does not fit in 63 bits.\<close>

fun leadingInt :: "nat \<Rightarrow> string \<Rightarrow> (nat \<times> string) option" where
  "leadingInt x [] = Some (x, [])"
| "leadingInt x (c # s) =
     (if \<not> is_digit c then Some (x, c # s)
      else if two63 div 10 < x then None
      else if two63 < x * 10 + digit_val c then None
      else leadingInt (x * 10 + digit_val c) s)"

text \<open>The digits after the point that fit, and the power of ten they are over.\<close>

fun leadingFraction :: "bool \<Rightarrow> nat \<Rightarrow> nat \<Rightarrow> string \<Rightarrow> nat \<times> nat \<times> string" where
  "leadingFraction over x scale [] = (x, scale, [])"
| "leadingFraction over x scale (c # s) =
     (if \<not> is_digit c then (x, scale, c # s)
      else if over then leadingFraction True x scale s
      else if (two63 - 1) div 10 < x then leadingFraction True x scale s
      else if two63 < x * 10 + digit_val c then leadingFraction True x scale s
      else leadingFraction False (x * 10 + digit_val c) (scale * 10) s)"

definition unitMap :: "string \<Rightarrow> nat option" where
  "unitMap = map_of
     [(''ns'', 1), (''us'', 1000), ([CHR 0xC2, CHR 0xB5, CHR ''s''], 1000),
      ([CHR 0xCE, CHR 0xBC, CHR ''s''], 1000), (''ms'', 1000000), (''s'', 1000000000),
      (''m'', 60000000000), (''h'', 3600000000000)]"

definition unit_char :: "char \<Rightarrow> bool" where
  "unit_char c \<longleftrightarrow> c \<noteq> CHR ''.'' \<and> \<not> is_digit c"

text \<open>
  One number with its unit: its nanoseconds and the rest. \<open>fmul f unit scale\<close> is the \<open>float64\<close> value
  of \<open>f * (unit / scale)\<close> cut to an integer, an input of the model.
\<close>

definition duration_part :: "(nat \<Rightarrow> nat \<Rightarrow> nat \<Rightarrow> nat) \<Rightarrow> string \<Rightarrow> (nat \<times> string) option" where
  "duration_part fmul s =
     (case leadingInt 0 s of
        None \<Rightarrow> None
      | Some (v, s1) \<Rightarrow>
          (let (f, scale, s2) =
             (if s1 \<noteq> [] \<and> hd s1 = CHR ''.'' then leadingFraction False 0 1 (tl s1) else (0, 1, s1));
             pre = (length s1 \<noteq> length s);
             post = (s1 \<noteq> [] \<and> hd s1 = CHR ''.'' \<and> length s2 \<noteq> length (tl s1));
             u = takeWhile unit_char s2
           in
           if \<not> pre \<and> \<not> post then None
           else case unitMap u of
             None \<Rightarrow> None
           | Some unit \<Rightarrow>
               if two63 div unit < v then None
               else
                 (let v1 = v * unit; v2 = (if 0 < f then v1 + fmul f unit scale else v1) in
                  if 0 < f \<and> two63 < v2 then None else Some (v2, drop (length u) s2))))"

lemma leadingInt_length: "leadingInt x s = Some (v, r) \<Longrightarrow> length r \<le> length s"
  by (induction x s rule: leadingInt.induct) (auto split: if_splits)

lemma leadingFraction_length: "leadingFraction b x sc s = (f, sc', r) \<Longrightarrow> length r \<le> length s"
  by (induction b x sc s rule: leadingFraction.induct) (auto split: if_splits)

lemma duration_part_shorter: "duration_part fmul s = Some (v, r) \<Longrightarrow> length r < length s"
proof -
  assume "duration_part fmul s = Some (v, r)"
  then obtain v0 s1 f sc s2 where s1: "leadingInt 0 s = Some (v0, s1)"
    and s2: "(if s1 \<noteq> [] \<and> hd s1 = CHR ''.'' then leadingFraction False 0 1 (tl s1) else (0, 1, s1)) = (f, sc, s2)"
    and u: "unitMap (takeWhile unit_char s2) \<noteq> None" and r: "r = drop (length (takeWhile unit_char s2)) s2"
    by (auto simp: duration_part_def Let_def split: option.splits prod.splits if_splits)
  have "length s2 \<le> length s1"
    using s2 leadingFraction_length by (fastforce split: if_splits)
  then have "length s2 \<le> length s"
    using leadingInt_length [OF s1] by simp
  moreover have "takeWhile unit_char s2 \<noteq> []"
    using u by (auto simp: unitMap_def)
  ultimately show ?thesis
    using r by (cases s2) (auto split: if_splits)
qed

function duration_parts :: "(nat \<Rightarrow> nat \<Rightarrow> nat \<Rightarrow> nat) \<Rightarrow> nat \<Rightarrow> string \<Rightarrow> nat option" where
  "duration_parts fmul d s =
     (if s = [] then Some d
      else case duration_part fmul s of
        None \<Rightarrow> None
      | Some (v, r) \<Rightarrow>
          (let d1 = (d + v) mod 2 ^ 64 in if two63 < d1 then None else duration_parts fmul d1 r))"
  by pat_completeness auto
termination
  by (relation "measure (\<lambda>(fmul, d, s). length s)") (auto dest: duration_part_shorter)

declare duration_parts.simps [simp del]

definition ParseDuration :: "(nat \<Rightarrow> nat \<Rightarrow> nat \<Rightarrow> nat) \<Rightarrow> string \<Rightarrow> int option" where
  "ParseDuration fmul s =
     (let neg = (s \<noteq> [] \<and> hd s = CHR ''-'');
          s1 = (if s \<noteq> [] \<and> (hd s = CHR ''-'' \<or> hd s = CHR ''+'') then tl s else s)
      in if s1 = ''0'' then Some 0
         else if s1 = [] then None
         else case duration_parts fmul 0 s1 of
           None \<Rightarrow> None
         | Some d \<Rightarrow> if neg then Some (- int d) else if two63 - 1 < d then None else Some (int d))"

section \<open>Reading the environment\<close>

type_synonym environ = "string \<Rightarrow> string option"

definition getString :: "environ \<Rightarrow> string \<Rightarrow> string \<Rightarrow> string" where
  "getString env key dflt = (case env key of None \<Rightarrow> dflt | Some v \<Rightarrow> if v \<noteq> [] then v else dflt)"

text \<open>\<open>strconv.Atoi\<close> on a 64-bit platform is \<open>ParseInt\<close> in base 10.\<close>

definition getInt :: "environ \<Rightarrow> string \<Rightarrow> int \<Rightarrow> int" where
  "getInt env key dflt =
     (case env key of
        None \<Rightarrow> dflt
      | Some v \<Rightarrow> if v = [] then dflt else (case ParseInt v of (n, None) \<Rightarrow> n | (_, Some _) \<Rightarrow> dflt))"

definition getPositiveInt :: "environ \<Rightarrow> string \<Rightarrow> int \<Rightarrow> int" where
  "getPositiveInt env key dflt = (let n = getInt env key dflt in if n \<le> 0 then dflt else n)"

definition getDuration :: "(nat \<Rightarrow> nat \<Rightarrow> nat \<Rightarrow> nat) \<Rightarrow> environ \<Rightarrow> string \<Rightarrow> int \<Rightarrow> int" where
  "getDuration fmul env key dflt =
     (case env key of
        None \<Rightarrow> dflt
      | Some v \<Rightarrow> if v = [] then dflt else (case ParseDuration fmul v of None \<Rightarrow> dflt | Some d \<Rightarrow> d))"

definition splitCSV :: "string \<Rightarrow> string list" where
  "splitCSV s = filter (\<lambda>p. p \<noteq> []) (map TrimSpace (Split_comma s))"

section \<open>The configuration\<close>

record ServerConfig =
  sc_Address :: string
  sc_MaxConnections :: int
  sc_QueueSize :: int
  sc_WorkerCount :: int
  sc_CriticalQueueSize :: int
  sc_CriticalWorkerCount :: int
  sc_MaxMessageSize :: int
  sc_MetricsAddress :: string

record KafkaConfig =
  kc_Brokers :: "string list"
  kc_BatchSize :: int
  kc_BatchTimeout :: int
  kc_WriteTimeout :: int

record FallbackConfig =
  fc_DataDir :: string
  fc_MaxFileSize :: int
  fc_MaxFiles :: int

record ShutdownConfig =
  sd_Timeout :: int
  sd_ConnReadTimeout :: int
  sd_KafkaFlushTimeout :: int

record Config =
  cf_Server :: ServerConfig
  cf_Kafka :: KafkaConfig
  cf_Fallback :: FallbackConfig
  cf_Shutdown :: ShutdownConfig

definition Load :: "(nat \<Rightarrow> nat \<Rightarrow> nat \<Rightarrow> nat) \<Rightarrow> environ \<Rightarrow> Config" where
  "Load fmul env =
     \<lparr>cf_Server =
        \<lparr>sc_Address = getString env ''LOG_TRACK_SERVER_ADDRESS'' '':9583'',
         sc_MaxConnections = getInt env ''LOG_TRACK_SERVER_MAX_CONNECTIONS'' 3000,
         sc_QueueSize = getInt env ''LOG_TRACK_SERVER_QUEUE_SIZE'' 5000,
         sc_WorkerCount = getInt env ''LOG_TRACK_SERVER_WORKER_COUNT'' 30,
         sc_CriticalQueueSize = getPositiveInt env ''LOG_TRACK_SERVER_CRITICAL_QUEUE_SIZE'' 2000,
         sc_CriticalWorkerCount = getPositiveInt env ''LOG_TRACK_SERVER_CRITICAL_WORKER_COUNT'' 10,
         sc_MaxMessageSize = getInt env ''LOG_TRACK_SERVER_MAX_MESSAGE_SIZE'' (10 * 1024 * 1024),
         sc_MetricsAddress = getString env ''LOG_TRACK_METRICS_ADDRESS'' '':9584''\<rparr>,
      cf_Kafka =
        \<lparr>kc_Brokers = splitCSV (getString env ''LOG_TRACK_KAFKA_BROKERS'' ''kafka:9092''),
         kc_BatchSize = getInt env ''LOG_TRACK_KAFKA_BATCH_SIZE'' 100,
         kc_BatchTimeout = getDuration fmul env ''LOG_TRACK_KAFKA_BATCH_TIMEOUT'' 10000000,
         kc_WriteTimeout = getDuration fmul env ''LOG_TRACK_KAFKA_WRITE_TIMEOUT'' 2000000000\<rparr>,
      cf_Fallback =
        \<lparr>fc_DataDir = getString env ''LOG_TRACK_FALLBACK_DATA_DIR'' ''/data/logtrack'',
         fc_MaxFileSize = getInt env ''LOG_TRACK_FALLBACK_MAX_FILE_SIZE'' (100 * 1024 * 1024),
         fc_MaxFiles = getInt env ''LOG_TRACK_FALLBACK_MAX_FILES'' 10\<rparr>,
      cf_Shutdown =
        \<lparr>sd_Timeout = getDuration fmul env ''LOG_TRACK_SHUTDOWN_TIMEOUT'' 5000000000,
         sd_ConnReadTimeout = getDuration fmul env ''LOG_TRACK_SHUTDOWN_CONN_READ_TIMEOUT'' 3000000000,
         sd_KafkaFlushTimeout = getDuration fmul env ''LOG_TRACK_SHUTDOWN_KAFKA_FLUSH_TIMEOUT'' 3000000000\<rparr>\<rparr>"

section \<open>Properties\<close>

lemma getPositiveInt_pos: "0 < dflt \<Longrightarrow> 0 < getPositiveInt env key dflt"
  by (simp add: getPositiveInt_def Let_def)

lemma getInt_range: "is_int64 dflt \<Longrightarrow> is_int64 (getInt env key dflt)"
  using ParseInt_range by (auto simp: getInt_def split: option.splits prod.splits) (metis fst_conv)

lemma ParseDuration_range: "ParseDuration fmul s = Some d \<Longrightarrow> is_int64 d"
proof -
  have bound: "duration_parts fmul d s = Some r \<Longrightarrow> d \<le> two63 \<Longrightarrow> r \<le> two63" for d s r
    by (induction fmul d s rule: duration_parts.induct)
      (subst (asm) (2) duration_parts.simps, auto simp: Let_def split: if_splits option.splits prod.splits)
  assume "ParseDuration fmul s = Some d"
  then show ?thesis
    using bound by (fastforce simp: ParseDuration_def Let_def is_int64_def minInt64_def maxInt64_def two63_def
        split: if_splits option.splits)
qed

end
