(* ===== verification/Gateway.thy ===== *)
theory Gateway
  imports Handlers_Props Queue_Props Config
begin

text \<open>
  The gateway process of \<open>cmd/server/main.go\<close>: its two queues share the dispatch function and, behind
  it, the manager, whose recovery loop runs beside them. A step of the process is an action of one of the
  queues or a tick of that loop; the envelope a worker has finished and the tick change the shared state.
\<close>

section \<open>Start-up\<close>

text \<open>The writers and the manager; \<open>Inl\<close> is the exit with status 1. The registry is filled by then.\<close>

definition start_writers :: "Config \<Rightarrow> world \<Rightarrow> (error + Manager) \<times> world" where
  "start_writers cf w =
     (let k = NewKafkaWriter (kc_Brokers (cf_Kafka cf)) (kc_BatchSize (cf_Kafka cf))
                (kc_BatchTimeout (cf_Kafka cf)) (kc_WriteTimeout (cf_Kafka cf)) in
      case NewFallbackWriter (fc_MaxFileSize (cf_Fallback cf)) (fc_MaxFiles (cf_Fallback cf)) w of
        (Inl e, w1) \<Rightarrow> (Inl e, w1)
      | (Inr fw, w1) \<Rightarrow> (Inr (NewManager k fw), w1))"

record Gateway =
  normalQ :: "(Envelope, gateway) Queue"
  criticalQ :: "(Envelope, gateway) Queue"
  history :: "(string \<Rightarrow> bool) event list"

text \<open>The queues with their workers; a negative capacity panics.\<close>

definition start_queues :: "Config \<Rightarrow> gateway \<Rightarrow> Gateway option" where
  "start_queues cf g =
     (case (NewNamed ''normal'' (sc_QueueSize (cf_Server cf)) g,
            NewNamed ''critical'' (sc_CriticalQueueSize (cf_Server cf)) g) of
        (Some nq, Some cq) \<Rightarrow>
          Some \<lparr>normalQ = Start (sc_WorkerCount (cf_Server cf)) nq,
                criticalQ = Start (sc_CriticalWorkerCount (cf_Server cf)) cq, history = []\<rparr>
      | _ \<Rightarrow> None)"

section \<open>Running\<close>

text \<open>A tick is given by which brokers would answer a probe.\<close>

datatype gw_action = Normal "Envelope action" | Critical "Envelope action" | RecoveryTick "string \<Rightarrow> bool"

definition gw_fn :: "Envelope \<Rightarrow> gateway \<Rightarrow> gateway" where
  "gw_fn = dispatch the_registry (adapter_Set manager_write)"

text \<open>The shared state is kept in both queues; \<open>history\<close> records what changed it, in order.\<close>

fun gw_exec :: "gw_action \<Rightarrow> Gateway \<Rightarrow> Gateway option" where
  "gw_exec (Normal a) G =
     (case exec gw_fn a (normalQ G) of
        None \<Rightarrow> None
      | Some q \<Rightarrow>
          Some (G\<lparr>normalQ := q, criticalQ := (criticalQ G)\<lparr>sink := sink q\<rparr>,
                  history := history G @ map Dispatched (drop (length (handled (normalQ G))) (handled q))\<rparr>))"
| "gw_exec (Critical a) G =
     (case exec gw_fn a (criticalQ G) of
        None \<Rightarrow> None
      | Some q \<Rightarrow>
          Some (G\<lparr>criticalQ := q, normalQ := (normalQ G)\<lparr>sink := sink q\<rparr>,
                  history := history G @ map Dispatched (drop (length (handled (criticalQ G))) (handled q))\<rparr>))"
| "gw_exec (RecoveryTick up) G =
     (case gw_tick up (sink (normalQ G)) of
        None \<Rightarrow> None
      | Some g \<Rightarrow>
          Some (G\<lparr>normalQ := (normalQ G)\<lparr>sink := g\<rparr>, criticalQ := (criticalQ G)\<lparr>sink := g\<rparr>,
                  history := history G @ [Retried up]\<rparr>))"

definition appEnv :: "environ \<Rightarrow> string" where
  "appEnv env = (case env ''APP_ENV'' of None \<Rightarrow> ''dev'' | Some v \<Rightarrow> if v \<noteq> [] then v else ''dev'')"

section \<open>Invariant\<close>

abbreviation gw_happen :: "(string \<Rightarrow> bool) event \<Rightarrow> gateway \<Rightarrow> gateway option" where
  "gw_happen \<equiv> happen manager_write gw_tick"

definition gw_inv :: "gateway \<Rightarrow> Gateway \<Rightarrow> bool" where
  "gw_inv g0 G \<longleftrightarrow>
     q_inv (normalQ G) \<and> q_inv (criticalQ G) \<and> sink (criticalQ G) = sink (normalQ G) \<and>
     run gw_happen (history G) g0 = Some (sink (normalQ G)) \<and>
     dispatched (history G) \<in> shuffles (handled (normalQ G)) (handled (criticalQ G))"

lemma run_dispatched: "run gw_happen (map Dispatched envs) g = Some (fold gw_fn envs g)"
  by (induction envs arbitrary: g) (simp_all add: gw_fn_def adapter_Set_def)

lemma dispatched_map [simp]: "dispatched (map Dispatched envs) = envs"
  by (induction envs) simp_all

lemma q_inv_sink [simp]: "q_inv (q\<lparr>sink := s\<rparr>) = q_inv q"
  by (simp add: q_inv_def in_hand_def stopped_q_def no_producers_def)

lemma shuffles_append_left: "zs \<in> shuffles xs ys \<Longrightarrow> zs @ hs \<in> shuffles (xs @ hs) ys"
proof (induction xs ys arbitrary: zs rule: shuffles.induct)
  case (1 ys)
  have "ys @ hs \<in> shuffles hs ys"
    by (induction ys) (auto intro: Cons_in_shuffles_rightI)
  then show ?case
    using 1 by simp
next
  case (3 x xs y ys)
  then show ?case
    by (auto intro: Cons_in_shuffles_leftI Cons_in_shuffles_rightI)
qed simp

lemma shuffles_append_right: "zs \<in> shuffles xs ys \<Longrightarrow> zs @ hs \<in> shuffles xs (ys @ hs)"
  using shuffles_append_left [of zs ys xs hs] by (simp add: shuffles_commutes)

lemma gw_inv_exec:
  assumes "gw_inv g0 G" "gw_exec a G = Some G'"
  shows "gw_inv g0 G'"
proof (cases a)
  case (Normal b)
  then obtain q where q: "exec gw_fn b (normalQ G) = Some q"
    and G': "G' = G\<lparr>normalQ := q, criticalQ := (criticalQ G)\<lparr>sink := sink q\<rparr>,
                  history := history G @ map Dispatched (drop (length (handled (normalQ G))) (handled q))\<rparr>"
    using assms(2) by (auto split: option.splits)
  obtain hs where hs: "handled q = handled (normalQ G) @ hs" "sink q = fold gw_fn hs (sink (normalQ G))"
    using exec_sink [OF q] by blast
  then show ?thesis
    using assms(1) q_inv_exec [OF _ q] shuffles_append_left [of "dispatched (history G)"]
    by (simp add: gw_inv_def G' run_append run_dispatched)
next
  case (Critical b)
  then obtain q where q: "exec gw_fn b (criticalQ G) = Some q"
    and G': "G' = G\<lparr>criticalQ := q, normalQ := (normalQ G)\<lparr>sink := sink q\<rparr>,
                  history := history G @ map Dispatched (drop (length (handled (criticalQ G))) (handled q))\<rparr>"
    using assms(2) by (auto split: option.splits)
  obtain hs where hs: "handled q = handled (criticalQ G) @ hs" "sink q = fold gw_fn hs (sink (criticalQ G))"
    using exec_sink [OF q] by blast
  then show ?thesis
    using assms(1) q_inv_exec [OF _ q] shuffles_append_right [of "dispatched (history G)"]
    by (simp add: gw_inv_def G' run_append run_dispatched)
next
  case (RecoveryTick up)
  then show ?thesis
    using assms by (auto simp: gw_inv_def run_append split: option.splits)
qed

interpretation gwm: invariant_machine gw_exec "gw_inv g0" for g0
  by unfold_locales (rule gw_inv_exec)

lemma start_queues_inv:
  assumes "start_queues cf g = Some G"
  shows "gw_inv g G" "length (workers (normalQ G)) = nat (sc_WorkerCount (cf_Server cf))"
    "length (workers (criticalQ G)) = nat (sc_CriticalWorkerCount (cf_Server cf))"
  using assms
  by (auto simp: start_queues_def NewNamed_def Start_def gw_inv_def q_inv_def in_hand_def split: if_splits)

interpretation gw_workers: invariant_machine gw_exec
  "\<lambda>G. length (workers (normalQ G)) = m \<and> length (workers (criticalQ G)) = n" for m n
proof unfold_locales
  show "length (workers (normalQ G)) = m \<and> length (workers (criticalQ G)) = n \<Longrightarrow> gw_exec a G = Some G' \<Longrightarrow>
      length (workers (normalQ G')) = m \<and> length (workers (criticalQ G')) = n" for G a G'
    by (cases a) (auto split: option.splits dest: exec_workers)
qed

lemma mset_map_filter: "mset (List.map_filter f xs) = image_mset the (filter_mset (\<lambda>y. y \<noteq> None) (image_mset f (mset xs)))"
  by (induction xs) (auto simp: List.map_filter_simps split: option.split)

section \<open>Closed queues\<close>

text \<open>
  When both queues have been closed, every envelope they accepted that is valid for its topic is
  delivered, kept in the files, or lost in one of the ticks.
\<close>

lemma accepted_accounted:
  assumes "start_queues cf g0 = Some G0" "reach gw_exec G0 G"
    "Close_returns (normalQ G)" "Close_returns (criticalQ G)"
    "0 < sc_WorkerCount (cf_Server cf)" "0 < sc_CriticalWorkerCount (cf_Server cf)"
    "gw_good g0" "all_fit gw_fits manager_write gw_tick (history G) g0"
  shows "\<exists>lost. length lost \<le> retries (history G) \<and>
    mset (gw_sent (sink (normalQ G))) + mset (map record_message (gw_kept (sink (normalQ G)))) + mset lost =
    mset (gw_sent g0) + mset (map record_message (gw_kept g0)) +
    mset (map record_message (List.map_filter routed (accepted (normalQ G) @ accepted (criticalQ G))))"
proof -
  have inv: "gw_inv g0 G"
    using gwm.inv_reach [OF assms(2)] start_queues_inv(1) [OF assms(1)] by blast
  have "length (workers (normalQ G)) = nat (sc_WorkerCount (cf_Server cf)) \<and>
      length (workers (criticalQ G)) = nat (sc_CriticalWorkerCount (cf_Server cf))"
    using gw_workers.inv_reach [OF assms(2)] start_queues_inv(2,3) [OF assms(1)] by blast
  then have "workers (normalQ G) \<noteq> []" "workers (criticalQ G) \<noteq> []"
    using assms(5,6) by auto
  then have "mset (handled (normalQ G)) = mset (accepted (normalQ G))"
    "mset (handled (criticalQ G)) = mset (accepted (criticalQ G))"
    using q_inv_closed(2) inv assms(3,4) by (auto simp: gw_inv_def)
  then have "mset (dispatched (history G)) = mset (accepted (normalQ G) @ accepted (criticalQ G))"
    using inv mset_shuffles [of "dispatched (history G)" "handled (normalQ G)" "handled (criticalQ G)"]
    by (simp add: gw_inv_def)
  then have "mset (map record_message (List.map_filter routed (dispatched (history G)))) =
      mset (map record_message (List.map_filter routed (accepted (normalQ G) @ accepted (criticalQ G))))"
    by (simp only: mset_map mset_map_filter)
  moreover have "run gw_happen (history G) g0 = Some (sink (normalQ G))"
    using inv by (simp add: gw_inv_def)
  ultimately show ?thesis
    using gwr.all_accounted [OF assms(7,8)] by auto
qed

end
