(* ===== verification/Gateway_Theorems.thy ===== *)
theory Gateway_Theorems
  imports Gateway Examples
begin

text \<open>
  Properties of the parts of the gateway process: what dispatching does with an envelope and what the
  configuration guarantees; and a start of the queues on which others are applied.
\<close>

section \<open>Dispatch\<close>

text \<open>
  C33: start-up registers the eight built-in handlers without a panic, each under its own topic, and
  dispatching follows the routing table: \<open>app-logs\<close> goes to the topic of its level and \<open>rpc-calls\<close>
  passes when the required fields are there, an invalid one is counted and written nowhere; the three
  bare topics are written bare, every other topic, known or not, as it is.
\<close>

theorem dispatch_follows_table:
  "\<exists>reg. init_handlers = Some reg \<and> (\<forall>h. Lookup (Handler_Topic h) reg = Some h) \<and>
     dispatch reg (Some f) env g =
       (case routed env of
          None \<Rightarrow> observe (Topic env) ''invalid'' g
        | Some env1 \<Rightarrow>
            (case f env1 g of (env2, g1) \<Rightarrow>
               observe (Topic env2) (if Topic env \<in> set known_topics then ''handled'' else ''passthrough'') g1))"
proof (intro exI conjI)
  show "init_handlers = Some the_registry"
    by (rule init_handlers_eq)
  show "\<forall>h. Lookup (Handler_Topic h) the_registry = Some h"
    using Lookup_Topic by blast
qed (rule dispatch_routed)

section \<open>A run of the gateway\<close>

definition ex_config :: Config where
  "ex_config = Load (\<lambda>_ _ _. 0)
     (map_of [(''LOG_TRACK_SERVER_WORKER_COUNT'', ''1''), (''LOG_TRACK_SERVER_CRITICAL_WORKER_COUNT'', ''1'')])"

lemma ex_config_simps:
  "sc_WorkerCount (cf_Server ex_config) = 1" "sc_CriticalWorkerCount (cf_Server ex_config) = 1"
  "sc_QueueSize (cf_Server ex_config) = 5000" "sc_CriticalQueueSize (cf_Server ex_config) = 2000"
  by (simp_all add: ex_config_def Load_def getInt_def getPositiveInt_def Let_def parse_nat_def is_digit_def
      digit_val_def clamp_int64_def minInt64_def maxInt64_def)

lemmas queue_step_simps = enter_def send_def producer_return_def recv_def finish_def stop_enqueue_def
  set_worker_def worker_at_def reportDepth_def no_producers_def stopped_q_def Close_returns_def

lemma ex_kept: "gw_kept (ex_manager, ex_world err) = []"
  by (simp add: gw_kept_def backlog_def pending_def active_def ex_fallback ex_fw_def ex_world_def done_files_def)

lemma ex_gw_good: "gw_good (ex_manager, ex_world err)"
  using ex_m_inv ex_kept by (simp add: gw_good_def)

section \<open>Configuration\<close>



end
