(* ===== verification/Client.thy ===== *)
theory Client
  imports Frame
begin

text \<open>
  The SDK's client, \<open>pkg/logtrack/client.go\<close>, with the options of \<open>option.go\<close> and the entry points of
  \<open>send.go\<close>. The network and the clock are inputs: \<open>dial_err n\<close>, \<open>write_err n\<close> and \<open>nclock n\<close> are the
  outcomes of the \<open>n\<close>-th interaction, and \<open>wire c\<close> holds the bytes written to connection \<open>c\<close>. A call
  of \<open>send\<close> holds its shard's mutex and is one step.
\<close>

section \<open>The network\<close>

record net =
  nstep :: nat
  nclock :: "nat \<Rightarrow> int"
  dial_err :: "nat \<Rightarrow> bool"
  write_err :: "nat \<Rightarrow> nat option"
  wire :: "nat \<Rightarrow> string"
  next_conn :: nat
  hung_up :: "nat list"

definition ntick :: "net \<Rightarrow> net" where
  "ntick n = n\<lparr>nstep := Suc (nstep n)\<rparr>"

definition net_Now :: "net \<Rightarrow> int \<times> net" where
  "net_Now n = (nclock n (nstep n), ntick n)"

definition net_Dial :: "net \<Rightarrow> nat option \<times> net" where
  "net_Dial n =
     (if dial_err n (nstep n) then (None, ntick n)
      else (Some (next_conn n), (ntick n)\<lparr>next_conn := Suc (next_conn n), wire := (wire n)(next_conn n := [])\<rparr>))"

text \<open>A write that fails may have put a part of the bytes on the wire.\<close>

definition conn_Write :: "nat \<Rightarrow> string \<Rightarrow> net \<Rightarrow> bool \<times> net" where
  "conn_Write c body n =
     (case write_err n (nstep n) of
        None \<Rightarrow> (True, (ntick n)\<lparr>wire := (wire n)(c := wire n c @ body)\<rparr>)
      | Some k \<Rightarrow> (False, (ntick n)\<lparr>wire := (wire n)(c := wire n c @ take k body)\<rparr>))"

definition conn_Close :: "nat \<Rightarrow> net \<Rightarrow> net" where
  "conn_Close c n = n\<lparr>hung_up := c # hung_up n\<rparr>"

section \<open>State\<close>

record shardConn =
  conn :: "nat option"
  nextAttempt :: int

record client_config =
  GatewayAddr :: string
  ServiceName :: string
  MaxConns :: int
  ConnectTimeout :: int
  cfg_WriteTimeout :: int
  FailureBackoff :: int

record Client =
  addr :: string
  service :: string
  host :: string
  connectTimeout :: int
  cl_writeTimeout :: int
  failureBackoff :: int
  eventShards :: "shardConn list"
  normalShards :: "shardConn list"
  cl_closed :: bool

definition defaultGatewayAddr :: string where "defaultGatewayAddr = ''log-track:9583''"
definition defaultMaxConns :: int where "defaultMaxConns = 4"
definition defaultConnectTimeout :: int where "defaultConnectTimeout = 3000000000"
definition defaultWriteTimeout :: int where "defaultWriteTimeout = 1000000000"
definition defaultFailureBackoff :: int where "defaultFailureBackoff = 5000000000"
definition eventPoolFailureBackoff :: int where "eventPoolFailureBackoff = 500000000"

definition zero_shard :: shardConn where
  "zero_shard = \<lparr>conn = None, nextAttempt = zero_time\<rparr>"

definition New :: "client_config option \<Rightarrow> string \<Rightarrow> error + Client" where
  "New cfg hostname =
     (case cfg of
        None \<Rightarrow> Inl (ErrMsg ''logtrack: nil config'')
      | Some c \<Rightarrow>
          if ServiceName c = [] then Inl (ErrMsg ''logtrack: ServiceName is required'')
          else
            (let m = (if MaxConns c \<le> 0 then defaultMaxConns else MaxConns c);
                 maxConns = (if 16 < m then 16 else m) in
             Inr \<lparr>addr = (if GatewayAddr c = [] then defaultGatewayAddr else GatewayAddr c),
                  service = ServiceName c, host = hostname,
                  connectTimeout = (if ConnectTimeout c \<le> 0 then defaultConnectTimeout else ConnectTimeout c),
                  cl_writeTimeout = (if cfg_WriteTimeout c \<le> 0 then defaultWriteTimeout else cfg_WriteTimeout c),
                  failureBackoff = (if FailureBackoff c \<le> 0 then defaultFailureBackoff else FailureBackoff c),
                  eventShards = replicate (nat maxConns) zero_shard,
                  normalShards = replicate (nat maxConns) zero_shard, cl_closed = False\<rparr>))"

section \<open>Closing\<close>

fun close_shards :: "shardConn list \<Rightarrow> net \<Rightarrow> shardConn list \<times> net" where
  "close_shards [] n = ([], n)"
| "close_shards (s # ss) n =
     (let n1 = (case conn s of None \<Rightarrow> n | Some c \<Rightarrow> conn_Close c n);
          (ss1, n2) = close_shards ss n1
      in (s\<lparr>conn := None\<rparr> # ss1, n2))"

definition c_Close :: "Client \<Rightarrow> net \<Rightarrow> Client \<times> net" where
  "c_Close c n =
     (let (es, n1) = close_shards (eventShards c) n;
          (ns, n2) = close_shards (normalShards c) n1
      in (c\<lparr>cl_closed := True, eventShards := es, normalShards := ns\<rparr>, n2))"

section \<open>Sending\<close>

definition fnv32a :: "string \<Rightarrow> 32 word" where
  "fnv32a s = fold (\<lambda>c h. (h XOR of_nat (code c)) * 16777619) s 2166136261"

definition shardIndex :: "string \<Rightarrow> nat \<Rightarrow> nat" where
  "shardIndex traceID sz = (if traceID = [] then 0 else unat (fnv32a traceID mod of_nat sz))"

definition isEventTopic :: "string \<Rightarrow> bool" where
  "isEventTopic topic \<longleftrightarrow>
     topic = TopicEventTracks \<or> topic = TopicAppEvent \<or> topic = TopicSysEvent \<or> topic = TopicExpAssignment"

definition shards_of :: "string \<Rightarrow> Client \<Rightarrow> shardConn list" where
  "shards_of topic c = (if isEventTopic topic then eventShards c else normalShards c)"

definition set_shard :: "string \<Rightarrow> nat \<Rightarrow> shardConn \<Rightarrow> Client \<Rightarrow> Client" where
  "set_shard topic i s c =
     (if isEventTopic topic then c\<lparr>eventShards := (eventShards c)[i := s]\<rparr>
      else c\<lparr>normalShards := (normalShards c)[i := s]\<rparr>)"

text \<open>\<open>time.Time.UnixMilli\<close> of an instant in nanoseconds.\<close>

definition UnixMilli :: "int \<Rightarrow> int" where
  "UnixMilli t = t div 1000000"

definition make_envelope :: "Client \<Rightarrow> string \<Rightarrow> string \<Rightarrow> string \<Rightarrow> string \<Rightarrow> int \<Rightarrow> Envelope" where
  "make_envelope c topic payload traceID partitionKey now =
     \<lparr>Version = EnvVersion, Topic = topic, Service = service c, Host = host c, Timestamp = UnixMilli now,
      TimestampAt = TimestampAtFromTime now, TraceID = traceID, PartitionKey = partitionKey,
      Data = Some payload, WriteRaw = False\<rparr>"

text \<open>Dialling when the shard has no connection: \<open>None\<close> ends the send.\<close>

definition ensure_conn :: "bool \<Rightarrow> int \<Rightarrow> shardConn \<Rightarrow> net \<Rightarrow> nat option \<times> shardConn \<times> net" where
  "ensure_conn closed_now backoff s n =
     (case conn s of
        Some k \<Rightarrow> (Some k, s, n)
      | None \<Rightarrow>
          if closed_now then (None, s, n)
          else
            (case net_Dial n of
               (None, n1) \<Rightarrow> (case net_Now n1 of (t, n2) \<Rightarrow> (None, s\<lparr>nextAttempt := t + backoff\<rparr>, n2))
             | (Some k, n1) \<Rightarrow> (Some k, \<lparr>conn = Some k, nextAttempt = zero_time\<rparr>, n1)))"

definition write_frame :: "int \<Rightarrow> string \<Rightarrow> nat \<Rightarrow> shardConn \<Rightarrow> net \<Rightarrow> shardConn \<times> net" where
  "write_frame backoff frame k s n =
     (case net_Now n of (_, n1) \<Rightarrow>
      case conn_Write k frame n1 of
        (True, n2) \<Rightarrow> (s, n2)
      | (False, n2) \<Rightarrow>
          (case net_Now (conn_Close k n2) of (t, n3) \<Rightarrow> (\<lparr>conn = None, nextAttempt = t + backoff\<rparr>, n3)))"

text \<open>
  \<open>payload\<close> is what \<open>json.Marshal(data)\<close> returned, \<open>None\<close> its error; \<open>raced\<close> says that \<open>Close\<close> has run
  between the two looks at the closed flag.
\<close>

definition c_send :: "bool \<Rightarrow> string \<Rightarrow> string option \<Rightarrow> string \<Rightarrow> string \<Rightarrow> Client \<Rightarrow> net \<Rightarrow> Client \<times> net" where
  "c_send raced topic payload traceID partitionKey c n =
     (if cl_closed c then (c, n)
      else
        (let idx = shardIndex traceID (length (shards_of topic c));
             s = shards_of topic c ! idx;
             backoff = (if isEventTopic topic then eventPoolFailureBackoff else failureBackoff c);
             (now, n1) = net_Now n in
         if now < nextAttempt s then (c, n1)
         else case payload of
           None \<Rightarrow> (c, n1)
         | Some p \<Rightarrow>
             (case net_Now n1 of (now1, n2) \<Rightarrow>
              case encodeFrame (make_envelope c topic p traceID partitionKey now1) of
                Inl e \<Rightarrow> (c, n2)
              | Inr frame \<Rightarrow>
                  (case ensure_conn raced backoff s n2 of
                     (None, s1, n3) \<Rightarrow> (set_shard topic idx s1 c, n3)
                   | (Some k, s1, n3) \<Rightarrow>
                       (case write_frame backoff frame k s1 n3 of (s2, n4) \<Rightarrow> (set_shard topic idx s2 c, n4))))))"

section \<open>Options and entry points\<close>

record sendOpts =
  o_traceID :: string
  o_partitionKey :: string

datatype Option = WithTraceID string | WithPartitionKey string

fun apply_opt :: "Option \<Rightarrow> sendOpts \<Rightarrow> sendOpts" where
  "apply_opt (WithTraceID t) opts = opts\<lparr>o_traceID := t\<rparr>"
| "apply_opt (WithPartitionKey k) opts = opts\<lparr>o_partitionKey := k\<rparr>"

definition applyOpts :: "Option list \<Rightarrow> sendOpts" where
  "applyOpts os = fold apply_opt os \<lparr>o_traceID = [], o_partitionKey = []\<rparr>"

text \<open>A context carries the two values or not; \<open>None\<close> is the nil context.\<close>

record context_values =
  ctx_trace :: "string option"
  ctx_key :: "string option"

definition CtxWithTraceID :: "string \<Rightarrow> context_values \<Rightarrow> context_values" where
  "CtxWithTraceID t ctx = ctx\<lparr>ctx_trace := Some t\<rparr>"

definition CtxWithPartitionKey :: "string \<Rightarrow> context_values \<Rightarrow> context_values" where
  "CtxWithPartitionKey k ctx = ctx\<lparr>ctx_key := Some k\<rparr>"

definition traceIDFromCtx :: "context_values option \<Rightarrow> string" where
  "traceIDFromCtx ctx = (case ctx of None \<Rightarrow> [] | Some v \<Rightarrow> (case ctx_trace v of None \<Rightarrow> [] | Some t \<Rightarrow> t))"

definition partitionKeyFromCtx :: "context_values option \<Rightarrow> string" where
  "partitionKeyFromCtx ctx = (case ctx of None \<Rightarrow> [] | Some v \<Rightarrow> (case ctx_key v of None \<Rightarrow> [] | Some k \<Rightarrow> k))"

text \<open>The package's client; \<open>None\<close> before \<open>Init\<close> and after \<open>Close\<close>.\<close>

type_synonym sdk = "Client option \<times> net"

definition Init :: "client_config option \<Rightarrow> string \<Rightarrow> sdk \<Rightarrow> error option \<times> sdk" where
  "Init cfg hostname sdk =
     (case New cfg hostname of
        Inl e \<Rightarrow> (Some e, sdk)
      | Inr c \<Rightarrow>
          (None, Some c, (case fst sdk of None \<Rightarrow> snd sdk | Some old \<Rightarrow> snd (c_Close old (snd sdk)))))"

definition sdk_Close :: "sdk \<Rightarrow> sdk" where
  "sdk_Close sdk =
     (case fst sdk of None \<Rightarrow> sdk | Some c \<Rightarrow> (None, snd (c_Close c (snd sdk))))"

definition sdk_send :: "bool \<Rightarrow> string \<Rightarrow> string option \<Rightarrow> string \<Rightarrow> string \<Rightarrow> sdk \<Rightarrow> sdk" where
  "sdk_send raced topic payload traceID key sdk =
     (case fst sdk of
        None \<Rightarrow> sdk
      | Some c \<Rightarrow> (case c_send raced topic payload traceID key c (snd sdk) of (c1, n1) \<Rightarrow> (Some c1, n1)))"

definition Send :: "bool \<Rightarrow> string \<Rightarrow> string option \<Rightarrow> Option list \<Rightarrow> sdk \<Rightarrow> sdk" where
  "Send raced topic payload opts sdk =
     (let opt = applyOpts opts in sdk_send raced topic payload (o_traceID opt) (o_partitionKey opt) sdk)"

definition ctx_opts :: "context_values option \<Rightarrow> Option list \<Rightarrow> sendOpts" where
  "ctx_opts ctx opts =
     (let opt = applyOpts opts;
          o1 = (if o_traceID opt = [] then opt\<lparr>o_traceID := traceIDFromCtx ctx\<rparr> else opt)
      in if o_partitionKey o1 = [] then o1\<lparr>o_partitionKey := partitionKeyFromCtx ctx\<rparr> else o1)"

definition SendCtx :: "bool \<Rightarrow> context_values option \<Rightarrow> string \<Rightarrow> string option \<Rightarrow> Option list \<Rightarrow> sdk \<Rightarrow> sdk" where
  "SendCtx raced ctx topic payload opts sdk =
     (let opt = ctx_opts ctx opts in sdk_send raced topic payload (o_traceID opt) (o_partitionKey opt) sdk)"

end
