(* ===== verification/Client_Props.thy ===== *)
theory Client_Props
  imports Client State_Machine
begin

text \<open>
  The client over any sequence of sends: every shard index is in range, every open connection carries
  whole frames only, because a connection whose write fails is closed and dropped, no two shards share
  a connection, and a shard is left alone while it backs off.
\<close>

section \<open>Shards\<close>

definition pool_size :: "Client \<Rightarrow> nat" where
  "pool_size c = length (eventShards c)"

definition pools_ok :: "Client \<Rightarrow> bool" where
  "pools_ok c \<longleftrightarrow> 1 \<le> pool_size c \<and> pool_size c \<le> 16 \<and> length (normalShards c) = pool_size c"

lemma shardIndex_less: "0 < sz \<Longrightarrow> sz < 2 ^ 32 \<Longrightarrow> shardIndex t sz < sz"
proof -
  assume sz: "0 < sz" "sz < 2 ^ 32"
  then have u: "unat (of_nat sz :: 32 word) = sz"
    by (simp add: unat_of_nat take_bit_nat_eq_self)
  then have "unat (fnv32a t mod of_nat sz) < sz"
    using sz(1) by (simp add: unat_mod)
  then show ?thesis
    using sz(1) by (simp add: shardIndex_def)
qed

lemma New_pools: "New cfg h = Inr c \<Longrightarrow> pools_ok c"
  by (auto simp: New_def Let_def pools_ok_def pool_size_def defaultMaxConns_def split: option.splits if_splits)

lemma shards_of_length: "pools_ok c \<Longrightarrow> length (shards_of topic c) = pool_size c"
  by (simp add: shards_of_def pools_ok_def pool_size_def)

lemma shardIndex_pool: "pools_ok c \<Longrightarrow> shardIndex t (length (shards_of topic c)) < length (shards_of topic c)"
  using shards_of_length by (intro shardIndex_less) (auto simp: pools_ok_def)

section \<open>Open connections\<close>

definition open_conns :: "Client \<Rightarrow> nat list" where
  "open_conns c = List.map_filter conn (eventShards c @ normalShards c)"

text \<open>The bytes of a connection are the frames of the envelopes sent on it.\<close>

definition carries :: "string \<Rightarrow> Envelope list \<Rightarrow> bool" where
  "carries bytes envs \<longleftrightarrow> (\<exists>frames. list_all2 (\<lambda>e f. encodeFrame e = Inr f) envs frames \<and> bytes = concat frames)"

definition client_inv :: "string \<Rightarrow> (Client \<times> net) \<Rightarrow> bool" where
  "client_inv srv st \<longleftrightarrow>
     (case st of (c, n) \<Rightarrow>
       pools_ok c \<and> service c = srv \<and> distinct (open_conns c) \<and>
       (\<forall>k \<in> set (open_conns c). k < next_conn n \<and> k \<notin> set (hung_up n) \<and>
          (\<exists>envs. carries (wire n k) envs \<and> (\<forall>e \<in> set envs. Version e = EnvVersion \<and> Service e = srv))) \<and>
       (\<forall>k \<in> set (hung_up n). k < next_conn n))"

lemma carries_Nil: "carries [] []"
  unfolding carries_def by (rule exI [of _ "[]"]) simp

lemma carries_snoc:
  assumes "carries bytes envs" "encodeFrame e = Inr f"
  shows "carries (bytes @ f) (envs @ [e])"
proof -
  obtain frames where "list_all2 (\<lambda>e f. encodeFrame e = Inr f) envs frames" "bytes = concat frames"
    using assms(1) by (auto simp: carries_def)
  then have "list_all2 (\<lambda>e f. encodeFrame e = Inr f) (envs @ [e]) (frames @ [f]) \<and> bytes @ f = concat (frames @ [f])"
    using assms(2) by (simp add: list_all2_appendI)
  then show ?thesis
    unfolding carries_def by blast
qed

text \<open>Replacing one shard changes the open connections only there.\<close>

lemma map_filter_update:
  assumes "i < length xs"
  shows "\<exists>as bs. List.map_filter conn xs = as @ (case conn (xs ! i) of None \<Rightarrow> [] | Some k \<Rightarrow> [k]) @ bs \<and>
    (\<forall>s. List.map_filter conn (xs[i := s]) = as @ (case conn s of None \<Rightarrow> [] | Some k \<Rightarrow> [k]) @ bs)"
proof -
  have *: "List.map_filter conn (take i xs @ s # drop (Suc i) xs) =
      List.map_filter conn (take i xs) @ (case conn s of None \<Rightarrow> [] | Some k \<Rightarrow> [k]) @ List.map_filter conn (drop (Suc i) xs)" for s
    by (simp add: List.map_filter_def split: option.split)
  have "xs = take i xs @ xs ! i # drop (Suc i) xs"
    using assms by (rule id_take_nth_drop)
  then have "List.map_filter conn xs =
      List.map_filter conn (take i xs) @ (case conn (xs ! i) of None \<Rightarrow> [] | Some k \<Rightarrow> [k]) @ List.map_filter conn (drop (Suc i) xs)"
    using * [of "xs ! i"] by simp
  moreover have "List.map_filter conn (xs[i := s]) =
      List.map_filter conn (take i xs) @ (case conn s of None \<Rightarrow> [] | Some k \<Rightarrow> [k]) @ List.map_filter conn (drop (Suc i) xs)" for s
    using * [of s] upd_conv_take_nth_drop [OF assms, of s] by simp
  ultimately show ?thesis
    by blast
qed

lemma open_conns_set_shard:
  assumes "i < length (shards_of topic c)"
  shows "\<exists>as bs. open_conns c = as @ (case conn (shards_of topic c ! i) of None \<Rightarrow> [] | Some k \<Rightarrow> [k]) @ bs \<and>
    (\<forall>s. open_conns (set_shard topic i s c) = as @ (case conn s of None \<Rightarrow> [] | Some k \<Rightarrow> [k]) @ bs)"
proof (cases "isEventTopic topic")
  case True
  then obtain as bs where "List.map_filter conn (eventShards c) =
        as @ (case conn (eventShards c ! i) of None \<Rightarrow> [] | Some k \<Rightarrow> [k]) @ bs"
    "\<forall>s. List.map_filter conn ((eventShards c)[i := s]) = as @ (case conn s of None \<Rightarrow> [] | Some k \<Rightarrow> [k]) @ bs"
    using map_filter_update [of i "eventShards c"] assms by (auto simp: shards_of_def)
  then show ?thesis
    using True by (intro exI [of _ as] exI [of _ "bs @ List.map_filter conn (normalShards c)"])
      (simp add: open_conns_def set_shard_def shards_of_def List.map_filter_def)
next
  case False
  then obtain as bs where "List.map_filter conn (normalShards c) =
        as @ (case conn (normalShards c ! i) of None \<Rightarrow> [] | Some k \<Rightarrow> [k]) @ bs"
    "\<forall>s. List.map_filter conn ((normalShards c)[i := s]) = as @ (case conn s of None \<Rightarrow> [] | Some k \<Rightarrow> [k]) @ bs"
    using map_filter_update [of i "normalShards c"] assms by (auto simp: shards_of_def)
  then show ?thesis
    using False by (intro exI [of _ "List.map_filter conn (eventShards c) @ as"] exI [of _ bs])
      (simp add: open_conns_def set_shard_def shards_of_def List.map_filter_def)
qed

lemma set_shard_simps [simp]:
  "pools_ok (set_shard topic i s c) = pools_ok c" "service (set_shard topic i s c) = service c"
  "cl_closed (set_shard topic i s c) = cl_closed c"
  by (simp_all add: set_shard_def pools_ok_def pool_size_def)

section \<open>What a send does to its shard\<close>

text \<open>
  The connection a send uses: the shard's own, with what it carries, or a new one. \<open>used\<close> is that
  connection and \<open>before\<close> what it carries before the frame.
\<close>

definition uses :: "shardConn \<Rightarrow> net \<Rightarrow> nat \<Rightarrow> string \<Rightarrow> nat \<Rightarrow> bool" where
  "uses s n k before nc \<longleftrightarrow>
     conn s = Some k \<and> before = wire n k \<and> nc = next_conn n \<or>
     conn s = None \<and> k = next_conn n \<and> before = [] \<and> nc = Suc (next_conn n)"

lemma client_inv_keep:
  assumes inv: "client_inv srv (c, n)" and i: "i < length (shards_of topic c)"
    and s': "conn s' = conn (shards_of topic c ! i)"
    and n': "wire n' = wire n" "next_conn n' = next_conn n" "hung_up n' = hung_up n"
  shows "client_inv srv (set_shard topic i s' c, n')"
proof -
  have "open_conns (set_shard topic i s' c) = open_conns c"
    using open_conns_set_shard [OF i] s' by metis
  then show ?thesis
    using inv n' by (simp add: client_inv_def)
qed

lemma client_inv_sent:
  assumes inv: "client_inv srv (c, n)" and i: "i < length (shards_of topic c)"
    and u: "uses (shards_of topic c ! i) n k before nc" and s': "conn s' = Some k"
    and e: "encodeFrame e = Inr frame" "Version e = EnvVersion" "Service e = srv"
    and n': "wire n' = (wire n)(k := before @ frame)" "next_conn n' = nc" "hung_up n' = hung_up n"
  shows "client_inv srv (set_shard topic i s' c, n')"
proof -
  let ?s = "shards_of topic c ! i"
  obtain as bs where o: "open_conns c = as @ (case conn ?s of None \<Rightarrow> [] | Some k \<Rightarrow> [k]) @ bs"
    and o': "open_conns (set_shard topic i s' c) = as @ [k] @ bs"
    using open_conns_set_shard [OF i] s' by fastforce
  have old: "j < next_conn n \<and> j \<notin> set (hung_up n) \<and> (\<exists>envs. carries (wire n j) envs \<and> (\<forall>e \<in> set envs. Version e = EnvVersion \<and> Service e = srv))"
    if "j \<in> set (open_conns c)" for j
    using inv that by (simp add: client_inv_def)
  have hung: "\<forall>j \<in> set (hung_up n). j < next_conn n"
    using inv by (simp add: client_inv_def)
  have dist: "distinct (as @ [k] @ bs)"
    using inv o u old by (fastforce simp: client_inv_def uses_def)
  have "\<exists>envs. carries before envs \<and> (\<forall>e \<in> set envs. Version e = EnvVersion \<and> Service e = srv)"
    using u old [of k] o carries_Nil by (fastforce simp: uses_def)
  then have new: "\<exists>envs. carries (before @ frame) envs \<and> (\<forall>e \<in> set envs. Version e = EnvVersion \<and> Service e = srv)"
    using carries_snoc [OF _ e(1)] e(2,3) by fastforce
  have k: "k < nc" "k \<notin> set (hung_up n)" "next_conn n \<le> nc"
    using u old [of k] o hung by (auto simp: uses_def)
  have "j < nc \<and> j \<notin> set (hung_up n) \<and> (\<exists>envs. carries (wire n' j) envs \<and> (\<forall>e \<in> set envs. Version e = EnvVersion \<and> Service e = srv))"
    if "j \<in> set (as @ [k] @ bs)" for j
  proof (cases "j = k")
    case False
    then have "j \<in> set (open_conns c)" "wire n' j = wire n j"
      using that o n' by auto
    then show ?thesis
      using old [of j] k(3) by auto
  qed (use new k n' in simp)
  then show ?thesis
    using inv dist o' n' hung k(3) by (fastforce simp: client_inv_def)
qed

lemma client_inv_failed:
  assumes inv: "client_inv srv (c, n)" and i: "i < length (shards_of topic c)"
    and u: "uses (shards_of topic c ! i) n k before nc" and s': "conn s' = None"
    and n': "\<forall>j. j \<noteq> k \<longrightarrow> wire n' j = wire n j" "next_conn n' = nc" "hung_up n' = k # hung_up n"
  shows "client_inv srv (set_shard topic i s' c, n')"
proof -
  let ?s = "shards_of topic c ! i"
  obtain as bs where o: "open_conns c = as @ (case conn ?s of None \<Rightarrow> [] | Some k \<Rightarrow> [k]) @ bs"
    and o': "open_conns (set_shard topic i s' c) = as @ bs"
    using open_conns_set_shard [OF i] s' by fastforce
  have old: "j < next_conn n \<and> j \<notin> set (hung_up n) \<and> (\<exists>envs. carries (wire n j) envs \<and> (\<forall>e \<in> set envs. Version e = EnvVersion \<and> Service e = srv))"
    if "j \<in> set (open_conns c)" for j
    using inv that by (simp add: client_inv_def)
  have hung: "\<forall>j \<in> set (hung_up n). j < next_conn n" and d: "distinct (open_conns c)"
    using inv by (simp_all add: client_inv_def)
  have dist: "distinct (as @ bs)" "k \<notin> set (as @ bs)"
    using d o u old by (fastforce simp: uses_def)+
  have k: "k < nc" "next_conn n \<le> nc"
    using u old [of k] o by (auto simp: uses_def)
  have "j < nc \<and> j \<notin> set (hung_up n') \<and> (\<exists>envs. carries (wire n' j) envs \<and> (\<forall>e \<in> set envs. Version e = EnvVersion \<and> Service e = srv))"
    if "j \<in> set (as @ bs)" for j
  proof -
    have j: "j \<noteq> k" "j \<in> set (open_conns c)"
      using that dist(2) o by auto
    then show ?thesis
      using old [OF j(2)] n' k by auto
  qed
  then show ?thesis
    using inv dist(1) o' n' hung k by (fastforce simp: client_inv_def)
qed


lemma net_Now_frame [simp]:
  "wire (snd (net_Now n)) = wire n" "next_conn (snd (net_Now n)) = next_conn n" "hung_up (snd (net_Now n)) = hung_up n"
  by (simp_all add: net_Now_def ntick_def)

lemma ensure_conn_cases:
  assumes "ensure_conn closed_now b s n = (r, s1, n1)"
  obtains (none) "r = None" "conn s1 = conn s" "wire n1 = wire n" "next_conn n1 = next_conn n" "hung_up n1 = hung_up n"
  | (some) k where "r = Some k" "conn s1 = Some k" "uses s n k (wire n1 k) (next_conn n1)"
      "\<forall>j. j \<noteq> k \<longrightarrow> wire n1 j = wire n j" "hung_up n1 = hung_up n"
proof (cases "conn s")
  case None
  then show ?thesis
    using assms by (auto simp: ensure_conn_def net_Dial_def net_Now_def ntick_def uses_def
        split: if_splits intro: none some)
next
  case (Some k)
  then have "r = Some k" "s1 = s" "n1 = n"
    using assms by (auto simp: ensure_conn_def)
  then show ?thesis
    using some [of k] Some by (simp add: uses_def)
qed

lemma write_frame_cases:
  assumes "write_frame b frame k s n = (s1, n1)"
  obtains (ok) "s1 = s" "wire n1 = (wire n)(k := wire n k @ frame)" "next_conn n1 = next_conn n" "hung_up n1 = hung_up n"
  | (failed) "conn s1 = None" "\<forall>j. j \<noteq> k \<longrightarrow> wire n1 j = wire n j" "next_conn n1 = next_conn n"
      "hung_up n1 = k # hung_up n"
  using assms
  by (auto simp: write_frame_def conn_Write_def conn_Close_def net_Now_def ntick_def split: option.splits
      intro: ok failed)

text \<open>The ways a call of \<open>send\<close> ends: before it has a frame, or with a dial and perhaps a write on its shard.\<close>

lemma c_send_cases:
  assumes "c_send raced topic payload traceID key c n = (c', n')"
  defines "i \<equiv> shardIndex traceID (length (shards_of topic c))"
    and "b \<equiv> (if isEventTopic topic then eventPoolFailureBackoff else failureBackoff c)"
  obtains (idle) "c' = c" "n' = n \<or> n' = ntick n \<or> n' = ntick (ntick n)"
  | (framed) p frame r s1 n1 where
      "encodeFrame (make_envelope c topic p traceID key (nclock n (Suc (nstep n)))) = Inr frame"
      "ensure_conn raced b (shards_of topic c ! i) (ntick (ntick n)) = (r, s1, n1)"
      "(c', n') = (case r of None \<Rightarrow> (set_shard topic i s1 c, n1)
         | Some k \<Rightarrow> (case write_frame b frame k s1 n1 of (s2, n2) \<Rightarrow> (set_shard topic i s2 c, n2)))"
  using assms(1)
  by (auto simp: c_send_def Let_def net_Now_def i_def [symmetric] b_def [symmetric] ntick_def
      split: if_splits option.splits sum.splits prod.splits)

lemma write_frame_inv:
  assumes inv: "client_inv srv (c, n)" and i: "i < length (shards_of topic c)"
    and e: "encodeFrame e = Inr frame" "Version e = EnvVersion" "Service e = srv"
    and k: "ensure_conn raced b (shards_of topic c ! i) n = (Some k, s1, n1)" "write_frame b' frame k s1 n1 = (s2, n2)"
  shows "client_inv srv (set_shard topic i s2 c, n2)"
  using k(1)
proof (cases rule: ensure_conn_cases)
  case (some k')
  then have same: "k' = k"
    by simp
  note some = some [unfolded same]
  from k(2) show ?thesis
  proof (cases rule: write_frame_cases)
    case ok
    have "wire n2 = (wire n)(k := wire n1 k @ frame)"
      using ok(2) some(4) by auto
    then show ?thesis
      using client_inv_sent [OF inv i some(3) _ e, of s2 n2] ok some by simp
  next
    case failed
    have "\<forall>j. j \<noteq> k \<longrightarrow> wire n2 j = wire n j"
      using failed(2) some(4) by auto
    then show ?thesis
      using client_inv_failed [OF inv i some(3), of s2 n2] failed some by simp
  qed
qed simp

lemma c_send_inv:
  assumes inv: "client_inv srv (c, n)" and sent: "c_send raced topic payload traceID key c n = (c', n')"
  shows "client_inv srv (c', n')"
proof -
  have i: "shardIndex traceID (length (shards_of topic c)) < length (shards_of topic c)"
    using inv shardIndex_pool by (auto simp: client_inv_def)
  have idle: "client_inv srv (c, ntick n)" "client_inv srv (c, ntick (ntick n))"
    using inv by (simp_all add: client_inv_def ntick_def)
  from sent show ?thesis
  proof (cases rule: c_send_cases)
    case idle
    then show ?thesis
      using inv \<open>client_inv srv (c, ntick n)\<close> \<open>client_inv srv (c, ntick (ntick n))\<close> by auto
  next
    case (framed p frame r s1 n1)
    show ?thesis
    proof (cases r)
      case None
      from framed(2) show ?thesis
        by (cases rule: ensure_conn_cases) (use None framed(3) client_inv_keep [OF idle(2) i, of s1 n1] in simp_all)
    next
      case (Some k)
      have "Service (make_envelope c topic p traceID key t) = srv" "Version (make_envelope c topic p traceID key t) = EnvVersion" for t
        using inv by (simp_all add: make_envelope_def client_inv_def)
      then show ?thesis
        using write_frame_inv [OF idle(2) i framed(1) _ _ framed(2) [unfolded Some]] framed(3) Some by (auto split: prod.splits)
    qed
  qed
qed

lemma close_shards_ok:
  "close_shards ss n = (ss', n') \<Longrightarrow>
     List.map_filter conn ss' = [] \<and> length ss' = length ss \<and> next_conn n' = next_conn n \<and> wire n' = wire n \<and>
     set (hung_up n') = set (hung_up n) \<union> set (List.map_filter conn ss)"
proof (induction ss arbitrary: n ss' n')
  case Nil
  then show ?case
    by (simp add: List.map_filter_simps)
next
  case (Cons s ss)
  define n1 where "n1 = (case conn s of None \<Rightarrow> n | Some c \<Rightarrow> conn_Close c n)"
  obtain ss1 n2 where 2: "close_shards ss n1 = (ss1, n2)"
    by fastforce
  then have "ss' = s\<lparr>conn := None\<rparr> # ss1" "n' = n2"
    using Cons.prems by (simp_all add: n1_def [symmetric])
  then show ?case
    using Cons.IH [OF 2] by (auto simp: n1_def conn_Close_def List.map_filter_simps split: option.splits)
qed

lemma c_Close_ok:
  assumes "client_inv srv (c, n)" "c_Close c n = (c', n')"
  shows "client_inv srv (c', n')" "open_conns c' = []" "cl_closed c'" "set (open_conns c) \<subseteq> set (hung_up n')"
proof -
  obtain es n1 ns where e: "close_shards (eventShards c) n = (es, n1)" "close_shards (normalShards c) n1 = (ns, n')"
    and c': "c' = c\<lparr>cl_closed := True, eventShards := es, normalShards := ns\<rparr>"
    using assms(2) by (auto simp: c_Close_def Let_def split: prod.splits)
  have app: "List.map_filter conn (xs @ ys) = List.map_filter conn xs @ List.map_filter conn ys" for xs ys
    by (simp add: List.map_filter_def)
  show none: "open_conns c' = []" "cl_closed c'"
    using close_shards_ok [OF e(1)] close_shards_ok [OF e(2)] by (simp_all add: open_conns_def c' app)
  show "set (open_conns c) \<subseteq> set (hung_up n')"
    using close_shards_ok [OF e(1)] close_shards_ok [OF e(2)] by (auto simp: open_conns_def app)
  have hung: "set (hung_up n') = set (hung_up n) \<union> set (open_conns c)" "next_conn n' = next_conn n"
    using close_shards_ok [OF e(1)] close_shards_ok [OF e(2)] by (auto simp: open_conns_def app)
  have "pools_ok c'" "service c' = srv"
    using assms(1) close_shards_ok [OF e(1)] close_shards_ok [OF e(2)]
    by (simp_all add: c' client_inv_def pools_ok_def pool_size_def)
  then show "client_inv srv (c', n')"
    using assms(1) none(1) hung by (auto simp: client_inv_def)
qed


section \<open>Sequences of calls\<close>

datatype client_action =
    SendCall bool string "string option" string string
  | CloseCall

fun client_exec :: "client_action \<Rightarrow> Client \<times> net \<Rightarrow> (Client \<times> net) option" where
  "client_exec (SendCall raced topic payload traceID key) st =
     Some (c_send raced topic payload traceID key (fst st) (snd st))"
| "client_exec CloseCall st = Some (c_Close (fst st) (snd st))"

lemma client_exec_inv: "client_inv srv st \<Longrightarrow> client_exec a st = Some st' \<Longrightarrow> client_inv srv st'"
proof (cases a)
  case (SendCall raced topic payload traceID key)
  assume "client_inv srv st" "client_exec a st = Some st'"
  then show ?thesis
    using SendCall c_send_inv [of srv "fst st" "snd st" raced topic payload traceID key "fst st'" "snd st'"] by simp
next
  case CloseCall
  assume "client_inv srv st" "client_exec a st = Some st'"
  then show ?thesis
    using CloseCall c_Close_ok(1) [of srv "fst st" "snd st" "fst st'" "snd st'"] by simp
qed

interpretation cl: invariant_machine client_exec "client_inv srv" for srv
  by unfold_locales (rule client_exec_inv)

lemma New_inv:
  assumes "New cfg h = Inr c" "\<forall>k \<in> set (hung_up n). k < next_conn n"
  shows "client_inv (service c) (c, n)"
proof -
  have "open_conns c = []"
    using assms(1) by (auto simp: New_def Let_def open_conns_def zero_shard_def List.map_filter_def
        split: option.splits if_splits)
  then show ?thesis
    using New_pools [OF assms(1)] assms(2) by (simp add: client_inv_def)
qed

end
