(* ===== verification/Client_Theorems.thy ===== *)
theory Client_Theorems
  imports Client_Props Server_Props Examples
begin

text \<open>
  The properties of the SDK's client: its configuration, its shards, its back-off, and that what it
  puts on a connection is a stream of frames the gateway understands.
\<close>

section \<open>The stream of a connection\<close>

text \<open>
  C19: over any sequence of sends, with dials and writes failing at any point, every connection a shard
  still holds carries nothing but whole frames of envelopes of this client, so the gateway reads from
  it exactly these envelopes, in order, and never loses the frame boundaries; no two shards share a
  connection and none holds one that was closed.
\<close>

theorem client_streams_whole_frames:
  assumes "Client.New conf h = Inr c0" "hung_up n0 = []" "reach client_exec (c0, n0) (c, n)" "k \<in> set (open_conns c)"
  shows "distinct (open_conns c) \<and> k \<notin> set (hung_up n) \<and>
    (\<exists>envs frames. list_all2 (\<lambda>e f. encodeFrame e = Inr f) envs frames \<and> wire n k = concat frames \<and>
       (\<forall>e \<in> set envs. Version e = EnvVersion \<and> Service e = service c0) \<and>
       (list_all2 (framed sc) envs frames \<longrightarrow>
          serve_all sc (wire n k) = map (\<lambda>e. (Topic e = TopicEventTracks, received e)) envs))"
proof -
  have "client_inv (service c0) (c0, n0)"
    using New_inv [OF assms(1), of n0] assms(2) by simp
  then have inv: "client_inv (service c0) (c, n)"
    using cl.inv_reach [OF assms(3)] by blast
  obtain envs where "carries (wire n k) envs" and ver: "\<forall>e \<in> set envs. Version e = EnvVersion \<and> Service e = service c0"
    using inv assms(4) by (auto simp: client_inv_def)
  then obtain frames where f: "list_all2 (\<lambda>e f. encodeFrame e = Inr f) envs frames" "wire n k = concat frames"
    by (auto simp: carries_def)
  have "filter (\<lambda>env. Version env = EnvVersion) envs = envs"
    using ver by (simp add: filter_id_conv)
  moreover have "serve_all sc [] = []"
    by (rule serve_all_bad [of _ _ ReadFailed]) (simp add: readFrame_def ReadFull_def)
  ultimately have "list_all2 (framed sc) envs frames \<longrightarrow>
      serve_all sc (wire n k) = map (\<lambda>e. (Topic e = TopicEventTracks, received e)) envs"
    using serve_all_frames [of sc envs frames "[]"] f(2) by auto
  then show ?thesis
    using inv assms(4) f ver by (auto simp: client_inv_def)
qed

definition ex_client_config :: client_config where
  "ex_client_config = \<lparr>GatewayAddr = [], ServiceName = ''svc'', MaxConns = 1, ConnectTimeout = 0,
     cfg_WriteTimeout = 0, FailureBackoff = 0\<rparr>"

definition ex_client :: Client where
  "ex_client = \<lparr>addr = ''log-track:9583'', service = ''svc'', host = ''h'', connectTimeout = 3000000000,
     cl_writeTimeout = 1000000000, failureBackoff = 5000000000, eventShards = [zero_shard],
     normalShards = [zero_shard], cl_closed = False\<rparr>"

definition ex_net :: net where
  "ex_net = \<lparr>nstep = 0, nclock = (\<lambda>_. zero_time), dial_err = (\<lambda>_. False), write_err = (\<lambda>_. None), wire = (\<lambda>_. []),
     next_conn = 0, hung_up = []\<rparr>"

lemma ex_client_new: "Client.New (Some ex_client_config) ''h'' = Inr ex_client"
  by (simp add: Client.New_def ex_client_config_def ex_client_def Let_def defaultGatewayAddr_def
      defaultConnectTimeout_def defaultWriteTimeout_def defaultFailureBackoff_def)

lemma ex_client_send:
  "\<exists>c n. client_exec (SendCall False ''t'' (Some ''1'') [] []) (ex_client, ex_net) = Some (c, n) \<and> open_conns c = [0]"
proof -
  have "marshal_raw (Some ''1'') = Some ''1''"
    by (simp add: json_simps)
  then have "\<exists>f. encodeFrame (make_envelope ex_client ''t'' ''1'' [] [] t) = Inr f" for t
    by (simp add: encodeFrame_def make_envelope_def marshal_envelope_def)
  then obtain f where "encodeFrame (make_envelope ex_client ''t'' ''1'' [] [] zero_time) = Inr f"
    by blast
  then show ?thesis
    by (simp add: c_send_def ex_client_def ex_net_def shards_of_def isEventTopic_def topic_defs shardIndex_def
        net_Now_def ntick_def zero_shard_def ensure_conn_def net_Dial_def write_frame_def conn_Write_def
        set_shard_def open_conns_def List.map_filter_simps Let_def)
qed

theorem client_streams_whole_frames_witness:
  "\<exists>c n. run client_exec [SendCall False ''t'' (Some ''1'') [] []] (ex_client, ex_net) = Some (c, n) \<and>
     (\<exists>envs frames. list_all2 (\<lambda>e f. encodeFrame e = Inr f) envs frames \<and> wire n 0 = concat frames)"
proof -
  obtain c n where ex: "client_exec (SendCall False ''t'' (Some ''1'') [] []) (ex_client, ex_net) = Some (c, n)"
    "open_conns c = [0]"
    using ex_client_send by blast
  then have run: "run client_exec [SendCall False ''t'' (Some ''1'') [] []] (ex_client, ex_net) = Some (c, n)"
    by simp
  have "hung_up ex_net = []" "0 \<in> set (open_conns c)"
    using ex(2) by (simp_all add: ex_net_def)
  then show ?thesis
    using client_streams_whole_frames [OF ex_client_new _ reach_run [OF reach_init run]] run by blast
qed

section \<open>Shards\<close>

text \<open>
  C21: a client that \<open>New\<close> accepts has a named service and between 1 and 16 shards in each pool, whatever
  was asked for, and the shard index of any trace is in range; messages of one trace and one kind of
  topic always use the same shard.
\<close>

theorem client_shards_in_range:
  assumes "Client.New conf h = Inr c"
  shows "service c \<noteq> [] \<and> 1 \<le> length (eventShards c) \<and> length (eventShards c) \<le> 16 \<and>
    length (normalShards c) = length (eventShards c) \<and>
    shardIndex t (length (shards_of topic c)) < length (shards_of topic c) \<and>
    (isEventTopic topic = isEventTopic topic' \<longrightarrow> shards_of topic c = shards_of topic' c)"
proof -
  have "pools_ok c"
    using New_pools [OF assms] .
  moreover have "service c \<noteq> []"
    using assms by (auto simp: Client.New_def Let_def split: option.splits if_splits)
  ultimately show ?thesis
    using shardIndex_pool [of c t topic] by (auto simp: pools_ok_def pool_size_def shards_of_def)
qed

theorem client_shards_in_range_witness:
  "shardIndex ''trace'' (length (shards_of ''t'' ex_client)) < length (shards_of ''t'' ex_client)"
  using client_shards_in_range [OF ex_client_new, of "''trace''" "''t''" "''t''"] by blast

section \<open>Back-off and closing\<close>



end
