(* ===== verification/Http_Log.thy ===== *)
theory Http_Log
  imports Go_Values Client Config
begin

text \<open>
  The HTTP logs of the SDK, \<open>pkg/logtrack/http.go\<close>: the two records, the limit on the size of their
  bodies, the estimate of a body's JSON size by reflection, and the senders. The estimate works on an
  \<open>int\<close>; it never gets below the largest single decrement under zero, so it is kept unbounded here.
\<close>

section \<open>The size estimate\<close>

text \<open>The second component is the value of \<open>*remaining\<close> after the call.\<close>

definition consumeSize :: "int \<Rightarrow> int \<Rightarrow> bool \<times> int" where
  "consumeSize remaining n = (remaining - n < 0, remaining - n)"

text \<open>Go's \<open>||\<close> over calls that update \<open>*remaining\<close>, and \<open>if ... return true\<close> before the rest.\<close>

definition or_then :: "bool \<times> int \<Rightarrow> (int \<Rightarrow> bool \<times> int) \<Rightarrow> bool \<times> int" where
  "or_then p f = (if fst p then p else f (snd p))"

definition jsonStringLen :: "string \<Rightarrow> nat" where
  "jsonStringLen s =
     2 + sum_list (map (\<lambda>c. if c = CHR 0x5C \<or> c = CHR 0x22 then 2 else if code c < 32 then 6 else 1) s)"

fun consumeJSONMapKey :: "rvalue \<Rightarrow> int \<Rightarrow> bool \<times> int" where
  "consumeJSONMapKey (Elem None) r = consumeSize r 6"
| "consumeJSONMapKey (Elem (Some v)) r = consumeJSONMapKey v r"
| "consumeJSONMapKey (StringV s) r = consumeSize r (int (jsonStringLen s))"
| "consumeJSONMapKey (IntV n) r = consumeSize r (int (length (FormatInt n) + 2))"
| "consumeJSONMapKey (UintV n) r = consumeSize r (int (length (fmt_nat n) + 2))"
| "consumeJSONMapKey _ r = consumeSize r 2"

text \<open>
  The loops over elements, entries and fields: a comma before every item but the first, the item,
  and the closing bracket after the last.
\<close>

fun consume_loop :: "('a \<Rightarrow> int \<Rightarrow> bool \<times> int) \<Rightarrow> bool \<Rightarrow> 'a list \<Rightarrow> int \<Rightarrow> bool \<times> int" where
  "consume_loop item first [] r = consumeSize r 1"
| "consume_loop item first (x # xs) r =
     or_then (if first then (False, r) else consumeSize r 1)
       (\<lambda>r1. or_then (item x r1) (consume_loop item False xs))"

lemma consume_loop_cong [fundef_cong]:
  assumes "xs = ys" "b = c" "r = s" "\<And>x t. x \<in> set ys \<Longrightarrow> f x t = g x t"
  shows "consume_loop f b xs r = consume_loop g c ys s"
proof -
  have "consume_loop f b ys r = consume_loop g b ys r"
    using assms(4)
  proof (induction f b ys r rule: consume_loop.induct)
    case (2 item first x xs r)
    then show ?case
      by (simp add: or_then_def)
  qed simp
  then show ?thesis
    using assms by simp
qed

definition consume_items :: "('a \<Rightarrow> int \<Rightarrow> bool \<times> int) \<Rightarrow> 'a list \<Rightarrow> int \<Rightarrow> bool \<times> int" where
  "consume_items item xs r = or_then (consumeSize r 1) (consume_loop item True xs)"

lemma consume_items_cong [fundef_cong]:
  assumes "xs = ys" "r = s" "\<And>x t. x \<in> set ys \<Longrightarrow> f x t = g x t"
  shows "consume_items f xs r = consume_items g ys s"
  unfolding consume_items_def or_then_def using assms by (auto intro: consume_loop_cong)

fun consumeJSONSize :: "int \<Rightarrow> rvalue \<Rightarrow> int \<Rightarrow> bool \<times> int" where
  "consumeJSONSize depth Invalid r = consumeSize r 4"
| "consumeJSONSize depth (Elem None) r = consumeSize r 4"
| "consumeJSONSize depth (Elem (Some v)) r = consumeJSONSize depth v r"
| "consumeJSONSize depth (StringV s) r = consumeSize r (int (jsonStringLen s))"
| "consumeJSONSize depth (BoolV b) r = (if b then consumeSize r 4 else consumeSize r 5)"
| "consumeJSONSize depth (IntV n) r = consumeSize r (int (length (FormatInt n)))"
| "consumeJSONSize depth (UintV n) r = consumeSize r (int (length (fmt_nat n)))"
| "consumeJSONSize depth (FloatV g j) r = consumeSize r (int (length g))"
| "consumeJSONSize depth (SliceV bytes None) r = consumeSize r 4"
| "consumeJSONSize depth (SliceV bytes (Some vs)) r =
     (if bytes then consumeSize r (int (EncodedLen (length vs) + 2))
      else consume_items (\<lambda>v r1. consumeJSONSize (depth + 1) v r1) vs r)"
| "consumeJSONSize depth (ArrayV bytes vs) r =
     (if bytes then consumeSize r (int (EncodedLen (length vs) + 2))
      else consume_items (\<lambda>v r1. consumeJSONSize (depth + 1) v r1) vs r)"
| "consumeJSONSize depth (MapV None) r = consumeSize r 4"
| "consumeJSONSize depth (MapV (Some es)) r =
     consume_items
       (\<lambda>e r1. or_then (consumeJSONMapKey (fst e) r1)
         (\<lambda>r2. or_then (consumeSize r2 1) (\<lambda>r3. consumeJSONSize (depth + 1) (snd e) r3))) es r"
| "consumeJSONSize depth (StructV fs) r =
     consume_items
       (\<lambda>f r1. or_then (consumeSize r1 (int (jsonStringLen (f_name f))))
         (\<lambda>r2. or_then (consumeSize r2 1) (\<lambda>r3. consumeJSONSize (depth + 1) (f_value f) r3)))
       (filter f_exported fs) r"
| "consumeJSONSize depth OtherV r = (False, r)"

definition estimatedJSONSizeExceeds :: "rvalue \<Rightarrow> int \<Rightarrow> int \<Rightarrow> bool" where
  "estimatedJSONSizeExceeds v remaining depth =
     (if 32 < depth then True else fst (consumeJSONSize depth v remaining))"

definition bodyExceedsLimit :: "rvalue \<Rightarrow> int \<Rightarrow> int \<Rightarrow> bool" where
  "bodyExceedsLimit body declaredSize limit =
     (if limit < declaredSize then True
      else if 0 < declaredSize then False
      else estimatedJSONSizeExceeds body limit 0)"

section \<open>The limit\<close>

text \<open>Read once from the environment; the second component is the cache.\<close>

definition httpBodySizeLimit :: "environ \<Rightarrow> int option \<Rightarrow> int \<times> int option" where
  "httpBodySizeLimit env cached =
     (case cached of
        Some n \<Rightarrow> (n, cached)
      | None \<Rightarrow>
          (let v = (case env ''LOG_TRACK_HTTP_BODY_SIZE'' of None \<Rightarrow> [] | Some v \<Rightarrow> v);
               n = (if v = [] then 1024
                    else case ParseInt v of (_, Some e) \<Rightarrow> 1024 | (n, None) \<Rightarrow> if n < 0 then 1024 else n)
           in (n, Some n)))"

section \<open>The records\<close>

record InboundHTTPLog =
  ih_AppID :: int
  ih_Country :: string
  ih_BID :: string
  ih_Method :: string
  ih_URL :: string
  ih_DurationMs :: int
  ih_ClientIP :: string
  ih_RequestHeaders :: "(string \<times> any_value option) list"
  ih_RequestBody :: "any_value option"
  ih_RequestBodyType :: string
  ih_RequestBodySize :: int
  ih_ResponseStatus :: int
  ih_ResponseHeaders :: "(string \<times> any_value option) list"
  ih_ResponseBody :: "any_value option"
  ih_ResponseBodyType :: string
  ih_ResponseBodySize :: int
  ih_Extra :: "(string \<times> any_value option) list"

definition marshal_inbound :: "InboundHTTPLog \<Rightarrow> string option" where
  "marshal_inbound l = json_struct (
     int_omit ''app_id'' (ih_AppID l) @ str_omit ''country'' (ih_Country l) @ str_omit ''bid'' (ih_BID l) @
     str_member ''method'' (ih_Method l) @ str_member ''url'' (ih_URL l) @
     int_member ''duration_ms'' (ih_DurationMs l) @ str_omit ''client_ip'' (ih_ClientIP l) @
     anymap_omit ''request_headers'' (ih_RequestHeaders l) @ any_omit ''request_body'' (ih_RequestBody l) @
     str_omit ''request_body_type'' (ih_RequestBodyType l) @
     int_omit ''request_body_size'' (ih_RequestBodySize l) @
     int_member ''response_status'' (ih_ResponseStatus l) @
     anymap_omit ''response_headers'' (ih_ResponseHeaders l) @ any_omit ''response_body'' (ih_ResponseBody l) @
     str_omit ''response_body_type'' (ih_ResponseBodyType l) @
     int_omit ''response_body_size'' (ih_ResponseBodySize l) @ anymap_omit ''extra'' (ih_Extra l))"

record OutboundHTTPLog =
  oh_AppID :: int
  oh_Country :: string
  oh_BID :: string
  oh_Provider :: string
  oh_Method :: string
  oh_URL :: string
  oh_DurationMs :: int
  oh_RequestHeaders :: "(string \<times> any_value option) list"
  oh_RequestBody :: "any_value option"
  oh_RequestBodyType :: string
  oh_RequestBodySize :: int
  oh_ResponseStatus :: int
  oh_ResponseHeaders :: "(string \<times> any_value option) list"
  oh_ResponseBody :: "any_value option"
  oh_ResponseBodyType :: string
  oh_ResponseBodySize :: int
  oh_Extra :: "(string \<times> any_value option) list"

definition marshal_outbound :: "OutboundHTTPLog \<Rightarrow> string option" where
  "marshal_outbound l = json_struct (
     int_omit ''app_id'' (oh_AppID l) @ str_omit ''country'' (oh_Country l) @ str_omit ''bid'' (oh_BID l) @
     str_member ''provider'' (oh_Provider l) @ str_member ''method'' (oh_Method l) @
     str_member ''url'' (oh_URL l) @ int_member ''duration_ms'' (oh_DurationMs l) @
     anymap_omit ''request_headers'' (oh_RequestHeaders l) @ any_omit ''request_body'' (oh_RequestBody l) @
     str_omit ''request_body_type'' (oh_RequestBodyType l) @
     int_omit ''request_body_size'' (oh_RequestBodySize l) @
     int_member ''response_status'' (oh_ResponseStatus l) @
     anymap_omit ''response_headers'' (oh_ResponseHeaders l) @ any_omit ''response_body'' (oh_ResponseBody l) @
     str_omit ''response_body_type'' (oh_ResponseBodyType l) @
     int_omit ''response_body_size'' (oh_ResponseBodySize l) @ anymap_omit ''extra'' (oh_Extra l))"

section \<open>Truncation\<close>

definition drop_large :: "any_value option \<Rightarrow> int \<Rightarrow> int \<Rightarrow> any_value option" where
  "drop_large body declared limit =
     (case body of
        None \<Rightarrow> None
      | Some b \<Rightarrow> if bodyExceedsLimit (av_refl b) declared limit then None else Some b)"

definition truncateInbound :: "InboundHTTPLog \<Rightarrow> int \<Rightarrow> InboundHTTPLog" where
  "truncateInbound l limit =
     l\<lparr>ih_RequestBody := drop_large (ih_RequestBody l) (ih_RequestBodySize l) limit,
       ih_ResponseBody := drop_large (ih_ResponseBody l) (ih_ResponseBodySize l) limit\<rparr>"

definition truncateOutbound :: "OutboundHTTPLog \<Rightarrow> int \<Rightarrow> OutboundHTTPLog" where
  "truncateOutbound l limit =
     l\<lparr>oh_RequestBody := drop_large (oh_RequestBody l) (oh_RequestBodySize l) limit,
       oh_ResponseBody := drop_large (oh_ResponseBody l) (oh_ResponseBodySize l) limit\<rparr>"

section \<open>Senders\<close>

text \<open>
  The log is the caller's own record, which the call changes; the cached limit and the client are the
  state of the package.
\<close>

type_synonym http_sdk = "int option \<times> sdk"

definition InboundHTTP ::
  "bool \<Rightarrow> environ \<Rightarrow> InboundHTTPLog option \<Rightarrow> Option list \<Rightarrow> http_sdk \<Rightarrow> InboundHTTPLog option \<times> http_sdk" where
  "InboundHTTP raced env l opts st =
     (case l of
        None \<Rightarrow> (None, st)
      | Some l0 \<Rightarrow>
          (let (limit, cached) = httpBodySizeLimit env (fst st);
               l1 = truncateInbound l0 limit
           in (Some l1, cached, Send raced TopicInboundHTTPLogs (marshal_inbound l1) opts (snd st))))"

definition InboundHTTPCtx ::
  "bool \<Rightarrow> environ \<Rightarrow> context_values option \<Rightarrow> InboundHTTPLog option \<Rightarrow> Option list \<Rightarrow> http_sdk \<Rightarrow>
   InboundHTTPLog option \<times> http_sdk" where
  "InboundHTTPCtx raced env ctx l opts st =
     (case l of
        None \<Rightarrow> (None, st)
      | Some l0 \<Rightarrow>
          (let (limit, cached) = httpBodySizeLimit env (fst st);
               l1 = truncateInbound l0 limit
           in (Some l1, cached, SendCtx raced ctx TopicInboundHTTPLogs (marshal_inbound l1) opts (snd st))))"

definition OutboundHTTP ::
  "bool \<Rightarrow> environ \<Rightarrow> OutboundHTTPLog option \<Rightarrow> Option list \<Rightarrow> http_sdk \<Rightarrow> OutboundHTTPLog option \<times> http_sdk" where
  "OutboundHTTP raced env l opts st =
     (case l of
        None \<Rightarrow> (None, st)
      | Some l0 \<Rightarrow>
          (let (limit, cached) = httpBodySizeLimit env (fst st);
               l1 = truncateOutbound l0 limit
           in (Some l1, cached, Send raced TopicOutboundHTTPLogs (marshal_outbound l1) opts (snd st))))"

definition OutboundHTTPCtx ::
  "bool \<Rightarrow> environ \<Rightarrow> context_values option \<Rightarrow> OutboundHTTPLog option \<Rightarrow> Option list \<Rightarrow> http_sdk \<Rightarrow>
   OutboundHTTPLog option \<times> http_sdk" where
  "OutboundHTTPCtx raced env ctx l opts st =
     (case l of
        None \<Rightarrow> (None, st)
      | Some l0 \<Rightarrow>
          (let (limit, cached) = httpBodySizeLimit env (fst st);
               l1 = truncateOutbound l0 limit
           in (Some l1, cached, SendCtx raced ctx TopicOutboundHTTPLogs (marshal_outbound l1) opts (snd st))))"

end
