(* ===== verification/Http_Log_Props.thy ===== *)
theory Http_Log_Props
  imports Http_Log
begin

text \<open>
  The size estimate of HTTP bodies: it is compared with a size computed without early return and, by
  the interface \<open>size_estimate\<close> and its two instances, with the length of what the encoder writes.
\<close>

section \<open>A size without early return\<close>

fun key_size :: "rvalue \<Rightarrow> nat" where
  "key_size (Elem None) = 6"
| "key_size (Elem (Some v)) = key_size v"
| "key_size (StringV s) = jsonStringLen s"
| "key_size (IntV n) = length (FormatInt n) + 2"
| "key_size (UintV n) = length (fmt_nat n) + 2"
| "key_size _ = 2"

fun json_size :: "rvalue \<Rightarrow> nat" where
  "json_size Invalid = 4"
| "json_size (Elem None) = 4"
| "json_size (Elem (Some v)) = json_size v"
| "json_size (StringV s) = jsonStringLen s"
| "json_size (BoolV b) = (if b then 4 else 5)"
| "json_size (IntV n) = length (FormatInt n)"
| "json_size (UintV n) = length (fmt_nat n)"
| "json_size (FloatV g j) = length g"
| "json_size (SliceV bytes None) = 4"
| "json_size (SliceV bytes (Some vs)) =
     (if bytes then EncodedLen (length vs) + 2 else items_size (map json_size vs))"
| "json_size (ArrayV bytes vs) =
     (if bytes then EncodedLen (length vs) + 2 else items_size (map json_size vs))"
| "json_size (MapV None) = 4"
| "json_size (MapV (Some es)) = items_size (map (\<lambda>e. key_size (fst e) + 1 + json_size (snd e)) es)"
| "json_size (StructV fs) =
     items_size (map (\<lambda>f. jsonStringLen (f_name f) + 1 + json_size (f_value f)) (filter f_exported fs))"
| "json_size OtherV = 0"

text \<open>The outcome of a call that takes \<open>n\<close> bytes of the \<open>r\<close> that remain, or reports that they are not enough.\<close>

definition spends :: "nat \<Rightarrow> int \<Rightarrow> bool \<times> int \<Rightarrow> bool" where
  "spends n r p \<longleftrightarrow> (0 \<le> r \<longrightarrow> (fst p \<longleftrightarrow> r < int n) \<and> (\<not> fst p \<longrightarrow> snd p = r - int n))"

lemma spends_consumeSize: "k = int n \<Longrightarrow> spends n r (consumeSize r k)"
  by (auto simp: spends_def consumeSize_def)

lemma spends_or_then: "spends n r p \<Longrightarrow> (\<And>r1. spends m r1 (g r1)) \<Longrightarrow> spends (n + m) r (or_then p g)"
  by (auto simp: spends_def or_then_def)

lemma spends_nothing: "spends 0 r (False, r)"
  by (simp add: spends_def)

lemma spends_loop:
  assumes "\<And>x r. x \<in> set xs \<Longrightarrow> spends (n x) r (item x r)"
  shows "spends (sum_list (map n xs) + (if b then length xs - 1 else length xs) + 1) r (consume_loop item b xs r)"
  using assms
proof (induction xs arbitrary: b r)
  case Nil
  then show ?case
    by (simp add: spends_consumeSize)
next
  case (Cons x xs)
  have comma: "spends (if b then 0 else 1) r (if b then (False, r) else consumeSize r 1)"
    by (simp add: spends_consumeSize spends_nothing)
  have rest: "spends (sum_list (map n xs) + length xs + 1) r1 (consume_loop item False xs r1)" for r1
    using Cons.IH [of False r1] Cons.prems by simp
  have "spends ((if b then 0 else 1) + (n x + (sum_list (map n xs) + length xs + 1))) r
      (consume_loop item b (x # xs) r)"
    unfolding consume_loop.simps using Cons.prems by (intro spends_or_then comma rest) simp
  then show ?case
    by (cases b) (simp_all add: algebra_simps)
qed

lemma spends_items:
  assumes "\<And>x r. x \<in> set xs \<Longrightarrow> spends (n x) r (item x r)"
  shows "spends (items_size (map n xs)) r (consume_items item xs r)"
proof -
  have "spends (1 + (sum_list (map n xs) + (length xs - 1) + 1)) r (consume_items item xs r)"
    unfolding consume_items_def using spends_loop [of xs n item True] assms
    by (intro spends_or_then spends_consumeSize) simp_all
  then show ?thesis
    by (simp add: items_size_def)
qed

lemma spends_key: "spends (key_size k) r (consumeJSONMapKey k r)"
  by (induction k rule: key_size.induct) (auto intro!: spends_consumeSize)

lemma spends_json: "spends (json_size v) r (consumeJSONSize depth v r)"
proof (induction v arbitrary: depth r rule: json_size.induct)
  case (10 bytes vs)
  then show ?case
    by (cases bytes) (auto intro!: spends_consumeSize spends_items)
next
  case (11 bytes vs)
  then show ?case
    by (cases bytes) (auto intro!: spends_consumeSize spends_items)
next
  case (13 es)
  have "spends (key_size (fst e) + (1 + json_size (snd e))) r1
      (or_then (consumeJSONMapKey (fst e) r1)
        (\<lambda>r2. or_then (consumeSize r2 1) (\<lambda>r3. consumeJSONSize (depth + 1) (snd e) r3)))" if "e \<in> set es" for e r1
    using 13 [OF that] by (intro spends_or_then spends_key spends_consumeSize) simp_all
  then show ?case
    by (simp add: spends_items)
next
  case (14 fs)
  have "spends (jsonStringLen (f_name f) + (1 + json_size (f_value f))) r1
      (or_then (consumeSize r1 (int (jsonStringLen (f_name f))))
        (\<lambda>r2. or_then (consumeSize r2 1) (\<lambda>r3. consumeJSONSize (depth + 1) (f_value f) r3)))"
    if "f \<in> set (filter f_exported fs)" for f r1
    using 14 [OF that] by (intro spends_or_then spends_consumeSize) simp_all
  then show ?case
    by (auto intro!: spends_items)
qed (auto intro!: spends_consumeSize spends_nothing)

section \<open>The estimate and the encoder\<close>

text \<open>
  Values without struct tags whose strings, floating point numbers and byte arrays satisfy the given
  conditions. The keys of maps are strings or integers, as the encoder requires.
\<close>

fun value_ok :: "(string \<Rightarrow> bool) \<Rightarrow> (string \<Rightarrow> string \<Rightarrow> bool) \<Rightarrow> (nat list \<Rightarrow> bool) \<Rightarrow> rvalue \<Rightarrow> bool" where
  "value_ok P Q B (Elem (Some v)) = value_ok P Q B v"
| "value_ok P Q B (StringV s) = P s"
| "value_ok P Q B (FloatV g j) = (case j of None \<Rightarrow> False | Some t \<Rightarrow> Q g t)"
| "value_ok P Q B (SliceV bytes (Some vs)) = (bytes \<or> (\<forall>v \<in> set vs. value_ok P Q B v))"
| "value_ok P Q B (ArrayV bytes vs) =
     (if bytes then vs = map (UintV \<circ> byte_of) vs \<and> B (map byte_of vs) else \<forall>v \<in> set vs. value_ok P Q B v)"
| "value_ok P Q B (MapV (Some es)) =
     (\<forall>e \<in> set es. (case fst e of StringV s \<Rightarrow> P s | IntV n \<Rightarrow> True | UintV n \<Rightarrow> True | _ \<Rightarrow> False) \<and>
        value_ok P Q B (snd e))"
| "value_ok P Q B (StructV fs) =
     (\<forall>f \<in> set fs. f_key f = (if f_exported f then Some (f_name f) else None) \<and> P (f_name f) \<and>
        value_ok P Q B (f_value f))"
| "value_ok P Q B OtherV = False"
| "value_ok P Q B _ = True"

locale size_estimate =
  fixes rel :: "nat \<Rightarrow> nat \<Rightarrow> bool"
    and P :: "string \<Rightarrow> bool" and Q :: "string \<Rightarrow> string \<Rightarrow> bool" and B :: "nat list \<Rightarrow> bool"
  assumes rel_refl: "rel n n"
    and rel_add: "rel a b \<Longrightarrow> rel c d \<Longrightarrow> rel (a + c) (b + d)"
    and rel_string: "P s \<Longrightarrow> rel (length (quote s)) (jsonStringLen s)"
    and rel_float: "Q g t \<Longrightarrow> rel (length t) (length g)"
    and rel_bytes: "B bs \<Longrightarrow> rel (items_size (map (length \<circ> fmt_nat) bs)) (EncodedLen (length bs) + 2)"
begin

lemma rel_items: "list_all2 rel ms ns \<Longrightarrow> rel (items_size ms) (items_size ns)"
proof -
  assume *: "list_all2 rel ms ns"
  then have "rel (sum_list ms) (sum_list ns)"
    by (induction rule: list_all2_induct) (auto intro: rel_refl rel_add)
  from rel_add [OF rel_add [OF rel_refl [of 2] this] rel_refl [of "length ns - 1"]] show ?thesis
    using list_all2_lengthD [OF *] by (simp add: items_size_def)
qed

lemma marshal_elems:
  assumes "\<And>x. x \<in> set xs \<Longrightarrow> \<exists>t. f x = Some t \<and> rel (length t) (n x)"
  shows "\<exists>t. map_option json_array (sequence (map f xs)) = Some t \<and> rel (length t) (items_size (map n xs))"
proof -
  obtain g where g: "\<And>x. x \<in> set xs \<Longrightarrow> f x = Some (g x) \<and> rel (length (g x)) (n x)"
    using assms by metis
  then have "map f xs = map Some (map g xs)"
    by simp
  then have "sequence (map f xs) = Some (map g xs)"
    by (metis sequence_map_Some)
  moreover have "list_all2 rel (map length (map g xs)) (map n xs)"
    using g by (simp add: list_all2_conv_all_nth)
  ultimately show ?thesis
    using rel_items by (simp add: length_json_array)
qed

lemma marshal_members:
  assumes "\<And>x. x \<in> set xs \<Longrightarrow> \<exists>t. f x = Some t \<and> rel (length t) (n x)"
    and "\<And>x. x \<in> set xs \<Longrightarrow> rel (length (quote (k x))) (m x)"
  shows "\<exists>ms. sequence_snd (map (\<lambda>x. (k x, f x)) xs) = Some ms \<and>
    rel (length (json_object ms)) (items_size (map (\<lambda>x. m x + 1 + n x) xs))"
proof -
  obtain g where g: "\<And>x. x \<in> set xs \<Longrightarrow> f x = Some (g x) \<and> rel (length (g x)) (n x)"
    using assms(1) by metis
  then have "map (\<lambda>(k, v). map_option (Pair k) v) (map (\<lambda>x. (k x, f x)) xs) = map Some (map (\<lambda>x. (k x, g x)) xs)"
    by simp
  then have "sequence_snd (map (\<lambda>x. (k x, f x)) xs) = Some (map (\<lambda>x. (k x, g x)) xs)"
    unfolding sequence_snd_def using sequence_map_Some by metis
  moreover have "list_all2 rel (map (\<lambda>x. length (quote (k x)) + 1 + length (g x)) xs) (map (\<lambda>x. m x + 1 + n x) xs)"
    using g assms(2) by (simp add: list_all2_conv_all_nth rel_add rel_refl del: add_Suc_right One_nat_def)
  ultimately show ?thesis
    using rel_items by (simp add: length_json_object comp_def)
qed

lemma marshal_key:
  assumes "case k of StringV s \<Rightarrow> P s | IntV n \<Rightarrow> True | UintV n \<Rightarrow> True | _ \<Rightarrow> False"
  shows "\<exists>t. key_text k = Some t \<and> rel (length (quote t)) (key_size k)"
  using assms rel_string rel_refl by (cases k) auto

lemma marshal_map:
  assumes "\<And>e. e \<in> set es \<Longrightarrow> \<exists>t. marshal_value (snd e) = Some t \<and> rel (length t) (json_size (snd e))"
    and "\<And>e. e \<in> set es \<Longrightarrow> \<exists>t. key_text (fst e) = Some t \<and> rel (length (quote t)) (key_size (fst e))"
  shows "\<exists>t. marshal_value (MapV (Some es)) = Some t \<and> rel (length t) (json_size (MapV (Some es)))"
proof -
  obtain k where k: "\<And>e. e \<in> set es \<Longrightarrow> key_text (fst e) = Some (k e) \<and> rel (length (quote (k e))) (key_size (fst e))"
    using assms(2) by metis
  then have "map (\<lambda>e. key_text (fst e)) es = map Some (map k es)"
    by simp
  then have ks: "sequence (map (\<lambda>e. key_text (fst e)) es) = Some (map k es)"
    by (metis sequence_map_Some)
  have zip: "zip (map k es) (map (\<lambda>e. marshal_value (snd e)) es) = map (\<lambda>e. (k e, marshal_value (snd e))) es"
    by (simp add: zip_map_map zip_same_conv_map)
  show ?thesis
    using marshal_members [of es "\<lambda>e. marshal_value (snd e)" "\<lambda>e. json_size (snd e)" k "\<lambda>e. key_size (fst e)"]
      assms(1) k ks zip by (auto simp: json_map_def length_json_object_sort)
qed

lemma marshal_struct:
  assumes "\<And>f. f \<in> set fs \<Longrightarrow> \<exists>t. marshal_value (f_value f) = Some t \<and> rel (length t) (json_size (f_value f))"
    and "\<And>f. f \<in> set fs \<Longrightarrow> f_key f = (if f_exported f then Some (f_name f) else None) \<and> P (f_name f)"
  shows "\<exists>t. marshal_value (StructV fs) = Some t \<and> rel (length t) (json_size (StructV fs))"
proof -
  have filt: "filter (\<lambda>f. f_key f \<noteq> None) fs = filter f_exported fs"
    using assms(2) by (intro filter_cong) simp_all
  have "marshal_value (StructV fs) =
      json_struct (map (\<lambda>f. (f_name f, marshal_value (f_value f))) (filter f_exported fs))"
    unfolding marshal_value.simps filt using assms(2)
    by (intro arg_cong [where f = json_struct] map_cong) auto
  then show ?thesis
    using marshal_members [of "filter f_exported fs" "\<lambda>f. marshal_value (f_value f)"
        "\<lambda>f. json_size (f_value f)" f_name "\<lambda>f. jsonStringLen (f_name f)"] assms rel_string
    by (auto simp: json_struct_def simp del: marshal_value.simps)
qed

lemma marshal_bytes:
  assumes "vs = map (UintV \<circ> byte_of) vs" "B (map byte_of vs)"
  shows "\<exists>t. marshal_value (ArrayV True vs) = Some t \<and> rel (length t) (json_size (ArrayV True vs))"
proof -
  have "map marshal_value vs = map Some (map (fmt_nat \<circ> byte_of) vs)"
    by (subst assms(1)) simp
  then have "sequence (map marshal_value vs) = Some (map (fmt_nat \<circ> byte_of) vs)"
    by (metis sequence_map_Some)
  then show ?thesis
    using rel_bytes [OF assms(2)] by (simp add: length_json_array comp_def)
qed

lemma marshal_sized:
  "value_ok P Q B v \<Longrightarrow> \<exists>t. marshal_value v = Some t \<and> rel (length t) (json_size v)"
proof (induction v)
  case (Elem w)
  then show ?case
    by (cases w) (simp_all add: rel_refl numeral_eq_Suc)
next
  case (FloatV g j)
  then show ?case
    using rel_float by (auto split: option.splits)
next
  case (SliceV bytes vs)
  then show ?case
    using marshal_elems [of "the vs" marshal_value json_size] by (cases vs; cases bytes) (simp_all add: rel_refl numeral_eq_Suc)
next
  case (ArrayV bytes vs)
  then show ?case
    using marshal_elems [of vs marshal_value json_size] marshal_bytes [of vs] by (cases bytes) simp_all
next
  case (MapV es)
  show ?case
  proof (cases es)
    case (Some xs)
    then show ?thesis
      using MapV marshal_key by (auto intro!: marshal_map simp del: marshal_value.simps json_size.simps)
  qed (simp add: rel_refl numeral_eq_Suc)
next
  case (StructV fs)
  then show ?case
    by (intro marshal_struct) (auto intro: rfield.set_sel)
qed (auto intro: rel_string rel_refl simp: numeral_eq_Suc)

end


section \<open>Where the estimate is exact\<close>

text \<open>
  The estimate counts six bytes for every control character, where the encoder has two-byte escapes
  for some, and one byte for every other one, where the encoder escapes the HTML characters, the two
  line separators and ill-formed UTF-8.
\<close>

definition plain_string :: "string \<Rightarrow> bool" where
  "plain_string s \<longleftrightarrow>
     ValidString s \<and> (\<forall>i. \<not> is_2028 (drop i s)) \<and>
     (\<forall>c \<in> set s. code c \<notin> {8, 9, 10, 12, 13} \<and> c \<notin> {CHR ''<'', CHR ''>'', CHR ''&''})"

definition char_len :: "char \<Rightarrow> nat" where
  "char_len c = (if c = CHR 0x5C \<or> c = CHR 0x22 then 2 else if code c < 32 then 6 else 1)"

lemma jsonStringLen_eq: "jsonStringLen s = 2 + sum_list (map char_len s)"
  by (simp add: jsonStringLen_def char_len_def [abs_def])

lemma length_quote_ascii:
  "code c \<notin> {8, 9, 10, 12, 13} \<Longrightarrow> c \<notin> {CHR ''<'', CHR ''>'', CHR ''&''} \<Longrightarrow> length (quote_ascii c) = char_len c"
  by (auto simp: quote_ascii_def char_len_def u00_def)

lemma plain_string_drop: "plain_string s \<Longrightarrow> ValidString (drop n s) \<Longrightarrow> plain_string (drop n s)"
  by (auto simp: plain_string_def dest: in_set_dropD)

lemma char_len_high: "128 \<le> code c \<Longrightarrow> char_len c = 1"
  by (auto simp: char_len_def)

lemma sum_char_len_high: "(\<And>c. c \<in> set s \<Longrightarrow> 128 \<le> code c) \<Longrightarrow> sum_list (map char_len s) = length s"
  by (induction s) (auto simp: char_len_high)

lemma length_quote_body_plain: "plain_string s \<Longrightarrow> length (quote_body s) = sum_list (map char_len s)"
proof (induction s rule: quote_cases)
  case (Ascii c cs)
  then have "plain_string cs"
    using plain_string_drop [of "c # cs" 1] by (simp add: plain_string_def ValidString.simps(2) utf8_len_ascii)
  moreover have "length (quote_ascii c) = char_len c"
    using Ascii.prems by (intro length_quote_ascii) (simp_all add: plain_string_def)
  ultimately show ?case
    using Ascii by (simp add: quote_body_ascii)
next
  case (Bad c cs)
  then show ?case
    by (simp add: plain_string_def ValidString.simps(2))
next
  case (LineSep a b c r)
  then show ?case
    unfolding plain_string_def by (metis drop0)
next
  case (Multi c cs n)
  then have "ValidString (drop n (c # cs))"
    by (cases n) (auto simp: plain_string_def ValidString.simps(2))
  then have "plain_string (drop n (c # cs))"
    using plain_string_drop Multi.prems by blast
  moreover have "sum_list (map char_len (take n (c # cs))) = length (take n (c # cs))"
    using Multi utf8_len_high by (intro sum_char_len_high) blast
  moreover have "sum_list (map char_len (c # cs)) =
      sum_list (map char_len (take n (c # cs))) + sum_list (map char_len (drop n (c # cs)))"
    by (metis append_take_drop_id map_append sum_list_append)
  ultimately show ?case
    using Multi by (cases n) (simp_all add: quote_body_multi)
qed simp

lemma length_quote_plain: "plain_string s \<Longrightarrow> length (quote s) = jsonStringLen s"
  by (simp add: quote_def jsonStringLen_eq length_quote_body_plain)

interpretation exact: size_estimate "(=)" plain_string "\<lambda>g t. length t = length g" "\<lambda>bs. False"
  by unfold_locales (simp_all add: length_quote_plain)

definition plain :: "rvalue \<Rightarrow> bool" where
  "plain v \<longleftrightarrow> value_ok plain_string (\<lambda>g t. length t = length g) (\<lambda>bs. False) v"

section \<open>How far it can be off\<close>

lemma length_quote_body_le: "length (quote_body s) \<le> 6 * length s"
proof (induction s rule: quote_cases)
  case (Ascii c cs)
  then show ?case
    by (auto simp: quote_body_ascii quote_ascii_def u00_def)
next
  case (Multi c cs n)
  then show ?case
    using utf8_len_le [of "c # cs"] by (cases n) (auto simp: quote_body_multi)
qed (auto simp: quote_body_bad quote_body_2028 u_fffd_def u202_def)

lemma length_quote_le: "length (quote s) \<le> 6 * jsonStringLen s"
proof -
  have "length s \<le> sum_list (map char_len s)"
    by (induction s) (auto simp: char_len_def)
  then show ?thesis
    using length_quote_body_le [of s] by (simp add: quote_def jsonStringLen_eq)
qed

lemma length_fmt_byte: "n < 256 \<Longrightarrow> length (fmt_nat n) \<le> 3"
  by (auto simp: fmt_nat.simps [of n] fmt_nat.simps [of "n div 10"] fmt_nat.simps [of "n div 10 div 10"])

lemma byte_array_le:
  assumes "\<forall>b \<in> set bs. b < 256"
  shows "items_size (map (length \<circ> fmt_nat) bs) \<le> 6 * (EncodedLen (length bs) + 2)"
proof -
  have "sum_list (map (length \<circ> fmt_nat) bs) \<le> 3 * length bs"
    using assms by (induction bs) (auto dest: length_fmt_byte)
  moreover have "length bs \<le> EncodedLen (length bs)"
    unfolding EncodedLen_def by presburger
  ultimately show ?thesis
    by (simp add: items_size_def)
qed

interpretation loose: size_estimate "\<lambda>j e. j \<le> 6 * e" "\<lambda>s. True" "\<lambda>g t. length t \<le> 6 * length g"
  "\<lambda>bs. \<forall>b \<in> set bs. b < 256"
  by unfold_locales (use length_quote_le byte_array_le in auto)

definition untagged :: "rvalue \<Rightarrow> bool" where
  "untagged v \<longleftrightarrow> value_ok (\<lambda>s. True) (\<lambda>g t. length t \<le> 6 * length g) (\<lambda>bs. \<forall>b \<in> set bs. b < 256) v"

lemma bodyExceedsLimit_iff:
  assumes "0 \<le> limit"
  shows "bodyExceedsLimit v declared limit \<longleftrightarrow>
    limit < (if 0 < declared then declared else int (json_size v))"
  using spends_json [of v limit 0] assms
  by (auto simp: bodyExceedsLimit_def estimatedJSONSizeExceeds_def spends_def)

end
