(* ===== verification/Http_Theorems.thy ===== *)
theory Http_Theorems
  imports Http_Log_Props Client_Theorems
begin

text \<open>
  The properties of the HTTP logs: the early-returning size estimate computes a size, that size is
  the encoder's for plain values and at most six times too small in general, and the senders drop
  exactly the bodies that are too large.
\<close>

text \<open>
  C24: the estimate that stops as soon as the limit is used up gives the same answer as adding up the
  whole size: a body is reported too large if and only if its declared size, or else the size of all
  its parts, exceeds the limit; nesting depth plays no role.
\<close>

theorem body_estimate_total:
  assumes "0 \<le> limit"
  shows "bodyExceedsLimit v declared limit \<longleftrightarrow>
    limit < (if 0 < declared then declared else int (json_size v))"
  using assms by (rule bodyExceedsLimit_iff)

theorem body_estimate_total_witness:
  "bodyExceedsLimit (SliceV False (Some [BoolV True, Invalid])) 0 10 \<longleftrightarrow> (10::int) < 11"
  using body_estimate_total [of 10 "SliceV False (Some [BoolV True, Invalid])" 0]
  by (simp add: items_size_def)

section \<open>An example body\<close>

definition ex_body :: rvalue where
  "ex_body = MapV (Some [(StringV ''a'', Elem (Some (IntV 12)))])"

definition ex_body_json :: string where
  "ex_body_json = [CHR ''{'', CHR 0x22, CHR ''a'', CHR 0x22, CHR '':'', CHR ''1'', CHR ''2'', CHR ''}'']"

lemma plain_string_ascii:
  assumes "\<forall>c \<in> set s. 32 \<le> code c \<and> code c < 128 \<and> c \<notin> {CHR ''<'', CHR ''>'', CHR ''&''}"
  shows "plain_string s"
proof -
  have "\<not> is_2028 (drop i s)" for i
  proof
    assume "is_2028 (drop i s)"
    then obtain a r where "drop i s = a # r" "code a = 226"
      by (auto simp: is_2028_def split: list.splits)
    then have "a \<in> set s" "code a = 226"
      by (metis in_set_dropD list.set_intros(1), simp)
    then show False
      using assms by fastforce
  qed
  moreover have "code c \<notin> {8, 9, 10, 12, 13} \<and> c \<notin> {CHR ''<'', CHR ''>'', CHR ''&''}" if "c \<in> set s" for c
  proof -
    have small: "n \<notin> {8, 9, 10, 12, 13}" if "32 \<le> n" for n :: nat
      using that by auto
    have "32 \<le> code c" "c \<notin> {CHR ''<'', CHR ''>'', CHR ''&''}"
      using assms that by blast+
    then show ?thesis
      using small by blast
  qed
  moreover have "ValidString s"
    using assms by (simp add: ValidString_ascii)
  ultimately show ?thesis
    unfolding plain_string_def by blast
qed

lemma ex_body_plain: "plain ex_body"
  by (simp add: plain_def ex_body_def plain_string_ascii)

lemma ex_body_marshal: "marshal_value ex_body = Some ex_body_json"
  by (simp add: ex_body_def ex_body_json_def json_map_def sequence_snd_def json_object_def quote_def quote_body_ascii
      quote_ascii_def FormatInt_def fmt_nat.simps [of 12] fmt_nat.simps [of "Suc 0"] digit_char_def byte_eq_iff)





text \<open>
  The bound is nearly reached: a string of \<open>n\<close> characters \<open><\<close> is kept under a limit of \<open>n + 2\<close> bytes
  although its JSON text has \<open>6 * n + 2\<close>.
\<close>

lemma body_underestimated:
  "\<not> bodyExceedsLimit (StringV (replicate n (CHR ''<''))) 0 (int n + 2) \<and>
   (\<exists>t. marshal_value (StringV (replicate n (CHR ''<''))) = Some t \<and> length t = 6 * n + 2)"
proof -
  have "jsonStringLen (replicate n (CHR ''<'')) = n + 2"
    by (simp add: jsonStringLen_def sum_list_replicate)
  moreover have "length (quote_body (replicate n (CHR ''<''))) = 6 * n"
    by (induction n) (simp_all add: quote_body_ascii quote_ascii_def u00_def)
  ultimately show ?thesis
    by (simp add: bodyExceedsLimit_iff quote_def)
qed

section \<open>Senders\<close>

text \<open>A body with a plain value and no \<open>MarshalJSON\<close> of its own, its size, and what is kept of it.\<close>

definition plain_body :: "any_value option \<Rightarrow> bool" where
  "plain_body b \<longleftrightarrow> (case b of None \<Rightarrow> True | Some v \<Rightarrow> plain (av_refl v) \<and> av_json v = marshal_value (av_refl v))"

definition body_size :: "any_value \<Rightarrow> int \<Rightarrow> int" where
  "body_size v declared = (if 0 < declared then declared else int (length (the (av_json v))))"

definition keep_body :: "int \<Rightarrow> any_value option \<Rightarrow> int \<Rightarrow> any_value option" where
  "keep_body limit b declared =
     (case b of None \<Rightarrow> None | Some v \<Rightarrow> if body_size v declared \<le> limit then Some v else None)"

lemma drop_large_plain:
  assumes "plain_body b" "0 \<le> limit"
  shows "drop_large b declared limit = keep_body limit b declared"
proof (cases b)
  case (Some v)
  then obtain t where "marshal_value (av_refl v) = Some t" "length t = json_size (av_refl v)"
    using assms(1) exact.marshal_sized [of "av_refl v"] by (auto simp: plain_body_def plain_def)
  then show ?thesis
    using Some assms by (auto simp: drop_large_def keep_body_def body_size_def bodyExceedsLimit_iff plain_body_def)
qed (simp add: drop_large_def keep_body_def)

lemma httpBodySizeLimit_ok:
  assumes "\<forall>n. cached = Some n \<longrightarrow> 0 \<le> n"
  shows "\<exists>limit \<ge> 0. \<forall>env1. httpBodySizeLimit env cached = (limit, Some limit) \<and>
    httpBodySizeLimit env1 (Some limit) = (limit, Some limit)"
  using assms by (cases cached) (auto simp: httpBodySizeLimit_def Let_def split: prod.splits option.splits)


definition ex_inbound :: InboundHTTPLog where
  "ex_inbound = \<lparr>ih_AppID = 0, ih_Country = [], ih_BID = [], ih_Method = ''GET'', ih_URL = ''/'', ih_DurationMs = 3,
     ih_ClientIP = [], ih_RequestHeaders = [], ih_RequestBody = None, ih_RequestBodyType = [],
     ih_RequestBodySize = 0, ih_ResponseStatus = 200, ih_ResponseHeaders = [],
     ih_ResponseBody = Some \<lparr>av_refl = ex_body, av_json = Some ex_body_json\<rparr>, ih_ResponseBodyType = [],
     ih_ResponseBodySize = 0, ih_Extra = []\<rparr>"

definition ex_outbound :: OutboundHTTPLog where
  "ex_outbound = \<lparr>oh_AppID = 0, oh_Country = [], oh_BID = [], oh_Provider = ''p'', oh_Method = ''GET'', oh_URL = ''/'',
     oh_DurationMs = 3, oh_RequestHeaders = [], oh_RequestBody = None, oh_RequestBodyType = [],
     oh_RequestBodySize = 0, oh_ResponseStatus = 200, oh_ResponseHeaders = [],
     oh_ResponseBody = Some \<lparr>av_refl = ex_body, av_json = Some ex_body_json\<rparr>, oh_ResponseBodyType = [],
     oh_ResponseBodySize = 9, oh_Extra = []\<rparr>"


end
