(* ===== verification/Http_Api.thy ===== *)
theory Http_Api
  imports Manager_Props Config State_Machine
begin

text \<open>
  The HTTP endpoint of \<open>cmd/http-api/main.go\<close>, which writes the body of a request to a Kafka topic
  without envelope or fallback, and the process around it. A request is given by its path, in the
  canonical form in which the mux looks it up, its method, its query parameters, the bytes of its body and
  whether reading them ends in an error; log output and the connections below are not modelled.
\<close>

section \<open>Requests and responses\<close>

record http_request =
  hr_Path :: string
  hr_Method :: string
  hr_Query :: "(string \<times> string list) list"
  hr_Body :: string
  hr_BodyErr :: bool

text \<open>Status and text; a response without text is \<open>WriteHeader\<close> alone.\<close>

type_synonym http_response = "nat \<times> string"

text \<open>\<open>url.Values.Get\<close>: the first value, the empty string without one.\<close>

definition query_Get :: "(string \<times> string list) list \<Rightarrow> string \<Rightarrow> string" where
  "query_Get q k = (case map_of q k of Some (v # vs) \<Rightarrow> v | _ \<Rightarrow> [])"

text \<open>
  \<open>io.ReadAll\<close> over a \<open>http.MaxBytesReader\<close>: a body longer than the limit is an error, and a negative
  limit counts as zero.
\<close>

definition read_body :: "int \<Rightarrow> http_request \<Rightarrow> error + string" where
  "read_body limit r =
     (if max 0 limit < int (length (hr_Body r)) then Inl (ErrMsg ''http: request body too large'')
      else if hr_BodyErr r then Inl (ErrSyscall ''read'')
      else Inr (hr_Body r))"

section \<open>The handler\<close>

text \<open>The writer is an argument of the handler; the text after the colon of a read error is left out.\<close>

type_synonym 's topicWriter = "KafkaConfig \<Rightarrow> string \<Rightarrow> string \<Rightarrow> 's \<Rightarrow> error option \<times> 's"

definition httpAPIHandler :: "Config \<Rightarrow> 's topicWriter \<Rightarrow> http_request \<Rightarrow> 's \<Rightarrow> http_response \<times> 's" where
  "httpAPIHandler cf wr r s =
     (if hr_Method r \<noteq> ''POST'' then ((405, ''method not allowed''), s)
      else
        (let topic = query_Get (hr_Query r) ''topic'' in
         if topic = [] then ((400, ''missing topic''), s)
         else
           (case read_body (sc_MaxMessageSize (cf_Server cf)) r of
              Inl e \<Rightarrow> ((400, ''read body''), s)
            | Inr body \<Rightarrow>
                (case wr (cf_Kafka cf) topic body s of
                   (Some e, s1) \<Rightarrow> ((500, ''kafka write failed''), s1)
                 | (None, s1) \<Rightarrow> ((204, []), s1)))))"

definition writeRawKafka :: "world topicWriter" where
  "writeRawKafka kc topic payload w =
     WriteMessages \<lparr>Addr = kc_Brokers kc, KTopic = topic, BatchSize = kc_BatchSize kc,
       BatchTimeout = kc_BatchTimeout kc, WriteTimeout = kc_WriteTimeout kc\<rparr>
       \<lparr>Key = None, Value = Some payload\<rparr> w"

definition defaultHTTPAddr :: string where
  "defaultHTTPAddr = '':9591''"

text \<open>The address \<open>main\<close> listens on, given the value of the flag.\<close>

definition http_api_addr :: "string \<Rightarrow> string" where
  "http_api_addr flag = (if flag = [] then defaultHTTPAddr else flag)"

text \<open>The mux of \<open>main\<close>: its one pattern has no trailing slash and matches this path only.\<close>

definition http_api_mux :: "Config \<Rightarrow> http_request \<Rightarrow> world \<Rightarrow> http_response \<times> world" where
  "http_api_mux cf r w =
     (if hr_Path r = ''/http-api'' then httpAPIHandler cf writeRawKafka r w else ((404, ''404 page not found''), w))"

section \<open>The process\<close>

text \<open>
  Serving; in \<open>srv.Shutdown\<close> after the signal; returned from it, with its context expired or not; ended with
  status 1 by an error of \<open>ListenAndServe\<close>.
\<close>

datatype api_phase = ApiServing | ApiStopping | ApiDone bool | ApiFailed

text \<open>\<open>inflight\<close> are the requests whose handler has not returned, \<open>arrived\<close> records all of them.\<close>

record Api =
  api_cf :: Config
  api_addr :: string
  api_at :: api_phase
  arrived :: "http_request list"
  inflight :: "http_request list"
  answered :: "(http_request \<times> http_response) list"
  api_world :: world

definition http_api_start :: "string \<Rightarrow> Config \<Rightarrow> world \<Rightarrow> Api" where
  "http_api_start flag cf w =
     \<lparr>api_cf = cf, api_addr = http_api_addr flag, api_at = ApiServing, arrived = [], inflight = [], answered = [], api_world = w\<rparr>"

datatype api_action =
    Arrive http_request
  | Answer nat                \<comment> \<open>the handler of a request runs; its one shared effect is the Kafka write\<close>
  | ListenFails
  | ApiSignal                 \<comment> \<open>\<open>srv.Shutdown\<close>: no new requests\<close>
  | ApiShutdown bool          \<comment> \<open>it returns, when nothing is in flight or its context has expired\<close>

fun api_exec :: "api_action \<Rightarrow> Api \<Rightarrow> Api option" where
  "api_exec (Arrive r) A =
     (if api_at A = ApiServing then Some (A\<lparr>arrived := arrived A @ [r], inflight := inflight A @ [r]\<rparr>) else None)"
| "api_exec (Answer i) A =
     (if i < length (inflight A) \<and> api_at A \<in> {ApiServing, ApiStopping} then
        (case http_api_mux (api_cf A) (inflight A ! i) (api_world A) of (resp, w) \<Rightarrow>
           Some (A\<lparr>inflight := take i (inflight A) @ drop (Suc i) (inflight A),
                   answered := answered A @ [(inflight A ! i, resp)], api_world := w\<rparr>))
      else None)"
| "api_exec ListenFails A = (if api_at A = ApiServing then Some (A\<lparr>api_at := ApiFailed\<rparr>) else None)"
| "api_exec ApiSignal A = (if api_at A = ApiServing then Some (A\<lparr>api_at := ApiStopping\<rparr>) else None)"
| "api_exec (ApiShutdown expired) A =
     (if api_at A = ApiStopping \<and> (expired \<or> inflight A = []) then Some (A\<lparr>api_at := ApiDone expired\<rparr>) else None)"

section \<open>What an answer means\<close>

text \<open>The checks a request has to pass before Kafka is involved.\<close>

definition acceptable :: "Config \<Rightarrow> http_request \<Rightarrow> bool" where
  "acceptable cf r \<longleftrightarrow>
     hr_Path r = ''/http-api'' \<and> hr_Method r = ''POST'' \<and> query_Get (hr_Query r) ''topic'' \<noteq> [] \<and> \<not> hr_BodyErr r \<and>
     int (length (hr_Body r)) \<le> max 0 (sc_MaxMessageSize (cf_Server cf))"

text \<open>The message of a request.\<close>

definition posted :: "http_request \<Rightarrow> string \<times> kmessage" where
  "posted r = (query_Get (hr_Query r) ''topic'', \<lparr>Key = None, Value = Some (hr_Body r)\<rparr>)"

lemma mux_answers:
  assumes "http_api_mux cf r w = ((status, txt), w')"
  shows "status \<in> {204, 400, 404, 405, 500}" "status \<in> {204, 500} \<longleftrightarrow> acceptable cf r"
    "delivered w' = delivered w @ (if status = 204 then [posted r] else [])"
    "length (kafka_calls w') = length (kafka_calls w) + (if acceptable cf r then 1 else 0)"
  using assms
  by (auto simp: http_api_mux_def httpAPIHandler_def read_body_def Let_def writeRawKafka_def WriteMessages_def delivered_def
      acceptable_def posted_def max_def split: if_splits)

definition answer_ok :: "Config \<Rightarrow> http_request \<times> http_response \<Rightarrow> bool" where
  "answer_ok cf p \<longleftrightarrow>
     fst (snd p) \<in> {204, 400, 404, 405, 500} \<and> (fst (snd p) \<in> {204, 500} \<longleftrightarrow> acceptable cf (fst p))"

definition sent_of :: "(http_request \<times> http_response) list \<Rightarrow> (string \<times> kmessage) list" where
  "sent_of as = map (\<lambda>(r, resp). posted r) (filter (\<lambda>(r, resp). fst resp = 204) as)"

definition api_inv :: "Config \<Rightarrow> world \<Rightarrow> Api \<Rightarrow> bool" where
  "api_inv cf w0 A \<longleftrightarrow>
     api_cf A = cf \<and> mset (arrived A) = mset (inflight A) + mset (map fst (answered A)) \<and>
     (\<forall>p \<in> set (answered A). answer_ok cf p) \<and>
     delivered (api_world A) = delivered w0 @ sent_of (answered A) \<and>
     length (kafka_calls (api_world A)) = length (kafka_calls w0) + length (filter (\<lambda>(r, resp). acceptable cf r) (answered A)) \<and>
     (api_at A = ApiDone False \<longrightarrow> inflight A = [])"

lemma mset_remove_nth: "i < length xs \<Longrightarrow> mset xs = add_mset (xs ! i) (mset (take i xs @ drop (Suc i) xs))"
  using arg_cong [OF id_take_nth_drop, of i xs mset] by simp

lemma api_inv_exec:
  assumes "api_inv cf w0 A" "api_exec a A = Some A'"
  shows "api_inv cf w0 A'"
proof (cases a)
  case (Answer i)
  obtain status msg w where st: "http_api_mux cf (inflight A ! i) (api_world A) = ((status, msg), w)"
    by (metis surj_pair)
  then have A': "i < length (inflight A)" "api_at A \<in> {ApiServing, ApiStopping}"
    "A' = A\<lparr>inflight := take i (inflight A) @ drop (Suc i) (inflight A),
       answered := answered A @ [(inflight A ! i, status, msg)], api_world := w\<rparr>"
    using assms Answer by (auto simp: api_inv_def split: if_splits)
  have "answer_ok cf (inflight A ! i, status, msg)"
    using mux_answers(1,2) [OF st] by (simp add: answer_ok_def)
  then show ?thesis
    using assms(1) mux_answers(3,4) [OF st] A'(2) mset_remove_nth [OF A'(1)]
    by (auto simp: api_inv_def A'(3) sent_of_def)
qed (use assms in \<open>auto simp: api_inv_def split: if_splits\<close>)

interpretation api: invariant_machine api_exec "api_inv cf w0" for cf w0
  by unfold_locales (rule api_inv_exec)


definition ex_request :: http_request where
  "ex_request = \<lparr>hr_Path = ''/http-api'', hr_Method = ''POST'', hr_Query = [(''topic'', [''t''])], hr_Body = ''x'', hr_BodyErr = False\<rparr>"

definition ex_http_config :: Config where
  "ex_http_config = Load (\<lambda>_ _ _. 0) (\<lambda>_. None)"

definition ex_http_world :: world where
  "ex_http_world = \<lparr>step = 0, fault = (\<lambda>_. None), clock = int, kafka_err = (\<lambda>_. False), dirents = [],
     inodes = (\<lambda>_. []), next_ino = 0, kafka_calls = [], mets = [], panicked = False\<rparr>"


end
