(* ===== verification/Messages.thy ===== *)
theory Messages
  imports Client Go_Values Go_Text
begin

text \<open>
  The three business messages of the SDK, \<open>pkg/logtrack/app_message.go\<close>, \<open>sys_message.go\<close> and
  \<open>exp_assignment.go\<close>: their records, constructors, validation and senders. A floating point number in
  a record is given by the text \<open>encoding/json\<close> writes for it, \<open>None\<close> for the infinities and NaN.
\<close>

section \<open>Shared checks\<close>

text \<open>The fields come in pairs of name and value; the source panics on an odd number of them.\<close>

fun messageRequired :: "(string \<times> string) list \<Rightarrow> error option" where
  "messageRequired [] = None"
| "messageRequired ((k, v) # fs) =
     (if TrimSpace v = [] then Some (ErrMsg (''logtrack: '' @ k @ '' is required'')) else messageRequired fs)"

definition messageJSONContainer :: "string \<Rightarrow> any_value option \<Rightarrow> error option" where
  "messageJSONContainer k a =
     (case a of
        None \<Rightarrow> None
      | Some v \<Rightarrow>
          (case av_json v of
             None \<Rightarrow> Some ErrJson
           | Some b \<Rightarrow>
               if b = [] \<or> hd b \<noteq> CHR ''{'' \<and> hd b \<noteq> CHR ''[''
               then Some (ErrMsg (''logtrack: '' @ k @ '' must be a JSON object or array'')) else None))"

section \<open>Application messages\<close>

record AppMessage =
  am_EventID :: string
  am_EventName :: string
  am_EventTime :: int
  am_EventTimeApp :: int
  am_Sequence :: int
  am_RequestID :: string
  am_SessionID :: string
  am_IsTest :: int
  am_DeviceUUID :: string
  am_GaidIDFA :: string
  am_UserID :: int
  am_GroupUserID :: int
  am_IDNumber :: string
  am_Mobile :: string
  am_BID :: string
  am_AppID :: int
  am_AppVersion :: string
  am_IP :: string
  am_FI :: "(string \<times> int) list"
  am_FF :: "(string \<times> string option) list"
  am_FS :: "(string \<times> string) list"
  am_PayloadJSON :: "any_value option"

definition marshal_app_message :: "AppMessage \<Rightarrow> string option" where
  "marshal_app_message m = json_struct (
     str_member ''event_id'' (am_EventID m) @ str_member ''event_name'' (am_EventName m) @
     int_member ''event_time'' (am_EventTime m) @ int_omit ''event_time_app'' (am_EventTimeApp m) @
     int_omit ''sequence'' (am_Sequence m) @ str_member ''request_id'' (am_RequestID m) @
     str_omit ''session_id'' (am_SessionID m) @ int_member ''is_test'' (am_IsTest m) @
     str_member ''device_uuid'' (am_DeviceUUID m) @ str_omit ''gaid_idfa'' (am_GaidIDFA m) @
     int_member ''user_id'' (am_UserID m) @ int_member ''group_user_id'' (am_GroupUserID m) @
     str_omit ''id_number'' (am_IDNumber m) @ str_omit ''mobile'' (am_Mobile m) @
     str_member ''bid'' (am_BID m) @ int_member ''app_id'' (am_AppID m) @
     str_omit ''app_version'' (am_AppVersion m) @ str_omit ''ip'' (am_IP m) @
     map_omit ''fi'' (map (map_prod id (Some \<circ> FormatInt)) (am_FI m)) @ map_omit ''ff'' (am_FF m) @
     map_omit ''fs'' (map (map_prod id (Some \<circ> quote)) (am_FS m)) @
     any_omit ''payload_json'' (am_PayloadJSON m))"

definition NewAppMessage :: "string \<Rightarrow> string \<Rightarrow> int \<Rightarrow> AppMessage" where
  "NewAppMessage eventID nm now =
     \<lparr>am_EventID = eventID, am_EventName = nm, am_EventTime = UnixMilli now, am_EventTimeApp = 0,
      am_Sequence = 0, am_RequestID = [], am_SessionID = [], am_IsTest = 0, am_DeviceUUID = [],
      am_GaidIDFA = [], am_UserID = 0, am_GroupUserID = 0, am_IDNumber = [], am_Mobile = [], am_BID = [],
      am_AppID = 0, am_AppVersion = [], am_IP = [], am_FI = [], am_FF = [], am_FS = [],
      am_PayloadJSON = None\<rparr>"

definition AppMessage_Validate :: "AppMessage option \<Rightarrow> error option" where
  "AppMessage_Validate msg =
     (case msg of None \<Rightarrow> Some (ErrMsg ''logtrack: nil AppMessage'') | Some m \<Rightarrow>
      case messageRequired [(''event_id'', am_EventID m), (''event_name'', am_EventName m),
             (''request_id'', am_RequestID m), (''device_uuid'', am_DeviceUUID m), (''bid'', am_BID m)] of
        Some e \<Rightarrow> Some e
      | None \<Rightarrow>
          if am_EventTime m \<le> 0 \<or> am_AppID m \<le> 0
          then Some (ErrMsg ''logtrack: event_time and app_id must be positive'')
          else if am_IsTest m \<noteq> 0 \<and> am_IsTest m \<noteq> 1 then Some (ErrMsg ''logtrack: is_test must be 0 or 1'')
          else messageJSONContainer ''payload_json'' (am_PayloadJSON m))"

definition SendAppMessage :: "bool \<Rightarrow> AppMessage option \<Rightarrow> Option list \<Rightarrow> sdk \<Rightarrow> error option \<times> sdk" where
  "SendAppMessage raced msg opts sdk =
     (case msg of
        None \<Rightarrow> (Some (ErrMsg ''logtrack: nil AppMessage''), sdk)
      | Some m \<Rightarrow>
          (case AppMessage_Validate msg of
             Some e \<Rightarrow> (Some e, sdk)
           | None \<Rightarrow>
               (let opt = applyOpts opts;
                    partitionKey = (if am_Mobile m = [] then am_DeviceUUID m else am_Mobile m)
                in (None, sdk_send raced TopicAppEvent (marshal_app_message m) (o_traceID opt) partitionKey sdk))))"

text \<open>The options a context-aware variant passes on.\<close>

definition trace_from_ctx :: "context_values option \<Rightarrow> Option list \<Rightarrow> Option list" where
  "trace_from_ctx ctx opts =
     (if o_traceID (applyOpts opts) = [] then opts @ [WithTraceID (traceIDFromCtx ctx)] else opts)"

definition SendAppMessageCtx ::
  "bool \<Rightarrow> context_values option \<Rightarrow> AppMessage option \<Rightarrow> Option list \<Rightarrow> sdk \<Rightarrow> error option \<times> sdk" where
  "SendAppMessageCtx raced ctx msg opts sdk = SendAppMessage raced msg (trace_from_ctx ctx opts) sdk"

section \<open>System messages\<close>

definition LevelWarn :: string where "LevelWarn = ''WARN''"
definition LevelError :: string where "LevelError = ''ERROR''"
definition LevelFatal :: string where "LevelFatal = ''FATAL''"

record SysMessage =
  sm_EventID :: string
  sm_EventTime :: int
  sm_SourceSystem :: string
  sm_JobName :: string
  sm_Component :: string
  sm_Env :: string
  sm_Level :: string
  sm_EventCode :: string
  sm_EventType :: string
  sm_Message :: string
  sm_StackTrace :: string
  sm_Fingerprint :: string
  sm_BID :: string
  sm_AppID :: int
  sm_RequestID :: string
  sm_EntityRef :: string
  sm_ContextJSON :: "any_value option"
  sm_Host :: string
  sm_AppVersion :: string

definition marshal_sys_message :: "SysMessage \<Rightarrow> string option" where
  "marshal_sys_message m = json_struct (
     str_member ''event_id'' (sm_EventID m) @ int_member ''event_time'' (sm_EventTime m) @
     str_member ''source_system'' (sm_SourceSystem m) @ str_omit ''job_name'' (sm_JobName m) @
     str_omit ''component'' (sm_Component m) @ str_omit ''env'' (sm_Env m) @ str_member ''level'' (sm_Level m) @
     str_omit ''event_code'' (sm_EventCode m) @ str_omit ''event_type'' (sm_EventType m) @
     str_member ''message'' (sm_Message m) @ str_omit ''stack_trace'' (sm_StackTrace m) @
     str_omit ''fingerprint'' (sm_Fingerprint m) @ str_omit ''bid'' (sm_BID m) @
     int_member ''app_id'' (sm_AppID m) @ str_omit ''request_id'' (sm_RequestID m) @
     str_omit ''entity_ref'' (sm_EntityRef m) @ any_omit ''context_json'' (sm_ContextJSON m) @
     str_omit ''host'' (sm_Host m) @ str_omit ''app_version'' (sm_AppVersion m))"

definition NewSysMessage :: "string \<Rightarrow> string \<Rightarrow> string \<Rightarrow> string \<Rightarrow> int \<Rightarrow> SysMessage" where
  "NewSysMessage eventID level cd msg now =
     \<lparr>sm_EventID = eventID, sm_EventTime = UnixMilli now, sm_SourceSystem = [], sm_JobName = [],
      sm_Component = [], sm_Env = [], sm_Level = level, sm_EventCode = cd, sm_EventType = [], sm_Message = msg,
      sm_StackTrace = [], sm_Fingerprint = [], sm_BID = [], sm_AppID = 0, sm_RequestID = [],
      sm_EntityRef = [], sm_ContextJSON = None, sm_Host = [], sm_AppVersion = []\<rparr>"

text \<open>The level in the error message is quoted by \<open>%q\<close>; the quoting is left out.\<close>

definition SysMessage_Validate :: "SysMessage option \<Rightarrow> error option" where
  "SysMessage_Validate msg =
     (case msg of None \<Rightarrow> Some (ErrMsg ''logtrack: nil SysMessage'') | Some m \<Rightarrow>
      case messageRequired [(''event_id'', sm_EventID m), (''source_system'', sm_SourceSystem m),
             (''message'', sm_Message m)] of
        Some e \<Rightarrow> Some e
      | None \<Rightarrow>
          if sm_EventTime m \<le> 0 then Some (ErrMsg ''logtrack: event_time must be positive'')
          else if sm_Level m \<noteq> LevelWarn \<and> sm_Level m \<noteq> LevelError \<and> sm_Level m \<noteq> LevelFatal
          then Some (ErrMsg (''logtrack: invalid level '' @ sm_Level m))
          else if TrimSpace (sm_EventCode m) = [] \<and> TrimSpace (sm_EventType m) = []
          then Some (ErrMsg ''logtrack: event_code or event_type is required'')
          else messageJSONContainer ''context_json'' (sm_ContextJSON m))"

definition SendSysMessage :: "bool \<Rightarrow> SysMessage option \<Rightarrow> Option list \<Rightarrow> sdk \<Rightarrow> error option \<times> sdk" where
  "SendSysMessage raced msg opts sdk =
     (case msg of
        None \<Rightarrow> (Some (ErrMsg ''logtrack: nil SysMessage''), sdk)
      | Some m \<Rightarrow>
          (case SysMessage_Validate msg of
             Some e \<Rightarrow> (Some e, sdk)
           | None \<Rightarrow>
               (let opt = applyOpts opts
                in (None, sdk_send raced TopicSysEvent (marshal_sys_message m) (o_traceID opt) (sm_EventID m) sdk))))"

definition SendSysMessageCtx ::
  "bool \<Rightarrow> context_values option \<Rightarrow> SysMessage option \<Rightarrow> Option list \<Rightarrow> sdk \<Rightarrow> error option \<times> sdk" where
  "SendSysMessageCtx raced ctx msg opts sdk = SendSysMessage raced msg (trace_from_ctx ctx opts) sdk"

section \<open>Experiment assignments\<close>

record ExpAssignmentMessage =
  ea_ExperimentID :: string
  ea_SubjectID :: string
  ea_Variant :: string
  ea_IsActive :: "int option"
  ea_AssignedTimeMS :: int
  ea_EventID :: string

definition marshal_exp_assignment :: "ExpAssignmentMessage \<Rightarrow> string option" where
  "marshal_exp_assignment m = json_struct (
     str_member ''experiment_id'' (ea_ExperimentID m) @ str_member ''subject_id'' (ea_SubjectID m) @
     str_member ''variant'' (ea_Variant m) @
     (case ea_IsActive m of None \<Rightarrow> [] | Some n \<Rightarrow> int_member ''is_active'' n) @
     int_member ''assigned_time_ms'' (ea_AssignedTimeMS m) @ str_omit ''event_id'' (ea_EventID m))"

definition NewExpAssignmentMessage ::
  "string \<Rightarrow> string \<Rightarrow> string \<Rightarrow> string \<Rightarrow> int \<Rightarrow> ExpAssignmentMessage" where
  "NewExpAssignmentMessage eventID experimentID subjectID variant assignedTimeMS =
     \<lparr>ea_ExperimentID = experimentID, ea_SubjectID = subjectID, ea_Variant = variant, ea_IsActive = None,
      ea_AssignedTimeMS = assignedTimeMS, ea_EventID = eventID\<rparr>"

text \<open>
  Whether a rune of a well-formed string is a control character, on its first bytes: the control
  characters are U+0000 to U+001F and U+007F to U+009F.
\<close>

fun has_control :: "string \<Rightarrow> bool" where
  "has_control [] = False"
| "has_control (c # cs) =
     (code c < 32 \<or> code c = 127 \<or>
      (code c = 194 \<and> cs \<noteq> [] \<and> 128 \<le> code (hd cs) \<and> code (hd cs) < 160) \<or> has_control cs)"

fun check_text :: "(string \<times> string) list \<Rightarrow> error option" where
  "check_text [] = None"
| "check_text ((k, v) # fs) =
     (if \<not> ValidString v then Some (ErrMsg (''logtrack: '' @ k @ '' must be valid UTF-8''))
      else if has_control v then Some (ErrMsg (''logtrack: '' @ k @ '' must not contain control characters''))
      else check_text fs)"

definition ExpAssignmentMessage_Validate :: "ExpAssignmentMessage option \<Rightarrow> error option" where
  "ExpAssignmentMessage_Validate msg =
     (case msg of None \<Rightarrow> Some (ErrMsg ''logtrack: nil ExpAssignmentMessage'') | Some m \<Rightarrow>
      case messageRequired [(''experiment_id'', ea_ExperimentID m), (''subject_id'', ea_SubjectID m),
             (''variant'', ea_Variant m)] of
        Some e \<Rightarrow> Some e
      | None \<Rightarrow>
          if ea_AssignedTimeMS m \<le> 0 then Some (ErrMsg ''logtrack: assigned_time_ms must be positive'')
          else if ea_IsActive m \<noteq> None \<and> ea_IsActive m \<noteq> Some 0 \<and> ea_IsActive m \<noteq> Some 1
          then Some (ErrMsg ''logtrack: is_active must be 0 or 1'')
          else check_text [(''experiment_id'', ea_ExperimentID m), (''subject_id'', ea_SubjectID m),
                 (''variant'', ea_Variant m), (''event_id'', ea_EventID m)])"

text \<open>Marshalling two strings cannot fail, so the source's error branch after it is never taken.\<close>

definition assignment_key :: "ExpAssignmentMessage \<Rightarrow> string" where
  "assignment_key m = json_array [quote (ea_ExperimentID m), quote (ea_SubjectID m)]"

definition SendExpAssignmentMessage ::
  "bool \<Rightarrow> ExpAssignmentMessage option \<Rightarrow> Option list \<Rightarrow> sdk \<Rightarrow> error option \<times> sdk" where
  "SendExpAssignmentMessage raced msg opts sdk =
     (case msg of
        None \<Rightarrow> (Some (ErrMsg ''logtrack: nil ExpAssignmentMessage''), sdk)
      | Some m \<Rightarrow>
          (case ExpAssignmentMessage_Validate msg of
             Some e \<Rightarrow> (Some e, sdk)
           | None \<Rightarrow>
               (let opt = applyOpts opts
                in (None, sdk_send raced TopicExpAssignment (marshal_exp_assignment m) (o_traceID opt)
                     (assignment_key m) sdk))))"

definition SendExpAssignmentMessageCtx ::
  "bool \<Rightarrow> context_values option \<Rightarrow> ExpAssignmentMessage option \<Rightarrow> Option list \<Rightarrow> sdk \<Rightarrow> error option \<times> sdk" where
  "SendExpAssignmentMessageCtx raced ctx msg opts sdk =
     SendExpAssignmentMessage raced msg (trace_from_ctx ctx opts) sdk"

end
