(* ===== verification/Messages_Props.thy ===== *)
theory Messages_Props
  imports Messages Go_Marshal
begin

text \<open>
  The business messages: validation as a condition on the record, marshalling that cannot fail, and
  the partition key of an assignment.
\<close>

section \<open>Validation\<close>

lemma TrimSpace_id: "space_prefix s = 0 \<Longrightarrow> space_suffix s = 0 \<Longrightarrow> TrimSpace s = s"
  by (simp add: TrimSpace_def TrimLeft.simps [of s] TrimRight.simps [of s])

lemmas trim_simps = TrimSpace_id space_prefix_def space_suffix_def is_space_rune_def ascii_space_def wide_space_def

lemma messageRequired_None: "messageRequired fs = None \<longleftrightarrow> (\<forall>f \<in> set fs. TrimSpace (snd f) \<noteq> [])"
  by (induction fs rule: messageRequired.induct) auto

lemma check_text_None: "check_text fs = None \<longleftrightarrow> (\<forall>f \<in> set fs. ValidString (snd f) \<and> \<not> has_control (snd f))"
  by (induction fs rule: check_text.induct) auto

definition container :: "any_value option \<Rightarrow> bool" where
  "container a \<longleftrightarrow> (case a of None \<Rightarrow> True
     | Some v \<Rightarrow> (\<exists>t. av_json v = Some (CHR ''{'' # t) \<or> av_json v = Some (CHR ''['' # t)))"

lemma messageJSONContainer_None: "messageJSONContainer k a = None \<longleftrightarrow> container a"
  by (auto simp: messageJSONContainer_def container_def neq_Nil_conv split: option.splits)

definition valid_app_message :: "AppMessage \<Rightarrow> bool" where
  "valid_app_message m \<longleftrightarrow>
     (\<forall>v \<in> {am_EventID m, am_EventName m, am_RequestID m, am_DeviceUUID m, am_BID m}. TrimSpace v \<noteq> []) \<and>
     0 < am_EventTime m \<and> 0 < am_AppID m \<and> am_IsTest m \<in> {0, 1} \<and> container (am_PayloadJSON m)"

definition valid_sys_message :: "SysMessage \<Rightarrow> bool" where
  "valid_sys_message m \<longleftrightarrow>
     (\<forall>v \<in> {sm_EventID m, sm_SourceSystem m, sm_Message m}. TrimSpace v \<noteq> []) \<and> 0 < sm_EventTime m \<and>
     sm_Level m \<in> {''WARN'', ''ERROR'', ''FATAL''} \<and>
     (TrimSpace (sm_EventCode m) \<noteq> [] \<or> TrimSpace (sm_EventType m) \<noteq> []) \<and> container (sm_ContextJSON m)"

definition valid_exp_assignment :: "ExpAssignmentMessage \<Rightarrow> bool" where
  "valid_exp_assignment m \<longleftrightarrow>
     (\<forall>v \<in> {ea_ExperimentID m, ea_SubjectID m, ea_Variant m}. TrimSpace v \<noteq> []) \<and>
     0 < ea_AssignedTimeMS m \<and> ea_IsActive m \<in> {None, Some 0, Some 1} \<and>
     (\<forall>v \<in> {ea_ExperimentID m, ea_SubjectID m, ea_Variant m, ea_EventID m}. ValidString v \<and> \<not> has_control v)"

lemma AppMessage_Validate_None: "AppMessage_Validate (Some m) = None \<longleftrightarrow> valid_app_message m"
  by (auto simp: AppMessage_Validate_def valid_app_message_def messageJSONContainer_None)

lemma SysMessage_Validate_None: "SysMessage_Validate (Some m) = None \<longleftrightarrow> valid_sys_message m"
  by (auto simp: SysMessage_Validate_def valid_sys_message_def messageJSONContainer_None LevelWarn_def
      LevelError_def LevelFatal_def)

lemma ExpAssignmentMessage_Validate_None:
  "ExpAssignmentMessage_Validate (Some m) = None \<longleftrightarrow> valid_exp_assignment m"
  by (auto simp: ExpAssignmentMessage_Validate_def valid_exp_assignment_def)

lemmas Validate_None = AppMessage_Validate_None SysMessage_Validate_None ExpAssignmentMessage_Validate_None

section \<open>Payloads\<close>

lemma json_struct_None: "(k, None) \<in> set ms \<Longrightarrow> json_struct ms = None"
proof (rule ccontr)
  assume "(k, None) \<in> set ms" "json_struct ms \<noteq> None"
  then obtain ys where "map (\<lambda>(k, v). map_option (Pair k) v) ms = map Some ys"
    by (auto simp: json_struct_def sequence_snd_def sequence_Some)
  moreover have "None \<in> set (map (\<lambda>(k, v). map_option (Pair k) v) ms)"
    using \<open>(k, None) \<in> set ms\<close> by force
  ultimately show False
    by simp
qed

lemma marshal_exp_assignment_ok:
  "\<exists>p. marshal_exp_assignment m = Some p \<and> marshalled (Suc 0) p"
proof -
  have "\<forall>p \<in> set (case ea_IsActive m of None \<Rightarrow> [] | Some n \<Rightarrow> int_member ''is_active'' n). member_ok 0 p"
    by (cases "ea_IsActive m") (simp_all add: members_ok)
  then show ?thesis
    unfolding marshal_exp_assignment_def by (intro json_struct_ex) (simp add: ball_Un members_ok)
qed

text \<open>The messages whose marshalling cannot fail: finite numbers and payloads the encoder accepts.\<close>

definition encodable_app :: "nat \<Rightarrow> AppMessage \<Rightarrow> bool" where
  "encodable_app lim m \<longleftrightarrow> (\<forall>e \<in> set (am_FF m). member_ok lim e) \<and> any_ok (Suc lim) (am_PayloadJSON m)"

lemma marshal_app_message_ok:
  assumes "encodable_app lim m"
  shows "\<exists>p. marshal_app_message m = Some p \<and> marshalled (Suc (Suc lim)) p"
proof -
  have "\<forall>p \<in> set (map_omit ''fi'' (map (map_prod id (Some \<circ> FormatInt)) (am_FI m))). member_ok (Suc lim) p"
    by (rule map_omit_ok) (auto simp: member_ok_def)
  moreover have "\<forall>p \<in> set (map_omit ''fs'' (map (map_prod id (Some \<circ> quote)) (am_FS m))). member_ok (Suc lim) p"
    by (rule map_omit_ok) (auto simp: member_ok_def)
  moreover have "\<forall>p \<in> set (map_omit ''ff'' (am_FF m)). member_ok (Suc lim) p"
    using assms by (intro map_omit_ok) (simp add: encodable_app_def)
  moreover have "any_ok (Suc lim) (am_PayloadJSON m)"
    using assms by (simp add: encodable_app_def)
  ultimately show ?thesis
    unfolding marshal_app_message_def by (intro json_struct_ex) (simp add: ball_Un members_ok)
qed

lemma marshal_sys_message_ok:
  assumes "any_ok lim (sm_ContextJSON m)"
  shows "\<exists>p. marshal_sys_message m = Some p \<and> marshalled (Suc lim) p"
  using assms unfolding marshal_sys_message_def
  by (intro json_struct_ex) (simp add: ball_Un members_ok)

section \<open>The partition key of an assignment\<close>

lemma quote_prefix:
  assumes "quote a @ CHR '','' # r = quote b @ CHR '','' # s"
  shows "quote a = quote b \<and> r = s"
proof -
  have *: "value_text (quote x @ CHR '','' # t) = (quote x, CHR '','' # t)" for x t
    by (rule value_text_quote) (simp add: delim_def)
  have "(quote a, CHR '','' # r) = (quote b, CHR '','' # s)"
    using * [of a r] * [of b s] assms by metis
  then show ?thesis
    by simp
qed

lemma quote_inject: "quote a = quote b \<Longrightarrow> ToValid a = ToValid b"
  using unquote_quote by (metis option.inject)

lemma assignment_key_inject:
  assumes "assignment_key m = assignment_key m'"
  shows "ToValid (ea_ExperimentID m) = ToValid (ea_ExperimentID m') \<and> ToValid (ea_SubjectID m) = ToValid (ea_SubjectID m')"
proof -
  have "quote (ea_ExperimentID m) @ CHR '','' # quote (ea_SubjectID m) @ '']'' =
      quote (ea_ExperimentID m') @ CHR '','' # quote (ea_SubjectID m') @ '']''"
    using assms by (simp add: assignment_key_def json_array_def)
  then have "quote (ea_ExperimentID m) = quote (ea_ExperimentID m')" "quote (ea_SubjectID m) = quote (ea_SubjectID m')"
    using quote_prefix by blast+
  then show ?thesis
    using quote_inject by blast
qed

end
