(* ===== verification/Messages_Theorems.thy ===== *)
theory Messages_Theorems
  imports Messages_Props Client_Theorems
begin

text \<open>
  The properties of the business messages: which are accepted, what is sent for them, and what the
  partition key of an assignment tells apart.
\<close>

section \<open>Acceptance\<close>

text \<open>
  C36: a sender reports no error exactly for a valid message, and only then touches the client: it sends
  the record under its topic with a partition key that is never empty: the mobile number or else the
  device of an application message, the id of a system message, the pair of experiment and subject of an
  assignment. A nil message is refused by all three.
\<close>

theorem messages_accepted:
  "SendAppMessage raced (Some m) opts s =
     (if valid_app_message m
      then (None, sdk_send raced TopicAppEvent (marshal_app_message m) (o_traceID (applyOpts opts))
              (if am_Mobile m = [] then am_DeviceUUID m else am_Mobile m) s)
      else (AppMessage_Validate (Some m), s)) \<and>
   (valid_app_message m \<longleftrightarrow> AppMessage_Validate (Some m) = None) \<and>
   SendSysMessage raced (Some sm) opts s =
     (if valid_sys_message sm
      then (None, sdk_send raced TopicSysEvent (marshal_sys_message sm) (o_traceID (applyOpts opts)) (sm_EventID sm) s)
      else (SysMessage_Validate (Some sm), s)) \<and>
   (valid_sys_message sm \<longleftrightarrow> SysMessage_Validate (Some sm) = None) \<and>
   SendExpAssignmentMessage raced (Some ea) opts s =
     (if valid_exp_assignment ea
      then (None, sdk_send raced TopicExpAssignment (marshal_exp_assignment ea) (o_traceID (applyOpts opts))
              (assignment_key ea) s)
      else (ExpAssignmentMessage_Validate (Some ea), s)) \<and>
   (valid_exp_assignment ea \<longleftrightarrow> ExpAssignmentMessage_Validate (Some ea) = None) \<and>
   snd (SendAppMessage raced None opts s) = s \<and> snd (SendSysMessage raced None opts s) = s \<and>
   snd (SendExpAssignmentMessage raced None opts s) = s \<and>
   None \<notin> {fst (SendAppMessage raced None opts s), fst (SendSysMessage raced None opts s),
     fst (SendExpAssignmentMessage raced None opts s)}"
  by (simp add: SendAppMessage_def SendSysMessage_def SendExpAssignmentMessage_def Let_def Validate_None [symmetric]
      split: option.split)

section \<open>The key of an assignment\<close>

text \<open>
  C23: valid assignments have the same partition key exactly when they have the same experiment and the
  same subject, whatever quotes, commas or brackets the two names contain.
\<close>

theorem assignment_key_injective:
  assumes "valid_exp_assignment m" "valid_exp_assignment m'"
  shows "assignment_key m = assignment_key m' \<longleftrightarrow>
    ea_ExperimentID m = ea_ExperimentID m' \<and> ea_SubjectID m = ea_SubjectID m'"
proof
  assume "assignment_key m = assignment_key m'"
  then show "ea_ExperimentID m = ea_ExperimentID m' \<and> ea_SubjectID m = ea_SubjectID m'"
    using assignment_key_inject [of m m'] assms by (simp add: valid_exp_assignment_def ToValid_ValidString)
qed (simp add: assignment_key_def)

definition ex_assignment :: ExpAssignmentMessage where
  "ex_assignment = NewExpAssignmentMessage ''e1'' ''exp'' ''user'' ''B'' 5"

lemma ex_assignment_valid: "valid_exp_assignment ex_assignment"
  by (simp add: ex_assignment_def NewExpAssignmentMessage_def valid_exp_assignment_def ValidString_ascii trim_simps)

theorem assignment_key_injective_witness:
  "assignment_key ex_assignment \<noteq> assignment_key (ex_assignment\<lparr>ea_SubjectID := ''other''\<rparr>)"
proof -
  have "valid_exp_assignment (ex_assignment\<lparr>ea_SubjectID := ''other''\<rparr>)"
    by (simp add: ex_assignment_def NewExpAssignmentMessage_def valid_exp_assignment_def ValidString_ascii trim_simps)
  from assignment_key_injective [OF ex_assignment_valid this] show ?thesis
    by (simp add: ex_assignment_def NewExpAssignmentMessage_def)
qed

section \<open>A message that cannot be encoded\<close>

text \<open>
  C40: validation does not look at the numbers of an application message: when one of them is infinite or
  not a number, \<open>SendAppMessage\<close> reports success although the message cannot be encoded and no byte of it
  reaches the network.
\<close>

theorem app_message_nan_dropped:
  assumes "valid_app_message m" "(k, None) \<in> set (am_FF m)"
  shows "\<exists>n'. SendAppMessage raced (Some m) opts (Some c, n) = (None, Some c, n') \<and> wire n' = wire n \<and>
    hung_up n' = hung_up n \<and> next_conn n' = next_conn n"
proof -
  have "json_map (am_FF m) = None"
    using json_struct_None [OF assms(2)] by (simp add: json_map_def json_struct_def)
  then have "marshal_app_message m = None"
    using assms(2) unfolding marshal_app_message_def by (intro json_struct_None [of "''ff''"]) (auto simp: map_omit_def)
  then show ?thesis
    using assms(1)
    by (simp add: SendAppMessage_def AppMessage_Validate_None [THEN iffD2] sdk_send_def c_send_def net_Now_def ntick_def Let_def)
qed

definition ex_app_message :: AppMessage where
  "ex_app_message = (NewAppMessage ''e1'' ''open'' 1000000)\<lparr>am_RequestID := ''r'', am_DeviceUUID := ''d'', am_BID := ''b'',
     am_AppID := 1, am_FF := [(''ratio'', None)]\<rparr>"

lemma ex_app_message_valid: "valid_app_message ex_app_message"
  by (simp add: ex_app_message_def NewAppMessage_def valid_app_message_def UnixMilli_def container_def trim_simps)

theorem app_message_nan_dropped_witness:
  "\<exists>n'. SendAppMessage False (Some ex_app_message) [] (Some ex_client, ex_net) = (None, Some ex_client, n') \<and>
     wire n' = wire ex_net"
  using app_message_nan_dropped [OF ex_app_message_valid, of "''ratio''" False "[]" ex_client ex_net]
  by (auto simp: ex_app_message_def)

end
