(* ===== verification/Senders.thy ===== *)
theory Senders
  imports Client Go_Values
begin

text \<open>
  The typed senders of the SDK for application logs, events and RPC calls: \<open>pkg/logtrack/app_log.go\<close>,
  \<open>event.go\<close> and \<open>rpc.go\<close>. A record is marshalled member by member; a nil record is ignored.
\<close>

section \<open>Application logs\<close>

record AppLog =
  al_AppID :: int
  al_Country :: string
  al_BID :: string
  al_Level :: string
  al_Message :: string
  al_File :: string
  al_Line :: int
  al_Function :: string
  al_Stack :: string
  al_Fields :: "(string \<times> any_value option) list"

definition marshal_app_log :: "AppLog \<Rightarrow> string option" where
  "marshal_app_log l = json_struct (
     int_omit ''app_id'' (al_AppID l) @ str_omit ''country'' (al_Country l) @ str_omit ''bid'' (al_BID l) @
     str_member ''level'' (al_Level l) @ str_member ''message'' (al_Message l) @
     str_omit ''file'' (al_File l) @ int_omit ''line'' (al_Line l) @ str_omit ''function'' (al_Function l) @
     str_omit ''stack'' (al_Stack l) @ anymap_omit ''fields'' (al_Fields l))"

definition App :: "bool \<Rightarrow> AppLog option \<Rightarrow> Option list \<Rightarrow> sdk \<Rightarrow> sdk" where
  "App raced l opts sdk =
     (case l of None \<Rightarrow> sdk | Some l0 \<Rightarrow> Send raced TopicAppLogs (marshal_app_log l0) opts sdk)"

definition AppCtx :: "bool \<Rightarrow> context_values option \<Rightarrow> AppLog option \<Rightarrow> Option list \<Rightarrow> sdk \<Rightarrow> sdk" where
  "AppCtx raced ctx l opts sdk =
     (case l of None \<Rightarrow> sdk | Some l0 \<Rightarrow> SendCtx raced ctx TopicAppLogs (marshal_app_log l0) opts sdk)"

section \<open>Events\<close>

record Event =
  ev_BID :: string
  ev_Country :: string
  ev_AppID :: int
  ev_Name :: string
  ev_UserID :: int
  ev_SessionUUID :: string
  ev_DeviceUUID :: string
  ev_Platform :: string
  ev_AppVersion :: string
  ev_Properties :: "(string \<times> any_value option) list"
  ev_Extra :: "(string \<times> any_value option) list"

definition marshal_event :: "Event \<Rightarrow> string option" where
  "marshal_event e = json_struct (
     str_omit ''bid'' (ev_BID e) @ str_omit ''country'' (ev_Country e) @ int_omit ''app_id'' (ev_AppID e) @
     str_member ''event_name'' (ev_Name e) @ int_omit ''user_id'' (ev_UserID e) @
     str_omit ''session_uuid'' (ev_SessionUUID e) @ str_omit ''device_uuid'' (ev_DeviceUUID e) @
     str_member ''platform'' (ev_Platform e) @ str_member ''app_version'' (ev_AppVersion e) @
     anymap_omit ''properties'' (ev_Properties e) @ anymap_omit ''extra'' (ev_Extra e))"

definition EventTrack :: "bool \<Rightarrow> Event option \<Rightarrow> Option list \<Rightarrow> sdk \<Rightarrow> sdk" where
  "EventTrack raced e opts sdk =
     (case e of None \<Rightarrow> sdk | Some e0 \<Rightarrow> Send raced TopicEventTracks (marshal_event e0) opts sdk)"

definition EventCtx :: "bool \<Rightarrow> context_values option \<Rightarrow> Event option \<Rightarrow> Option list \<Rightarrow> sdk \<Rightarrow> sdk" where
  "EventCtx raced ctx e opts sdk =
     (case e of None \<Rightarrow> sdk | Some e0 \<Rightarrow> SendCtx raced ctx TopicEventTracks (marshal_event e0) opts sdk)"

section \<open>RPC calls\<close>

record RPCLog =
  rl_AppID :: int
  rl_Country :: string
  rl_BID :: string
  rl_Caller :: string
  rl_Callee :: string
  rl_Method :: string
  rl_DurationMs :: int
  rl_StatusCode :: int
  rl_Error :: string
  rl_RequestSize :: int
  rl_ResponseSize :: int
  rl_Extra :: "(string \<times> any_value option) list"

definition marshal_rpc :: "RPCLog \<Rightarrow> string option" where
  "marshal_rpc l = json_struct (
     int_omit ''app_id'' (rl_AppID l) @ str_omit ''country'' (rl_Country l) @ str_omit ''bid'' (rl_BID l) @
     str_member ''caller'' (rl_Caller l) @ str_member ''callee'' (rl_Callee l) @
     str_member ''method'' (rl_Method l) @ int_member ''duration_ms'' (rl_DurationMs l) @
     int_member ''status_code'' (rl_StatusCode l) @ str_omit ''error'' (rl_Error l) @
     int_omit ''request_size'' (rl_RequestSize l) @ int_omit ''response_size'' (rl_ResponseSize l) @
     anymap_omit ''extra'' (rl_Extra l))"

definition RPC :: "bool \<Rightarrow> RPCLog option \<Rightarrow> Option list \<Rightarrow> sdk \<Rightarrow> sdk" where
  "RPC raced l opts sdk =
     (case l of None \<Rightarrow> sdk | Some l0 \<Rightarrow> Send raced TopicRPCCalls (marshal_rpc l0) opts sdk)"

definition RPCCtx :: "bool \<Rightarrow> context_values option \<Rightarrow> RPCLog option \<Rightarrow> Option list \<Rightarrow> sdk \<Rightarrow> sdk" where
  "RPCCtx raced ctx l opts sdk =
     (case l of None \<Rightarrow> sdk | Some l0 \<Rightarrow> SendCtx raced ctx TopicRPCCalls (marshal_rpc l0) opts sdk)"

end
