(* ===== verification/Pipeline.thy ===== *)
theory Pipeline
  imports Messages_Props Senders Client_Props Server_Props Gateway
begin

text \<open>
  The way of one message from the SDK to Kafka: what a working send puts on the wire, what the server
  reads there, and what dispatching makes of it; for payloads sent bare and for application logs.
\<close>

section \<open>A send that works\<close>

lemma set_shard_same: "set_shard topic i (shards_of topic c ! i) c = c"
  by (simp add: set_shard_def shards_of_def)

lemma c_send_ok:
  assumes "\<not> cl_closed c" "i = shardIndex t (length (shards_of topic c))" "i < length (shards_of topic c)"
    "nextAttempt (shards_of topic c ! i) \<le> nclock n (nstep n)"
    "\<forall>j. \<not> dial_err n j \<and> write_err n j = None"
    "encodeFrame (make_envelope c topic p t key (nclock n (Suc (nstep n)))) = Inr frame"
  shows "\<exists>c1 n1 k. c_send False topic (Some p) t key c n = (c1, n1) \<and> conn (shards_of topic c1 ! i) = Some k \<and>
    wire n1 k = (case conn (shards_of topic c ! i) of None \<Rightarrow> [] | Some _ \<Rightarrow> wire n k) @ frame \<and>
    (\<forall>j. conn (shards_of topic c ! i) = Some j \<longrightarrow> j = k)"
proof (cases "conn (shards_of topic c ! i)")
  case None
  have len: "length (shards_of topic (set_shard topic i s c)) = length (shards_of topic c)"
    "i < length (shards_of topic c) \<Longrightarrow> shards_of topic (set_shard topic i s c) ! i = s" for s
    by (simp_all add: set_shard_def shards_of_def split: if_splits)
  then show ?thesis
    using assms None
    by (simp add: c_send_def Let_def net_Now_def ntick_def ensure_conn_def net_Dial_def write_frame_def
        conn_Write_def not_less)
next
  case (Some k)
  then show ?thesis
    using assms
    by (simp add: c_send_def Let_def net_Now_def ntick_def ensure_conn_def write_frame_def conn_Write_def
        set_shard_same not_less)
qed

section \<open>Envelopes of the SDK\<close>

lemma ValidString_TimestampAtFromTime: "ValidString (TimestampAtFromTime t)"
  by (simp add: TimestampAtFromTime_def ValidString_ascii render_rfc3339_ascii)

lemma ValidString_topic: "ValidString TopicAppEvent" "ValidString TopicSysEvent" "ValidString TopicExpAssignment"
  "ValidString TopicAppLogs" "ValidString TopicRPCCalls" "ValidString EnvVersion"
  by (simp_all add: topic_defs EnvVersion_def ValidString_ascii)

lemma wf_make_envelope:
  assumes "ValidString (service c)" "ValidString (host c)" "ValidString t" "ValidString key" "ValidString topic"
    "is_int64 (UnixMilli now)" "marshalled lim p" "lim < maxNestingDepth"
  shows "wf_envelope (make_envelope c topic p t key now)"
proof -
  have "valid_upto (maxNestingDepth - 1) p"
    using marshalled_mono [OF assms(7), of "maxNestingDepth - 1"] assms(8)
    by (intro json_value_valid) (simp add: marshalled_def)
  then show ?thesis
    using assms by (simp add: wf_envelope_def make_envelope_def raw_ok_def ValidString_topic ValidString_TimestampAtFromTime)
qed

lemma received_make_envelope:
  assumes "marshalled lim p" "lim < maxNestingDepth"
  shows "received (make_envelope c topic p t key now) = EnsureTimestampAt (make_envelope c topic p t key now)"
  using compact_marshalled [OF assms(1)] assms(2) by (simp add: received_def marshal_raw_def make_envelope_def)

section \<open>From the SDK to the queues\<close>

lemma send_served:
  assumes "framed sc (make_envelope c topic p t key now) frame" "list_all2 (framed sc) envs frames"
  shows "serve_all sc (concat frames @ frame) = serve_all sc (concat frames) @
    [(topic = TopicEventTracks, received (make_envelope c topic p t key now))]"
proof -
  have "serve_all sc [] = []"
    by (rule serve_all_bad [of _ _ ReadFailed]) (simp add: readFrame_def ReadFull_def)
  then have "serve_all sc frame = [(topic = TopicEventTracks, received (make_envelope c topic p t key now))]"
    using serve_all_frame [OF assms(1), of "[]"] by (simp add: make_envelope_def)
  then show ?thesis
    using serve_all_frames [OF assms(2), of frame] serve_all_frames [OF assms(2), of "[]"] \<open>serve_all sc [] = []\<close> by simp
qed

text \<open>
  A working link between a client and a server for one topic and trace: the client is open, its shard
  does not back off, the network has no faults, and what the shard's connection carried so far are
  whole frames within the server's limit.
\<close>

definition the_shard :: "string \<Rightarrow> string \<Rightarrow> Client \<Rightarrow> shardConn" where
  "the_shard topic t c = shards_of topic c ! shardIndex t (length (shards_of topic c))"

definition stream_before :: "string \<Rightarrow> string \<Rightarrow> Client \<Rightarrow> net \<Rightarrow> string" where
  "stream_before topic t c n = (case conn (the_shard topic t c) of None \<Rightarrow> [] | Some k \<Rightarrow> wire n k)"

definition link_ready :: "server_config \<Rightarrow> string \<Rightarrow> string \<Rightarrow> Client \<Rightarrow> net \<Rightarrow> bool" where
  "link_ready sc topic t c n \<longleftrightarrow>
     \<not> cl_closed c \<and> pools_ok c \<and> nextAttempt (the_shard topic t c) \<le> nclock n (nstep n) \<and>
     (\<forall>j. \<not> dial_err n j \<and> write_err n j = None) \<and>
     (\<exists>envs frames. list_all2 (framed sc) envs frames \<and> stream_before topic t c n = concat frames)"

lemma sdk_send_served:
  assumes "link_ready sc topic t c n" "e = make_envelope c topic p t key (nclock n (Suc (nstep n)))" "framed sc e frame"
  shows "\<exists>c1 n1 k. sdk_send False topic (Some p) t key (Some c, n) = (Some c1, n1) \<and>
    serve_all sc (wire n1 k) = serve_all sc (stream_before topic t c n) @ [(topic = TopicEventTracks, received e)]"
proof -
  have "pools_ok c"
    using assms(1) by (simp add: link_ready_def)
  then obtain c1 n1 k where sent: "c_send False topic (Some p) t key c n = (c1, n1)"
    "wire n1 k = (case conn (the_shard topic t c) of None \<Rightarrow> [] | Some _ \<Rightarrow> wire n k) @ frame"
    "\<forall>j. conn (the_shard topic t c) = Some j \<longrightarrow> j = k"
    using c_send_ok [of c _ t topic n p key frame] assms shardIndex_pool [of c t topic]
    by (auto simp: link_ready_def the_shard_def framed_def)
  then have "wire n1 k = stream_before topic t c n @ frame"
    by (auto simp: stream_before_def split: option.splits)
  moreover obtain envs frames where "list_all2 (framed sc) envs frames" "stream_before topic t c n = concat frames"
    using assms(1) by (auto simp: link_ready_def)
  ultimately have "serve_all sc (wire n1 k) =
      serve_all sc (stream_before topic t c n) @ [(topic = TopicEventTracks, received e)]"
    using send_served [of sc c topic p t key "nclock n (Suc (nstep n))" frame envs frames] assms(2,3) by simp
  then show ?thesis
    using sent(1) by (auto simp: sdk_send_def)
qed

section \<open>From the queues to Kafka\<close>

lemma raw_dispatched:
  assumes "topic \<in> raw_topics" "key \<noteq> []" "marshalled lim p" "lim < maxNestingDepth"
    "env = received (make_envelope c topic p t key now)" "gw_good g" "gw_fits (env\<lparr>WriteRaw := True\<rparr>) g"
  shows "gw_good (gw_fn env g) \<and>
    (gw_sent (gw_fn env g) = gw_sent g @ [(topic, \<lparr>Key = Some key, Value = Some p\<rparr>)] \<and> gw_kept (gw_fn env g) = gw_kept g \<or>
     gw_sent (gw_fn env g) = gw_sent g \<and>
     gw_kept (gw_fn env g) = gw_kept g @ [zero_envelope\<lparr>Topic := topic, PartitionKey := key, TraceID := t,
        Data := Some p, WriteRaw := True\<rparr>])"
proof -
  have env: "Topic env = topic" "PartitionKey env = key" "TraceID env = t" "Data env = Some p"
    using assms(5) received_make_envelope [OF assms(3,4)] by (simp_all add: make_envelope_def)
  then have "routed env = Some (env\<lparr>WriteRaw := True\<rparr>)"
    using assms(1) by (auto simp: routed_def raw_topics_def topic_defs)
  from gw.dispatch_one [OF assms(6) this assms(7)] show ?thesis
    using env assms(2) compact_marshalled [OF assms(3)] assms(4)
    by (simp add: gw_fn_def adapter_Set_def stamped_def message_def key_of_def selectPartitionKey_def stored_def marshal_raw_def Let_def)
qed


section \<open>Application logs\<close>

text \<open>The members of a marshalled struct, as the gateway reads them back.\<close>

abbreviation read_back :: "member list \<Rightarrow> (string \<times> string) list" where
  "read_back ms \<equiv> map (\<lambda>(k, v). (ToValid k, the v)) ms"

lemma get_string_other:
  assumes "\<not> field_match f (ToValid k)"
  shows "get_string f (read_back (str_omit k s)) cur = Some cur" "get_string f (read_back (int_omit k i)) cur = Some cur"
    "get_string f (read_back (str_member k s)) cur = Some cur" "get_string f (read_back (int_member k i)) cur = Some cur"
    "get_string f (read_back (anymap_omit k es)) cur = Some cur"
  using assms by (simp_all add: member_defs)

lemma get_string_own:
  "field_match f (ToValid k) \<Longrightarrow> get_string f (read_back (str_member k s)) cur = Some (ToValid s)"
  by (simp add: member_defs get_string_quote del: get_string.simps(2))

lemma foldName_log_fields:
  "foldName ''app_id'' = ''APP_ID''" "foldName ''country'' = ''COUNTRY''" "foldName ''bid'' = ''BID''"
  "foldName ''level'' = ''LEVEL''" "foldName ''message'' = ''MESSAGE''" "foldName ''file'' = ''FILE''"
  "foldName ''line'' = ''LINE''" "foldName ''function'' = ''FUNCTION''" "foldName ''stack'' = ''STACK''"
  "foldName ''fields'' = ''FIELDS''"
  by (simp_all add: foldName.simps(2) byte_eq_iff)

lemma ToValid_log_fields:
  "ToValid ''app_id'' = ''app_id''" "ToValid ''country'' = ''country''" "ToValid ''bid'' = ''bid''"
  "ToValid ''level'' = ''level''" "ToValid ''message'' = ''message''" "ToValid ''file'' = ''file''"
  "ToValid ''line'' = ''line''" "ToValid ''function'' = ''function''" "ToValid ''stack'' = ''stack''"
  "ToValid ''fields'' = ''fields''"
  by (simp_all add: ToValid_ascii)

lemma unmarshal_struct:
  assumes "\<forall>p \<in> set ms. member_ok lim p" "lim < maxNestingDepth" "json_struct ms = Some t"
  shows "unmarshal_members t = Some (read_back ms)"
proof -
  have "t = json_object (map (map_prod id the) ms)"
    using json_struct_ok(1) [OF assms(1)] assms(3) by simp
  moreover have "\<forall>p \<in> set (map (map_prod id the) ms). json_value lim (snd p)"
    using members_marshalled [OF assms(1)] by (auto simp: marshalled_def)
  ultimately show ?thesis
    using unmarshal_json_object [OF _ assms(2)] by (simp add: comp_def case_prod_unfold)
qed

lemma app_log_payload:
  assumes "\<forall>e \<in> set (al_Fields l). any_ok lim (snd e)" "Suc lim < maxNestingDepth"
  shows "\<exists>p. marshal_app_log l = Some p \<and> marshalled (Suc (Suc lim)) p \<and>
    (\<forall>env. Data env = Some p \<longrightarrow>
       strings_of [''level'', ''message''] env = Some [ToValid (al_Level l), ToValid (al_Message l)])"
proof -
  define ms where "ms = int_omit ''app_id'' (al_AppID l) @ str_omit ''country'' (al_Country l) @
     str_omit ''bid'' (al_BID l) @ str_member ''level'' (al_Level l) @ str_member ''message'' (al_Message l) @
     str_omit ''file'' (al_File l) @ int_omit ''line'' (al_Line l) @ str_omit ''function'' (al_Function l) @
     str_omit ''stack'' (al_Stack l) @ anymap_omit ''fields'' (al_Fields l)"
  have ok: "\<forall>p \<in> set ms. member_ok (Suc lim) p"
    using anymap_omit_ok [OF assms(1)] by (simp add: ms_def ball_Un members_ok)
  obtain p where p: "json_struct ms = Some p" "marshalled (Suc (Suc lim)) p"
    using json_struct_ok [OF ok] by blast
  have "unmarshal_members p = Some (read_back ms)"
    by (rule unmarshal_struct [OF ok assms(2) p(1)])
  moreover have "get_string ''level'' (read_back ms) [] = Some (ToValid (al_Level l))"
    "get_string ''message'' (read_back ms) [] = Some (ToValid (al_Message l))"
    unfolding ms_def map_append
    by (simp_all add: get_string_append get_string_other get_string_own field_match_def ToValid_log_fields
        foldName_log_fields del: get_string.simps(2))
  ultimately have "strings_of [''level'', ''message''] env = Some [ToValid (al_Level l), ToValid (al_Message l)]"
    if "Data env = Some p" for env
    using that by (simp add: strings_of_def payload_members_def)
  then show ?thesis
    using p by (auto simp: marshal_app_log_def ms_def)
qed

end
