(* ===== verification/Restart.thy ===== *)
theory Restart
  imports Gateway
begin

text \<open>
  The end of a gateway process and the start of the next one over the same directory: what
  \<open>Shutdown\<close> or a crash leaves of the fallback files, and what the next fallback writer finds.
\<close>

section \<open>Closing with a file being replayed\<close>

lemma fb_Close_peeking:
  assumes "store_inv fw w"
  shows "fb_Close fw w = (case peekState fw of None \<Rightarrow> fb_Close fw w | Some pk \<Rightarrow> fb_Close (fw\<lparr>peekState := None\<rparr>) (tick w))"
proof -
  have "no_faults w"
    using assms by (simp add: store_inv_def readable_def)
  then show ?thesis
    by (simp add: fb_Close_def file_Close_def split: option.splits)
qed

lemma fb_Close_all:
  assumes "store_inv fw w"
  shows "\<exists>fw' w'. fb_Close fw w = (None, fw', w') \<and> current fw' = None \<and> peekState fw' = None \<and>
    store_inv fw' w' \<and> pending fw' w' = backlog (fw\<lparr>peekState := None\<rparr>) w"
proof (cases "peekState fw")
  case None
  then show ?thesis
    using fb_Close_ok [OF assms None] unfolding pending_reopen_None [OF None] by blast
next
  case (Some pk)
  have "store_inv (fw\<lparr>peekState := None\<rparr>) (tick w)"
    using store_inv_reset [OF assms] by simp
  from fb_Close_ok [OF this] show ?thesis
    using fb_Close_peeking [OF assms] Some by simp
qed

lemma close_current_frame:
  "close_current e h fw w = (r, fw', w') \<Longrightarrow> kafka_calls w' = kafka_calls w \<and> panicked w' = panicked w"
  by (auto simp: close_current_def fh_Sync_def file_Sync_def fh_Close_def file_Close_def os_Rename_def
      split: option.splits prod.splits if_splits)

lemma fb_Close_frame:
  "fb_Close fw w = (r, fw', w') \<Longrightarrow> kafka_calls w' = kafka_calls w \<and> panicked w' = panicked w"
  by (auto simp: fb_Close_def file_Close_def Let_def split: option.splits if_splits dest: close_current_frame)

section \<open>Which files are left unrolled\<close>

definition only_active :: "FallbackWriter \<Rightarrow> world \<Rightarrow> bool" where
  "only_active fw w \<longleftrightarrow> (\<forall>n \<in> set (map fst (dirents w)). stale n \<longrightarrow> current fw \<noteq> None \<and> n = currentPath fw)"

lemma not_stale_rolled: "\<not> stale (n @ ''.done'')"
  by (auto simp: stale_def HasSuffix_def suffix_def)

lemma fb_Close_dirents:
  assumes "store_inv fw w" "fb_Close fw w = (r, fw', w')"
  shows "dirents w' = (case current fw of None \<Rightarrow> dirents w
    | Some h \<Rightarrow> (currentPath fw @ ''.done'', h_ino h) # unlink (currentPath fw @ ''.done'') (unlink (currentPath fw) (dirents w)))"
proof -
  have nf: "failing w = None" "failing (tick w) = None" "failing (tick (tick w)) = None" "failing (tick (tick (tick w))) = None"
    using assms(1) by (simp_all add: store_inv_def readable_def no_faults_def)
  have act: "current fw = Some h \<Longrightarrow> \<not> h_closed h \<and> map_of (dirents w) (currentPath fw) = Some (h_ino h)" for h
    using assms(1) by (simp add: store_inv_def active_ok_def)
  show ?thesis
    using assms(2) nf act
    by (cases "current fw"; cases "peekState fw")
      (auto simp: fb_Close_def close_current_def fh_Sync_def file_Sync_def fh_Close_def file_Close_def os_Rename_def Let_def)
qed

lemma fb_Close_stale:
  assumes "store_inv fw w" "only_active fw w" "fb_Close fw w = (r, fw', w')"
  shows "filter stale (sort (map fst (dirents w'))) = []"
  using fb_Close_dirents [OF assms(1,3)] assms(2)
  by (auto simp: only_active_def filter_empty_conv unlink_def not_stale_rolled split: option.splits)

section \<open>Starting over a directory\<close>

lemma NewFallbackWriter_clean:
  assumes "store_inv fw w" "current fw = None" "peekState fw = None" "filter stale (sort (map fst (dirents w))) = []"
  shows "\<exists>fw' w'. NewFallbackWriter mfs mf w = (Inr fw', w') \<and> current fw' = None \<and> store_inv fw' w' \<and>
    pending fw' w' = pending fw w \<and> kafka_calls w' = kafka_calls w \<and> panicked w' = panicked w"
proof -
  let ?new = "\<lparr>maxFileSize = mfs, maxFiles = mf, current = None, currentPath = [], currentSize = 0, peekState = None\<rparr>"
  have nf: "no_faults w"
    using assms(1) by (simp add: store_inv_def readable_def)
  have "adopt_loop (sort (map fst (dirents w))) w1 = (None, w1)" for w1
    by (subst adopt_loop_filter) (simp add: assms(4))
  then have "adoptStaleLogs (tick w) = (None, tick (tick w))"
    using nf by (simp add: adoptStaleLogs_def os_ReadDir_def)
  moreover have "no_faults (tick (tick w))"
    using nf by (simp add: no_faults_def)
  ultimately have "NewFallbackWriter mfs mf w = (Inr ?new, set_files_gauge (tick (tick w)))"
    "set_files_gauge (tick (tick w)) = metric (FallbackFilesSet (length (done_files (dirents w)))) (tick (tick (tick w)))"
    using nf set_files_gauge_ok [of "tick (tick w)"] by (simp_all add: NewFallbackWriter_def os_MkdirAll_def)
  moreover have "store_inv ?new (tick (tick (tick w)))"
    by (rule store_inv_closed [of fw]) (use assms in simp_all)
  moreover have "pending ?new w = pending fw w"
    using assms(3) pending_unread [of ?new fw w] by simp
  ultimately show ?thesis
    by simp
qed


section \<open>Shutdown and restart\<close>

text \<open>
  The directory a process leaves: after \<open>Shutdown\<close>, or as it is when the process is killed between two
  operations.
\<close>

definition exit_world :: "(bool \<times> (string \<Rightarrow> bool)) option \<Rightarrow> Manager \<Rightarrow> world \<Rightarrow> world" where
  "exit_world how m w = (case how of None \<Rightarrow> w | Some (ctx_done, close_fails) \<Rightarrow> snd (m_Shutdown ctx_done close_fails m w))"

lemma m_Shutdown_world:
  "fb_Close (fallback m) w = (r, fw', w') \<Longrightarrow> snd (m_Shutdown b cf m w) = w'"
  by (simp add: m_Shutdown_def Let_def kw_Close_def)

lemma os_Rename_frame:
  "os_Rename a b w = (r, w') \<Longrightarrow> kafka_calls w' = kafka_calls w \<and> panicked w' = panicked w"
  by (auto simp: os_Rename_def split: if_splits option.splits)

lemma adopt_loop_frame:
  "adopt_loop ns w = (r, w') \<Longrightarrow> kafka_calls w' = kafka_calls w \<and> panicked w' = panicked w"
proof (induction ns arbitrary: w)
  case (Cons n ns)
  obtain q w1 where "os_Rename n (n @ ''.done'') w = (q, w1)"
    by (cases "os_Rename n (n @ ''.done'') w")
  then show ?case
    using Cons.IH [of w] Cons.IH [of w1] Cons.prems os_Rename_frame [of n "n @ ''.done''" w q w1]
    by (cases q) (auto split: if_splits)
qed simp

lemma adoptStaleLogs_frame:
  "adoptStaleLogs w = (r, w') \<Longrightarrow> kafka_calls w' = kafka_calls w \<and> panicked w' = panicked w"
  by (auto simp: adoptStaleLogs_def os_ReadDir_def split: if_splits dest: adopt_loop_frame)

lemma set_files_gauge_frame: "kafka_calls (set_files_gauge w) = kafka_calls w" "panicked (set_files_gauge w) = panicked w"
  by (simp_all add: set_files_gauge_def listDoneFiles_def os_ReadDir_def)

lemma NewFallbackWriter_frame:
  assumes "NewFallbackWriter mfs mf w = (Inr fw', w')"
  shows "kafka_calls w' = kafka_calls w \<and> panicked w' = panicked w"
  using assms
  by (auto simp: NewFallbackWriter_def os_MkdirAll_def set_files_gauge_frame
      split: if_splits option.splits prod.splits dest!: adoptStaleLogs_frame)

lemma distinct_singleton: "set xs = {x} \<Longrightarrow> distinct xs \<Longrightarrow> xs = [x]"
  by (cases xs) (auto simp: subset_singleton_iff)

lemma restart_ok:
  assumes "store_inv fw w" "only_active fw w"
  shows "\<exists>fw' w'. NewFallbackWriter mfs mf w = (Inr fw', w') \<and> current fw' = None \<and> store_inv fw' w' \<and>
    pending fw' w' = backlog (fw\<lparr>peekState := None\<rparr>) w"
proof (cases "current fw")
  case None
  then have "filter stale (sort (map fst (dirents w))) = []"
    using assms(2) by (auto simp: only_active_def filter_empty_conv)
  then show ?thesis
    using NewFallbackWriter_clean [OF store_inv_reset [OF assms(1)], of mfs mf] None
    by (auto simp: backlog_def active_def)
next
  case (Some h)
  obtain t where t: "currentPath fw = FormatInt t @ ''.log''" "newest t fw w"
    and act: "map_of (dirents w) (currentPath fw) = Some (h_ino h)" and dis: "distinct (map fst (dirents w))"
    using assms(1) Some by (auto simp: store_inv_def active_ok_def readable_def wf_world_def)
  have st: "stale (currentPath fw)" "currentPath fw \<in> set (map fst (dirents w))"
    using t(1) rolled_name(2) [OF t] act by (simp_all add: stale_def HasSuffix_def suffix_def map_of_eq_None_iff domI) (metis domI dom_map_of_conv_image_fst)
  then have "set (filter stale (sort (map fst (dirents w)))) = {currentPath fw}"
    using assms(2) by (auto simp: only_active_def)
  moreover have "distinct (filter stale (sort (map fst (dirents w))))"
    using dis by simp
  ultimately have "filter stale (sort (map fst (dirents w))) = [currentPath fw]"
    by (rule distinct_singleton)
  from NewFallbackWriter_adopts [OF assms(1) Some this] show ?thesis
    by blast
qed

end
