(* ===== verification/Crash.thy ===== *)
theory Crash
  imports Restart "HOL-Library.Sublist"
begin

text \<open>
  What the fallback files are like whenever a process ends, by \<open>Shutdown\<close> or killed: the only file that is
  not rolled is the active one, and the file being replayed has not been removed. Every operation
  of the writer and the manager keeps this, a start establishes it, and so the next start finds every
  record that was kept.
\<close>

section \<open>Tidy directories\<close>

text \<open>
  The file being replayed is still in the directory, and what is left to read of it is the end of its records.
\<close>

definition peek_tidy :: "FallbackWriter \<Rightarrow> world \<Rightarrow> bool" where
  "peek_tidy fw w \<longleftrightarrow>
     (\<forall>pk. peekState fw = Some pk \<longrightarrow> map_of (dirents w) (pk_path pk) = Some (pk_file pk) \<and>
        suffix (records (drop (pk_pos pk) (inodes w (pk_file pk)))) (records (inodes w (pk_file pk))))"

definition tidy :: "FallbackWriter \<Rightarrow> world \<Rightarrow> bool" where
  "tidy fw w \<longleftrightarrow> only_active fw w \<and> peek_tidy fw w"

text \<open>Reading the file from its start again finds at least what was left of it.\<close>

lemma backlog_reread:
  assumes "store_inv fw w" "tidy fw w"
  shows "mset (backlog fw w) \<subseteq># mset (backlog (fw\<lparr>peekState := None\<rparr>) w)"
proof (cases "peekState fw")
  case (Some pk)
  have pk: "map_of (dirents w) (pk_path pk) = Some (pk_file pk)"
    "suffix (records (drop (pk_pos pk) (inodes w (pk_file pk)))) (records (inodes w (pk_file pk)))"
    using assms(2) Some by (simp_all add: tidy_def peek_tidy_def)
  let ?ds = "done_files (dirents w)"
  have "pk_path pk \<in> set ?ds"
    using assms(1) Some pk(1) by (auto simp: store_inv_def set_done_files dest!: map_of_SomeD intro: rev_image_eqI)
  moreover have "distinct ?ds"
    using assms(1) by (auto simp: store_inv_def readable_def wf_world_def intro: distinct_done_files)
  ultimately obtain xs ys where xs: "?ds = xs @ pk_path pk # ys" "pk_path pk \<notin> set xs" "pk_path pk \<notin> set ys"
    by (auto dest!: split_list)
  moreover have "filter (\<lambda>n. n \<noteq> pk_path pk) zs = zs" if "pk_path pk \<notin> set zs" for zs
    using that by (induction zs) auto
  ultimately have "filter (\<lambda>n. n \<noteq> pk_path pk) ?ds = xs @ ys"
    by simp
  then show ?thesis
    using pk Some xs(1)
    by (auto simp: backlog_def active_def pending_def file_content_def suffix_def ac_simps)
qed (simp add: pending_reopen_None)

section \<open>Reading\<close>

lemma only_active_shrinks:
  "only_active fw w \<Longrightarrow> current fw' = current fw \<Longrightarrow> currentPath fw' = currentPath fw \<Longrightarrow>
   fst ` set (dirents w') \<subseteq> fst ` set (dirents w) \<Longrightarrow> only_active fw' w'"
  by (auto simp: only_active_def)

lemma gauge_dirents [simp]: "dirents (set_files_gauge w) = dirents w" "inodes (set_files_gauge w) = inodes w"
  by (simp_all add: set_files_gauge_def listDoneFiles_def os_ReadDir_def)

lemma os_Remove_shrinks: "fst ` set (dirents (snd (os_Remove n w))) \<subseteq> fst ` set (dirents w)"
  by (auto simp: os_Remove_def split: option.splits)

lemma open_tidy:
  assumes "openOldestDone fw w = (r, fw', w')" "tidy fw w"
  shows "tidy fw' w'"
proof -
  obtain ds w1 where l: "listDoneFiles w = (ds, w1)" "dirents w1 = dirents w" "inodes w1 = inodes w"
    by (cases "listDoneFiles w") (auto simp: listDoneFiles_def os_ReadDir_def split: if_splits)
  then have "tidy fw w1"
    using assms(2) by (simp add: tidy_def only_active_def peek_tidy_def)
  then show ?thesis
    using assms(1) l
    by (auto simp: openOldestDone_def os_Open_def tidy_def only_active_def peek_tidy_def
        split: sum.splits list.splits option.splits if_splits)
qed

lemma scan_tidy:
  assumes "scan_turn pk fw w = Inl (r, fw', w') \<or> scan_turn pk fw w = Inr (fw', w')" "tidy fw w" "peekState fw = Some pk"
  shows "tidy fw' w'"
proof -
  let ?rest = "drop (pk_pos pk) (inodes w (pk_file pk))"
  let ?line = "takeWhile (\<lambda>c. c \<noteq> CHR 0x0A) ?rest"
  have adv: "suffix (records (drop (pk_pos pk + length ?line + 1) (inodes w (pk_file pk)))) (records (inodes w (pk_file pk)))"
    if "?rest \<noteq> []"
  proof -
    have "suffix (records (drop (length ?line + 1) ?rest)) (records ?rest)"
      using records_unfold [OF that refl] by (simp add: suffix_def)
    then show ?thesis
      using assms(2,3) by (auto simp: tidy_def peek_tidy_def add.commute intro: suffix_order.trans)
  qed
  show ?thesis
  proof (cases "failing w = None \<and> ?rest \<noteq> [] \<and> length ?line < maxLine")
    case True
    then have "fw' = fw\<lparr>peekState := Some (pk\<lparr>pk_pos := pk_pos pk + length ?line + 1\<rparr>)\<rparr>" "w' = tick w"
      using assms(1) by (auto simp: scan_turn_def scan_line_def Let_def split: option.splits)
    then show ?thesis
      using assms(2,3) adv True by (simp add: tidy_def peek_tidy_def only_active_def)
  next
    case False
    then have "fw' = fw\<lparr>peekState := None\<rparr>"
      "dirents w' = dirents w \<or> dirents w' = dirents (snd (os_Remove (pk_path pk) (tick (tick w))))"
      using assms(1) by (auto simp: scan_turn_def scan_line_def Let_def file_Close_def split: if_splits)
    moreover from this(2) have "fst ` set (dirents w') \<subseteq> fst ` set (dirents w)"
      using os_Remove_shrinks [of "pk_path pk" "tick (tick w)"] by (elim disjE) simp_all
    ultimately show ?thesis
      using assms(2) only_active_shrinks [of fw w fw' w'] by (simp add: tidy_def peek_tidy_def)
  qed
qed

lemma peek_turn_tidy:
  assumes "peek_turn fw w = Inl (r, fw', w') \<or> peek_turn fw w = Inr (fw', w')" "tidy fw w"
  shows "tidy fw' w'"
proof (cases "peekState fw")
  case None
  obtain e fw1 w1 where o1: "openOldestDone fw w = (e, fw1, w1)"
    by (cases "openOldestDone fw w")
  then show ?thesis
    using assms None open_tidy [OF o1 assms(2)] scan_tidy [of _ fw1 w1 r fw' w']
    by (cases e; cases "peekState fw1") (auto simp: peek_turn_def)
next
  case (Some pk)
  then show ?thesis
    using assms scan_tidy [of pk fw w r fw' w'] by (simp add: peek_turn_def)
qed

lemma Peek_tidy:
  assumes "Peek fw w = Some (r, fw', w')" "tidy fw w"
  shows "tidy fw' w'"
proof -
  define Q where "Q = (\<lambda>fw w (res :: peek_result). tidy fw w \<longrightarrow> tidy (fst (snd res)) (snd (snd res)))"
  have "Q fw w (r, fw', w')"
    using assms(1)
  proof (rule Peek.raw_induct [where P = Q, rotated])
    fix P fw w res
    assume IH: "\<And>fw w res. P fw w = Some res \<Longrightarrow> Q fw w res"
      and eq: "(case peek_turn fw w of Inl r \<Rightarrow> Some r | Inr (fw1, w1) \<Rightarrow> P fw1 w1) = Some res"
    show "Q fw w res"
      using eq IH peek_turn_tidy [of fw w] by (cases res) (fastforce simp: Q_def split: sum.splits prod.splits)
  qed
  then show ?thesis
    using assms(2) by (simp add: Q_def)
qed

section \<open>Writing\<close>

lemma length_done_files: "length (done_files ds) = length (filter (\<lambda>n. HasSuffix n ''.log.done'') (map fst ds))"
  by (simp add: done_files_def flip: size_mset)

lemma rotate_dirents:
  assumes nf: "no_faults w" and act: "map_of (dirents w) (currentPath fw) = Some (h_ino h)" "\<not> h_closed h"
    and cur: "current fw = Some h" "room fw w" "rotate fw w = (r, fw', w')"
  shows "fw' = drop_current fw" "inodes w' = inodes w"
    "dirents w' = (currentPath fw @ ''.done'', h_ino h) # unlink (currentPath fw @ ''.done'') (unlink (currentPath fw) (dirents w))"
proof -
  define w1 where "w1 = (tick (tick w))\<lparr>dirents := (currentPath fw @ ''.done'', h_ino h) #
      unlink (currentPath fw @ ''.done'') (unlink (currentPath fw) (dirents w))\<rparr>"
  have shrinks: "length (done_files (unlink a (unlink b ds))) \<le> length (done_files ds)" for a b ds
    by (simp add: done_files_unlink length_filter_le le_trans [OF length_filter_le])
  have "length (done_files (dirents w1)) \<le> Suc (length (done_files (dirents w)))"
    using shrinks [of "currentPath fw @ ''.done''" "currentPath fw" "dirents w"] by (simp add: w1_def length_done_files)
  then have "int (length (done_files (dirents w1))) \<le> maxFiles fw"
    using cur(2) by (simp add: room_def)
  moreover have "no_faults w1"
    using nf by (simp add: w1_def no_faults_def)
  ultimately have "rotate fw w = (None, drop_current fw, metric (FallbackFilesSet (length (done_files (dirents w1)))) (tick w1))"
    using cur(1) nf act
    by (simp add: rotate_def Let_def fh_Close_def file_Close_def os_Rename_def listDoneFiles_ok enforce_max_def flip: w1_def)
  then show "fw' = drop_current fw" "inodes w' = inodes w"
    "dirents w' = (currentPath fw @ ''.done'', h_ino h) # unlink (currentPath fw @ ''.done'') (unlink (currentPath fw) (dirents w))"
    using cur(3) by (auto simp: w1_def)
qed

lemma append_line_tidy:
  assumes inv: "store_inv fw w" and cur: "current fw = Some h" and rm: "room fw w" and td: "tidy fw w"
    and ex: "append_line h body fw w = (r, fw', w')"
  shows "tidy fw' w'"
proof -
  obtain t where t: "currentPath fw = FormatInt t @ ''.log''" "newest t fw w"
    and act: "map_of (dirents w) (currentPath fw) = Some (h_ino h)" "\<not> h_closed h"
      "\<forall>pk. peekState fw = Some pk \<longrightarrow> pk_file pk \<noteq> h_ino h"
    using inv cur by (auto simp: store_inv_def active_ok_def)
  note name = rolled_name [OF t]
  have nf: "no_faults w" and pk: "\<forall>pk. peekState fw = Some pk \<longrightarrow> HasSuffix (pk_path pk) ''.log.done''"
    using inv by (auto simp: store_inv_def readable_def)
  define fw1 where "fw1 = fw\<lparr>currentSize := currentSize fw + int (length body + 1)\<rparr>"
  define w1 where "w1 = metric FallbackWriteInc ((tick w)\<lparr>inodes := (inodes w)(h_ino h := inodes w (h_ino h) @ body @ [CHR 0x0A])\<rparr>)"
  have ap: "append_line h body fw w = (if maxFileSize fw1 \<le> currentSize fw1 then rotate fw1 w1 else (None, fw1, w1))"
    using nf act(2) by (simp add: append_line_def fh_Write_def file_Write_def Let_def fw1_def w1_def)
  have td1: "tidy fw1 w1"
    using td act(3) by (auto simp: tidy_def only_active_def peek_tidy_def fw1_def w1_def)
  show ?thesis
  proof (cases "maxFileSize fw1 \<le> currentSize fw1")
    case True
    then have rot: "rotate fw1 w1 = (r, fw', w')"
      using ap ex by simp
    have w1: "no_faults w1" "map_of (dirents w1) (currentPath fw1) = Some (h_ino h)" "current fw1 = Some h" "room fw1 w1"
      using nf act cur rm by (simp_all add: w1_def fw1_def room_def no_faults_def)
    note dir = rotate_dirents [OF w1(1,2) act(2) w1(3,4) rot]
    have "only_active fw' w'"
      using td1 dir(3) by (auto simp: tidy_def only_active_def dir(1) drop_current_def unlink_def not_stale_rolled)
    moreover have "peek_tidy fw' w'"
      using td1 dir pk name by (auto simp: tidy_def peek_tidy_def drop_current_def map_of_unlink fw1_def)
    ultimately show ?thesis
      by (simp add: tidy_def)
  next
    case False
    then show ?thesis
      using ap ex td1 by simp
  qed
qed

lemma openNew_tidy:
  assumes "store_inv fw w" "current fw = None" "fresh fw w" "tidy fw w" "openNew fw w = (r, fw', w')"
  shows "tidy fw' w'"
proof -
  have "no_faults w" "\<forall>pk. peekState fw = Some pk \<longrightarrow> pk_file pk < next_ino w"
    using assms(1) by (auto simp: store_inv_def readable_def)
  then show ?thesis
    using assms(2-5)
    by (auto simp: openNew_def time_Now_def os_OpenFile_def fresh_def Let_def tidy_def only_active_def peek_tidy_def)
qed

lemma fb_Write_tidy:
  assumes "store_inv fw w" "fresh fw w" "room fw w" "tidy fw w" "fb_Write env fw w = (r, env', fw', w')"
  shows "tidy fw' w'"
proof -
  obtain e fw1 w1 where o1: "(if current fw = None then openNew fw w else (None, fw, w)) = (e, fw1, w1)"
    by (cases "if current fw = None then openNew fw w else (None, fw, w)")
  have td: "tidy fw1 w1"
    using o1 assms openNew_tidy by (auto split: if_splits)
  have "store_inv fw1 w1 \<and> room fw1 w1" 
    using o1 assms(1-3) openNew_ok [OF assms(1)] by (auto simp: fresh_def room_def split: if_splits)
  then show ?thesis
    using assms(5) o1 td append_line_tidy [of fw1 w1]
    by (auto simp: fb_Write_def Let_def split: option.splits prod.splits)
qed

section \<open>The manager\<close>

lemma same_files_tidy: "dirents w' = dirents w \<Longrightarrow> inodes w' = inodes w \<Longrightarrow> tidy fw w' = tidy fw w"
  by (simp add: tidy_def only_active_def peek_tidy_def)

lemma tidy_frame [simp]: "tidy fw (tick w) = tidy fw w" "tidy fw (metric f w) = tidy fw w"
  by (rule same_files_tidy, simp_all)+

lemma kw_Write_files: "kw_Write env k w = (r, env', k', w') \<Longrightarrow> dirents w' = dirents w \<and> inodes w' = inodes w"
  by (auto simp: kw_Write_def send_message_def writerFor_def time_Now_def WriteMessages_def panic_def Let_def
      split: if_splits option.splits prod.splits)

lemma m_Write_tidy:
  assumes "m_inv m w" "writable env m w" "tidy (fallback m) w" "m_Write env m w = (env', m', w')"
  shows "tidy (fallback m') w'"
proof -
  have stored: "tidy (fallback m') w'" if "writeFallback e m1 w1 = (env', m', w')" "m_inv m1 w1" "fallback m1 = fallback m"
    "same_disk w w1" "step w \<le> step w1" for e m1 w1
  proof -
    have "tidy (fallback m1) w1" "room (fallback m1) w1" "fresh (fallback m1) w1" "store_inv (fallback m1) w1"
      using assms(2,3) that(2-5) same_files_tidy [of w1 w] fresh_from_same [OF that(4) _ that(5)]
      by (simp_all add: writable_def room_def same_disk_def m_inv_def)
    then show ?thesis
      using that(1) fb_Write_tidy [of "fallback m1" w1 e] by (auto simp: writeFallback_def split: prod.splits)
  qed
  have send: "sendable env"
    using assms(2) wf_sendable by (simp add: writable_def)
  consider "healthy m" "\<not> kafka_err w (step w + 1)" | "healthy m" "kafka_err w (step w + 1)" | "\<not> healthy m"
    by blast
  then show ?thesis
  proof cases
    case 1
    obtain r e k w1 where kw: "kw_Write env (kafka m) w = (r, e, k, w1)"
      by (cases "kw_Write env (kafka m) w")
    then have "r = None"
      using kw_Write_ok [of "kafka m" w env] assms(1) send 1 by (auto simp: m_inv_def)
    moreover have "tidy (fallback m) w1"
      using kw_Write_files [OF kw] same_files_tidy [of w1 w] assms(3) by simp
    ultimately show ?thesis
      using assms(4) 1 kw by (auto simp: m_Write_def)
  next
    case 2
    then obtain m1 w1 where "m_Write env m w = writeFallback (stamped env) m1 w1" "m_inv m1 w1" "fallback m1 = fallback m"
      "same_disk w w1" "step w \<le> step w1"
      using m_Write_refused [OF assms(1) send] by blast
    then show ?thesis
      using stored [of "stamped env" m1 w1] assms(4) by simp
  next
    case 3
    then show ?thesis
      using stored [of env m w] assms(1,4) by (simp add: m_Write_def same_disk_def)
  qed
qed

text \<open>A turn of the replay: a record is read and sent.\<close>

lemma replay_tidy:
  assumes "Peek fw w = Some (r, fw1, w1)" "kw_Write env k w1 = (e, env1, k1, w2)" "tidy fw w"
  shows "tidy fw1 w1" "tidy fw1 w2"
  using Peek_tidy [OF assms(1,3)] kw_Write_files [OF assms(2)] same_files_tidy [of w2 w1 fw1] by simp_all

lemma drain_tidy:
  assumes "drain deadline m w = Some (m', w')" "tidy (fallback m) w"
  shows "tidy (fallback m') w'"
proof -
  define Q where "Q = (\<lambda>(d :: int) (m :: Manager) w (res :: Manager \<times> world). tidy (fallback m) w \<longrightarrow> tidy (fallback (fst res)) (snd res))"
  have "Q deadline m w (m', w')"
    apply (rule drain.raw_induct [where P = Q, OF _ assms(1)])
    subgoal premises prems for D d m w res
    proof (cases "clock w (step w) < d")
      case True
      then obtain r fw w2 where P: "Peek (fallback m) (tick w) = Some (r, fw, w2)"
        using prems(2) by (auto simp: time_Now_def split: option.splits)
      obtain e env1 k w3 where K: "kw_Write (Env (the r)) (kafka m) w2 = (e, env1, k, w3)"
        by (cases "kw_Write (Env (the r)) (kafka m) w2")
      note td = replay_tidy [OF P K]
      have "D d (m\<lparr>fallback := fw, kafka := k\<rparr>) (metric (FallbackReplay ''success'') w3) = Some res \<or>
          fallback (fst res) = fw \<and>
            snd res \<in> {w2, w3, metric (KafkaHealthy False) (metric (FallbackReplay ''error'') w3)}"
        using prems(2) True P K by (cases r; cases e) (auto simp: time_Now_def Ack_def set_healthy_def split: if_splits)
      then show ?thesis
        using prems(1) td by (fastforce simp: Q_def)
    qed (use prems(2) in \<open>auto simp: time_Now_def Q_def\<close>)
    done
  then show ?thesis
    using assms(2) by (simp add: Q_def)
qed

lemma recovery_tick_tidy:
  assumes "recovery_tick up m w = Some (m', w')" "tidy (fallback m) w"
  shows "tidy (fallback m') w'"
proof (cases "stopped m \<or> healthy m")
  case False
  then obtain r fw w1 where P: "Peek (fallback m) w = Some (r, fw, w1)"
    using assms(1) by (auto simp: recovery_tick_def tryRecover_def split: option.splits)
  obtain e env1 k w2 where K: "kw_Write (Env (the r)) (kafka m) w1 = (e, env1, k, w2)"
    by (cases "kw_Write (Env (the r)) (kafka m) w1")
  note td = replay_tidy [OF P K assms(2)]
  consider "r = None" | rec where "r = Some rec" "e = None" | rec err where "r = Some rec" "e = Some err"
    by (cases r; cases e) auto
  then show ?thesis
  proof cases
    case 1
    then show ?thesis
      using assms(1) False P td(1)
      by (auto simp: recovery_tick_def tryRecover_def probe_health_def set_healthy_def split: option.splits)
  next
    case 2
    then have "\<exists>d. drain d (set_healthy True (m\<lparr>fallback := fw, kafka := k\<rparr>))
        (tick (metric (KafkaHealthy True) (metric (FallbackReplay ''success'') w2))) = Some (m', w')"
      using assms(1) False P K by (auto simp: recovery_tick_def tryRecover_def time_Now_def Ack_def)
    then show ?thesis
      using drain_tidy td(2) by (fastforce simp: set_healthy_def)
  next
    case 3
    then show ?thesis
      using assms(1) False P K td(2) by (auto simp: recovery_tick_def tryRecover_def split: if_splits)
  qed
qed (use assms in \<open>simp add: recovery_tick_def\<close>)

section \<open>Starting\<close>

lemma adopt_loop_names:
  "adopt_loop ns w = (None, w') \<Longrightarrow> n \<in> fst ` set (dirents w') \<Longrightarrow> stale n \<Longrightarrow> n \<in> fst ` set (dirents w) \<and> n \<notin> set ns"
proof (induction ns arbitrary: w)
  case (Cons a ns)
  show ?case
  proof (cases "stale a")
    case False
    then show ?thesis
      using Cons by (auto simp: stale_def)
  next
    case True
    then obtain w1 i where "os_Rename a (a @ ''.done'') w = (None, w1)" "adopt_loop ns w1 = (None, w')"
      "dirents w1 = (a @ ''.done'', i) # unlink (a @ ''.done'') (unlink a (dirents w))"
      using Cons.prems(1) by (auto simp: stale_def os_Rename_def split: option.splits prod.splits)
    then show ?thesis
      using Cons.IH [of w1] Cons.prems(2,3) not_stale_rolled [of a] by auto
  qed
qed simp

lemma NewFallbackWriter_tidy:
  assumes "NewFallbackWriter mfs mf w = (Inr fw, w')"
  shows "tidy fw w'"
proof -
  obtain w1 w2 where w: "adoptStaleLogs w1 = (None, w2)" "dirents w' = dirents w2"
    using assms by (auto simp: NewFallbackWriter_def split: option.splits prod.splits)
  have "\<not> stale n" if "n \<in> fst ` set (dirents w2)" for n
    using w(1) adopt_loop_names [of "sort (map fst (dirents w1))" "tick w1" w2 n] that
    by (auto simp: adoptStaleLogs_def os_ReadDir_def split: if_splits)
  moreover have "peekState fw = None"
    using assms by (auto simp: NewFallbackWriter_def split: option.splits prod.splits)
  ultimately show ?thesis
    by (auto simp: tidy_def only_active_def peek_tidy_def w(2))
qed

section \<open>The writer behind the handlers\<close>

definition gw_tidy :: "gateway \<Rightarrow> bool" where
  "gw_tidy g \<longleftrightarrow> tidy (fallback (fst g)) (snd g)"

interpretation gwt: retrying_writer "\<lambda>g. gw_good g \<and> gw_tidy g" gw_fits gw_sent gw_kept record_message
  "\<lambda>env. stored (stamped env)" manager_write gw_tick record_message
proof unfold_locales
  fix g env assume ok: "gw_good g \<and> gw_tidy g" "gw_fits env g"
  then have "gw_tidy (snd (manager_write env g))"
    using m_Write_tidy [of "fst g" "snd g" env]
    by (cases "m_Write env (fst g) (snd g)") (simp add: gw_good_def gw_tidy_def gw_fits_def manager_write_def)
  then show "(gw_good (snd (manager_write env g)) \<and> gw_tidy (snd (manager_write env g))) \<and>
      (gw_sent (snd (manager_write env g)) = gw_sent g @ [record_message env] \<and>
         gw_kept (snd (manager_write env g)) = gw_kept g \<or>
       gw_sent (snd (manager_write env g)) = gw_sent g \<and>
         gw_kept (snd (manager_write env g)) = gw_kept g @ [stored (stamped env)])"
    using gw.put_law ok by blast
next
  show "gw_good g \<and> gw_tidy g \<Longrightarrow> \<exists>g' lost. gw_tick up g = Some g' \<and> (gw_good g' \<and> gw_tidy g') \<and> length lost \<le> 1 \<and>
      mset (gw_sent g') + mset (map record_message (gw_kept g')) + mset lost =
      mset (gw_sent g) + mset (map record_message (gw_kept g))" for g up
    using gwr.retry_law [of g up] recovery_tick_tidy [of up "fst g" "snd g"]
    by (fastforce simp: gw_tidy_def gw_tick_def)
qed (use gw.observe_law gwr.again_law in \<open>auto simp: gw_tidy_def observe_def\<close>)

section \<open>The next start\<close>

text \<open>
  After a shutdown, whatever its deadline and whatever Kafka's writers answer, or after the process was killed between
  two operations, the start succeeds and the records of the rolled files and of the active one wait for replay.
\<close>

lemma start_after_exit:
  assumes "m_inv m w" "only_active (fallback m) w"
  shows "\<exists>m' w'. start_writers cf (exit_world how m w) = (Inr m', w') \<and> m_inv m' w' \<and> current (fallback m') = None \<and>
    pending (fallback m') w' = backlog ((fallback m)\<lparr>peekState := None\<rparr>) w \<and> delivered w' = delivered w"
proof -
  let ?mfs = "fc_MaxFileSize (cf_Fallback cf)" and ?mf = "fc_MaxFiles (cf_Fallback cf)"
  have inv: "store_inv (fallback m) w" "\<not> panicked w"
    using assms(1) by (simp_all add: m_inv_def)
  obtain fw' w' where "NewFallbackWriter ?mfs ?mf (exit_world how m w) = (Inr fw', w')" "current fw' = None"
    "store_inv fw' w'" "pending fw' w' = backlog ((fallback m)\<lparr>peekState := None\<rparr>) w"
    "kafka_calls (exit_world how m w) = kafka_calls w" "panicked (exit_world how m w) = panicked w"
  proof (cases how)
    case None
    then show thesis
      using restart_ok [OF inv(1) assms(2), of ?mfs ?mf] that by (auto simp: exit_world_def)
  next
    case (Some h)
    obtain fw1 w1 where cl: "fb_Close (fallback m) w = (None, fw1, w1)" "current fw1 = None" "peekState fw1 = None"
      "store_inv fw1 w1" "pending fw1 w1 = backlog ((fallback m)\<lparr>peekState := None\<rparr>) w"
      using fb_Close_all [OF inv(1)] by blast
    moreover have "exit_world how m w = w1"
      using Some m_Shutdown_world [OF cl(1)] by (cases h) (simp add: exit_world_def)
    ultimately show thesis
      using NewFallbackWriter_clean [OF cl(4,2,3) fb_Close_stale [OF inv(1) assms(2) cl(1)], of ?mfs ?mf]
        fb_Close_frame [OF cl(1)] that by auto
  qed
  moreover from this(1) have "kafka_calls w' = kafka_calls (exit_world how m w)" "panicked w' = panicked (exit_world how m w)"
    using NewFallbackWriter_frame by blast+
  ultimately show ?thesis
    using inv(2)
    by (simp add: start_writers_def NewManager_def NewKafkaWriter_def m_inv_def kw_inv_def delivered_def Let_def)
qed

text \<open>The next process finds every record the last one kept; those it had replayed from the open file again.\<close>

lemma restart_sound:
  assumes "gw_good g" "gw_tidy g" "exit_world how (fst g) (snd g) = w"
  shows "\<exists>g'. start_writers cf w = (Inr (fst g'), snd g') \<and> gw_good g' \<and> gw_sent g' = gw_sent g \<and>
    gw_kept g' = backlog ((fallback (fst g))\<lparr>peekState := None\<rparr>) (snd g) \<and>
    mset (map record_message (gw_kept g)) \<subseteq># mset (map record_message (gw_kept g'))"
proof -
  have inv: "m_inv (fst g) (snd g)" "only_active (fallback (fst g)) (snd g)" "tidy (fallback (fst g)) (snd g)"
    using assms(1,2) by (simp_all add: gw_good_def gw_tidy_def tidy_def)
  then obtain m' w' where st: "start_writers cf w = (Inr m', w')" "m_inv m' w'" "current (fallback m') = None"
    "pending (fallback m') w' = backlog ((fallback (fst g))\<lparr>peekState := None\<rparr>) (snd g)" "delivered w' = delivered (snd g)"
    using start_after_exit [of "fst g" "snd g" cf how] assms(3) by blast
  have "gw_kept (m', w') = backlog ((fallback (fst g))\<lparr>peekState := None\<rparr>) (snd g)"
    using st(3,4) by (simp add: gw_kept_def backlog_def [of "fallback m'"] active_def)
  moreover from this have "mset (gw_kept g) \<subseteq># mset (gw_kept (m', w'))"
    using backlog_reread inv by (simp add: m_inv_def gw_kept_def [of g])
  ultimately show ?thesis
    using st by (intro exI [of _ "(m', w')"]) (simp add: gw_good_def gw_sent_def image_mset_subseteq_mono)
qed

end
