(* ===== verification/Version.thy ===== *)
theory Version
  imports Prelude
begin

text \<open>The build metadata of \<open>internal/version/version.go\<close> and its text.\<close>

text \<open>The variables the build may replace, with their defaults.\<close>

record build_info =
  ProjectName :: string
  BuildVersion :: string
  GitCommit :: string
  GitMsg :: string
  BuildDate :: string

definition default_build :: build_info where
  "default_build = \<lparr>ProjectName = ''unknown'', BuildVersion = ''dev'', GitCommit = ''unknown'', GitMsg = ''unknown'',
     BuildDate = ''unknown''\<rparr>"

definition StringWithAppEnv :: "build_info \<Rightarrow> string \<Rightarrow> string" where
  "StringWithAppEnv b appEnv =
     ''project='' @ ProjectName b @ [CHR 0x0A] @ ''version='' @ BuildVersion b @ [CHR 0x0A] @
     ''git_commit='' @ GitCommit b @ [CHR 0x0A] @ ''git_msg='' @ GitMsg b @ [CHR 0x0A] @
     ''build_date='' @ BuildDate b @
     (if appEnv \<noteq> [] then CHR 0x0A # ''app_env='' @ appEnv else [])"

definition version_String :: "build_info \<Rightarrow> string" where
  "version_String b = StringWithAppEnv b []"

end
