(* ===== verification/Process.thy ===== *)
theory Process
  imports Gateway Server_Props Crash Version
begin

text \<open>
  The whole gateway process of \<open>cmd/server/main.go\<close>: the TCP server reads frames and calls \<open>Enqueue\<close>, the
  workers of both queues dispatch to the writer, its recovery loop ticks, and \<open>main\<close> waits for a signal
  and then shuts the parts down in order. A step is one atomic action of one of these goroutines.
\<close>

section \<open>State\<close>

text \<open>A read loop inside \<open>Enqueue\<close>: in its select, or past it with result true or false.\<close>

datatype put_state = InSelect | PutDone bool

text \<open>
  Where \<open>main\<close> is: before the signal, in \<open>srv.Shutdown\<close>, there in \<open>StopEnqueue\<close> of one of the queues, in
  \<open>Close\<close> of one of them, past \<open>manager.Shutdown\<close>; or the process has ended with status 1.
\<close>

datatype main_phase =
    AwaitSignal | InShutdown | StoppingNormal | StoppingCritical | ClosingNormal | ClosingCritical | MainDone | Aborted

text \<open>\<open>puts\<close> are the connections whose read loop is inside \<open>Enqueue\<close>, with the queue and the envelope.\<close>

record Process =
  srv :: Server
  gw :: Gateway
  puts :: "(nat \<times> bool \<times> Envelope \<times> put_state) list"
  mainAt :: main_phase
  final :: "gateway option"

definition server_config_of :: "Config \<Rightarrow> server_config" where
  "server_config_of cf =
     \<lparr>Address = sc_Address (cf_Server cf), MaxConnections = sc_MaxConnections (cf_Server cf),
      MaxMessageSize = sc_MaxMessageSize (cf_Server cf), ConnReadTimeout = sd_ConnReadTimeout (cf_Shutdown cf)\<rparr>"

text \<open>\<open>Inl\<close> is the exit with status 1, \<open>None\<close> a panic.\<close>

definition start_process :: "Config \<Rightarrow> world \<Rightarrow> (error + Process) option" where
  "start_process cf w =
     (case start_writers cf w of
        (Inl e, w1) \<Rightarrow> Some (Inl e)
      | (Inr m, w1) \<Rightarrow>
          (case start_queues cf (m, w1) of
             None \<Rightarrow> None
           | Some G \<Rightarrow>
               Some (Inr \<lparr>srv = Server.New (server_config_of cf), gw = G, puts = [], mainAt = AwaitSignal, final = None\<rparr>)))"

text \<open>\<open>main\<close> with the value of its flag: it prints the version and returns, exits with status 1, or runs.\<close>

datatype main_outcome = PrintedVersion string | ExitStatus1 error | Started Process

definition server_main ::
  "(nat \<Rightarrow> nat \<Rightarrow> nat \<Rightarrow> nat) \<Rightarrow> build_info \<Rightarrow> bool \<Rightarrow> environ \<Rightarrow> world \<Rightarrow> main_outcome option" where
  "server_main fmul b showVersion env w =
     (if showVersion then Some (PrintedVersion (StringWithAppEnv b (appEnv env)))
      else map_option (\<lambda>r. case r of Inl e \<Rightarrow> ExitStatus1 e | Inr P \<Rightarrow> Started P) (start_process (Load fmul env) w))"

lemma server_main_started:
  assumes "server_main fmul b showVersion env w = Some (Started P)"
  shows "start_process (Load fmul env) w = Some (Inr P)" "0 < sc_CriticalWorkerCount (cf_Server (Load fmul env))"
proof -
  obtain r where "start_process (Load fmul env) w = Some r" "(case r of Inl e \<Rightarrow> ExitStatus1 e | Inr P \<Rightarrow> Started P) = Started P"
    using assms by (auto simp: server_main_def split: if_splits)
  then show "start_process (Load fmul env) w = Some (Inr P)"
    by (cases r) simp_all
qed (simp add: Load_def getPositiveInt_pos)

section \<open>Reading and enqueueing\<close>

definition queue_act :: "bool \<Rightarrow> Envelope action \<Rightarrow> Gateway \<Rightarrow> Gateway option" where
  "queue_act critical a G = gw_exec (if critical then Critical a else Normal a) G"

definition the_queue :: "bool \<Rightarrow> Gateway \<Rightarrow> (Envelope, gateway) Queue" where
  "the_queue critical G = (if critical then criticalQ G else normalQ G)"

definition put_of :: "nat \<Rightarrow> Process \<Rightarrow> (bool \<times> Envelope \<times> put_state) option" where
  "put_of cid P = map_of (puts P) cid"

definition set_put :: "nat \<Rightarrow> (bool \<times> Envelope \<times> put_state) option \<Rightarrow> Process \<Rightarrow> Process" where
  "set_put cid p P =
     P\<lparr>puts := (case p of None \<Rightarrow> [] | Some x \<Rightarrow> [(cid, x)]) @ filter (\<lambda>q. fst q \<noteq> cid) (puts P)\<rparr>"

text \<open>
  A turn of a read loop up to its call of \<open>Enqueue\<close>; on a closed queue the call returns false at once and
  the loop ends.
\<close>

definition read_turn :: "nat \<Rightarrow> Process \<Rightarrow> Process option" where
  "read_turn cid P =
     (case (put_of cid P, map_of (conns (srv P)) cid) of
        (None, Some bytes) \<Rightarrow>
          (case serve_turn (cfg (srv P)) bytes of
             TurnPut c env rest \<Rightarrow>
               (case queue_act c (Enter env) (gw P) of
                  None \<Rightarrow> None
                | Some G \<Rightarrow>
                    if closed (the_queue c (gw P)) then Some (P\<lparr>srv := end_serve cid (srv P), gw := G\<rparr>)
                    else Some (set_put cid (Some (c, env, InSelect)) (P\<lparr>srv := set_bytes cid rest (srv P), gw := G\<rparr>)))
           | _ \<Rightarrow> map_option (\<lambda>s. P\<lparr>srv := s\<rparr>) (serve_step cid False (srv P)))
      | _ \<Rightarrow> None)"

text \<open>The select of \<open>Enqueue\<close> takes the channel, into the buffer or to a waiting worker, or the closed \<open>done\<close>.\<close>

definition put_accept :: "nat \<Rightarrow> nat option \<Rightarrow> Process \<Rightarrow> Process option" where
  "put_accept cid receiver P =
     (case put_of cid P of
        Some (c, env, InSelect) \<Rightarrow>
          (case queue_act c (case receiver of None \<Rightarrow> Send env | Some i \<Rightarrow> Handoff env i) (gw P) of
             None \<Rightarrow> None
           | Some G \<Rightarrow>
               Some (set_put cid (Some (c, env, PutDone True))
                 (P\<lparr>srv := (srv P)\<lparr>queued := queued (srv P) @ [(c, env)]\<rparr>, gw := G\<rparr>)))
      | _ \<Rightarrow> None)"

definition put_refuse :: "nat \<Rightarrow> Process \<Rightarrow> Process option" where
  "put_refuse cid P =
     (case put_of cid P of
        Some (c, env, InSelect) \<Rightarrow>
          (case queue_act c (SeeDone env) (gw P) of
             None \<Rightarrow> None
           | Some G \<Rightarrow> Some (set_put cid (Some (c, env, PutDone False)) (P\<lparr>gw := G\<rparr>)))
      | _ \<Rightarrow> None)"

definition put_return :: "nat \<Rightarrow> Process \<Rightarrow> Process option" where
  "put_return cid P =
     (case put_of cid P of
        Some (c, env, PutDone ok) \<Rightarrow>
          (case queue_act c (Return ok) (gw P) of
             None \<Rightarrow> None
           | Some G \<Rightarrow>
               Some (set_put cid None (P\<lparr>srv := (if ok then srv P else end_serve cid (srv P)), gw := G\<rparr>)))
      | _ \<Rightarrow> None)"

section \<open>The steps\<close>

fun worker_action :: "'e action \<Rightarrow> bool" where
  "worker_action (Recv i) = True"
| "worker_action (Finish i) = True"
| "worker_action (WorkerDone i) = True"
| "worker_action (Waited i) = True"
| "worker_action (DrainExit i) = True"
| "worker_action _ = False"

text \<open>
  The steps of the server that touch no queue; those of its \<open>Shutdown\<close> are steps of \<open>main\<close>, while it is in
  the loops there.
\<close>

fun server_only :: "main_phase \<Rightarrow> server_action \<Rightarrow> bool" where
  "server_only ph (ServeTurn _ _) = False"
| "server_only ph ShutdownCall = False"
| "server_only ph CtxDone = False"
| "server_only ph SeeAcceptDone = (ph = InShutdown)"
| "server_only ph SeeNoConns = (ph = InShutdown)"
| "server_only ph GoroutinesDone = (ph = InShutdown)"
| "server_only ph _ = True"

datatype proc_action =
    ServerStep server_action
  | ReadTurn nat
  | PutAccept nat "nat option"
  | PutRefuse nat
  | PutReturn nat
  | WorkerStep bool "Envelope action"
  | TickStep "string \<Rightarrow> bool"
  | Signal                           \<comment> \<open>\<open>srv.Shutdown\<close> is called\<close>
  | Deadline                         \<comment> \<open>its context is done, \<open>StopEnqueue\<close> of the normal queue is called\<close>
  | StopCritical                     \<comment> \<open>it has returned, that of the critical queue is called\<close>
  | ForceClose                       \<comment> \<open>it has returned, \<open>forceCloseAll\<close>\<close>
  | CloseNormal                      \<comment> \<open>\<open>srv.Shutdown\<close> has returned, \<open>normalQ.Close\<close> is called\<close>
  | CloseCritical                    \<comment> \<open>it has returned, \<open>criticalQ.Close\<close> is called\<close>
  | ManagerShutdown bool "string \<Rightarrow> bool"
  | ExitOnError                      \<comment> \<open>\<open>srv.Start\<close> has returned an error: \<open>os.Exit(1)\<close>\<close>

text \<open>\<open>main\<close> calls \<open>StopEnqueue\<close>, alone or from \<open>Close\<close>, and waits in it.\<close>

definition main_stops :: "bool \<Rightarrow> main_phase \<Rightarrow> Process \<Rightarrow> Process option" where
  "main_stops c ph P = map_option (\<lambda>G. P\<lparr>gw := G, mainAt := ph\<rparr>) (queue_act c StopEnqueue (gw P))"

fun proc_step :: "proc_action \<Rightarrow> Process \<Rightarrow> Process option" where
  "proc_step (ServerStep a) P =
     (if server_only (mainAt P) a then map_option (\<lambda>s. P\<lparr>srv := s\<rparr>) (server_exec a (srv P)) else None)"
| "proc_step (ReadTurn cid) P = read_turn cid P"
| "proc_step (PutAccept cid r) P = put_accept cid r P"
| "proc_step (PutRefuse cid) P = put_refuse cid P"
| "proc_step (PutReturn cid) P = put_return cid P"
| "proc_step (WorkerStep c a) P =
     (if worker_action a then map_option (\<lambda>G. P\<lparr>gw := G\<rparr>) (queue_act c a (gw P)) else None)"
| "proc_step (TickStep up) P =
     (if final P = None then map_option (\<lambda>G. P\<lparr>gw := G\<rparr>) (gw_exec (RecoveryTick up) (gw P)) else None)"
| "proc_step Signal P =
     (if mainAt P = AwaitSignal
      then map_option (\<lambda>s. P\<lparr>srv := s, mainAt := InShutdown\<rparr>) (server_exec ShutdownCall (srv P)) else None)"
| "proc_step Deadline P =
     (if mainAt P = InShutdown \<and> (phase (srv P) = AwaitAccept \<or> phase (srv P) = AwaitConns)
      then main_stops False StoppingNormal P else None)"
| "proc_step StopCritical P =
     (if mainAt P = StoppingNormal \<and> stopped_q (normalQ (gw P)) then main_stops True StoppingCritical P else None)"
| "proc_step ForceClose P =
     (if mainAt P = StoppingCritical \<and> stopped_q (criticalQ (gw P))
      then map_option (\<lambda>s. P\<lparr>srv := s, mainAt := InShutdown\<rparr>) (server_exec CtxDone (srv P)) else None)"
| "proc_step CloseNormal P =
     (if mainAt P = InShutdown \<and> phase (srv P) = ShutdownReturned then main_stops False ClosingNormal P else None)"
| "proc_step CloseCritical P =
     (if mainAt P = ClosingNormal \<and> Close_returns (normalQ (gw P)) then main_stops True ClosingCritical P else None)"
| "proc_step (ManagerShutdown expired close_fails) P =
     (if mainAt P = ClosingCritical \<and> Close_returns (criticalQ (gw P))
      then Some (P\<lparr>mainAt := MainDone,
             final := Some (m_Shutdown expired close_fails (fst (sink (normalQ (gw P)))) (snd (sink (normalQ (gw P)))))\<rparr>)
      else None)"
| "proc_step ExitOnError P =
     (if acceptDone (srv P) \<and> listener (srv P) = NoListener then Some (P\<lparr>mainAt := Aborted\<rparr>) else None)"

definition proc_exec :: "proc_action \<Rightarrow> Process \<Rightarrow> Process option" where
  "proc_exec a P = (if mainAt P = Aborted then None else proc_step a P)"

section \<open>Invariant\<close>

fun accepts :: "'e action \<Rightarrow> 'e list" where
  "accepts (Send e) = [e]"
| "accepts (Handoff e i) = [e]"
| "accepts _ = []"

lemma exec_accepts: "exec fn a q = Some q' \<Longrightarrow> accepted q' = accepted q @ accepts a"
  by (cases a) (auto simp: enter_def send_def handoff_def see_done_def producer_return_def recv_def finish_def
      stop_enqueue_def Let_def split: if_splits list.splits worker.splits)

lemma exec_after_close:
  assumes "Close_returns q" "exec fn a q = Some q'"
  shows "Close_returns q' \<and> sink q' = sink q"
proof -
  have idle: "blocked q = []" "reporting q = 0" "leaving q = 0" "closed q" "worker_at i q = Exited" for i
    using assms(1) by (auto simp: Close_returns_def stopped_q_def no_producers_def worker_at_def)
  have "q' = q \<or> (\<exists>e. q' = q\<lparr>rejected := rejected q @ [e]\<rparr>)"
    using assms(2) idle
    by (cases a) (auto simp: enter_def send_def handoff_def see_done_def producer_return_def recv_def finish_def
        stop_enqueue_def Let_def split: if_splits list.splits)
  then show ?thesis
    using assms(1) by (auto simp: Close_returns_def stopped_q_def no_producers_def)
qed

lemma Close_returns_sink [simp]: "Close_returns (q\<lparr>sink := s\<rparr>) = Close_returns q"
  by (simp add: Close_returns_def stopped_q_def no_producers_def)

lemma queue_act_reach: "queue_act c a G = Some G' \<Longrightarrow> reach gw_exec G0 G \<Longrightarrow> reach gw_exec G0 G'"
  unfolding queue_act_def by (rule reach_step)

lemma queue_act_effect:
  assumes "queue_act c a G = Some G'"
  shows "accepted (the_queue d G') = accepted (the_queue d G) @ (if d = c then accepts a else [])"
    "Close_returns (the_queue d G) \<Longrightarrow> Close_returns (the_queue d G')"
    "sink (criticalQ G') = sink (normalQ G')"
    "Close_returns (normalQ G) \<Longrightarrow> Close_returns (criticalQ G) \<Longrightarrow> sink (criticalQ G) = sink (normalQ G) \<Longrightarrow>
     sink (normalQ G') = sink (normalQ G)"
  using assms
  by (auto simp: queue_act_def the_queue_def exec_accepts dest: exec_after_close split: if_splits option.splits)

definition queued_on :: "bool \<Rightarrow> Server \<Rightarrow> Envelope list" where
  "queued_on c s = map snd (filter (\<lambda>p. fst p = c) (queued s))"

text \<open>What \<open>main\<close> has waited for stays as it was when it went on.\<close>

definition main_ok :: "main_phase \<Rightarrow> gateway option \<Rightarrow> Gateway \<Rightarrow> bool" where
  "main_ok ph fin G \<longleftrightarrow>
     (ph \<in> {ClosingCritical, MainDone} \<longrightarrow> Close_returns (normalQ G)) \<and>
     (case fin of
        None \<Rightarrow> ph \<noteq> MainDone
      | Some g \<Rightarrow> ph \<in> {MainDone, Aborted} \<and> Close_returns (normalQ G) \<and> Close_returns (criticalQ G) \<and>
          (\<exists>b f. g = m_Shutdown b f (fst (sink (normalQ G))) (snd (sink (normalQ G)))))"

definition proc_inv :: "Gateway \<Rightarrow> Process \<Rightarrow> bool" where
  "proc_inv G0 P \<longleftrightarrow>
     reach gw_exec G0 (gw P) \<and> sink (criticalQ (gw P)) = sink (normalQ (gw P)) \<and>
     (\<forall>c. queued_on c (srv P) = accepted (the_queue c (gw P))) \<and> main_ok (mainAt P) (final P) (gw P)"

lemma main_ok_queue:
  assumes "main_ok ph fin G" "queue_act c a G = Some G'" "sink (criticalQ G) = sink (normalQ G)"
  shows "main_ok ph fin G'"
proof -
  note eff = queue_act_effect [OF assms(2)]
  have "Close_returns (normalQ G) \<Longrightarrow> Close_returns (normalQ G')" "Close_returns (criticalQ G) \<Longrightarrow> Close_returns (criticalQ G')"
    using eff(2) [of False] eff(2) [of True] by (simp_all add: the_queue_def)
  then show ?thesis
    using assms(1,3) eff(4) by (auto simp: main_ok_def split: option.splits)
qed

text \<open>A step of a queue with what it puts on record at the server.\<close>

lemma proc_inv_queue:
  assumes "proc_inv G0 P" "queue_act c a (gw P) = Some (gw P')"
    "mainAt P' = mainAt P" "final P' = final P" "queued (srv P') = queued (srv P) @ map (Pair c) (accepts a)"
  shows "proc_inv G0 P'"
proof -
  have "queued_on d (srv P') = queued_on d (srv P) @ (if d = c then accepts a else [])" for d
    using assms(5) by (auto simp: queued_on_def comp_def filter_map)
  moreover have "main_ok (mainAt P) (final P) (gw P')"
    using assms(1,2) main_ok_queue by (auto simp: proc_inv_def)
  ultimately show ?thesis
    using assms(1,3,4) queue_act_reach [OF assms(2)] queue_act_effect(1,3) [OF assms(2)] by (simp add: proc_inv_def)
qed

text \<open>A step of the server alone.\<close>

lemma proc_inv_server:
  "proc_inv G0 P \<Longrightarrow> gw P' = gw P \<Longrightarrow> mainAt P' = mainAt P \<Longrightarrow> final P' = final P \<Longrightarrow>
   queued (srv P') = queued (srv P) \<Longrightarrow> proc_inv G0 P'"
  by (simp add: proc_inv_def queued_on_def)

lemma queued_frame [simp]:
  "queued (end_serve cid s) = queued s" "queued (set_bytes cid b s) = queued s"
  by (simp_all add: end_serve_def set_bytes_def)

lemma server_only_queued: "server_exec a s = Some s' \<Longrightarrow> server_only ph a \<or> a = ShutdownCall \<or> a = CtxDone \<Longrightarrow> queued s' = queued s"
  by (cases a) (auto simp: start_call_def start_listen_def accept_conn_def shutdown_call_def shutdown_force_def
      forceCloseAll_def split: if_splits)

lemma set_put_frame [simp]:
  "srv (set_put cid p P) = srv P" "gw (set_put cid p P) = gw P" "mainAt (set_put cid p P) = mainAt P"
  "final (set_put cid p P) = final P"
  by (simp_all add: set_put_def)

lemma read_turn_inv:
  assumes "proc_inv G0 P" "read_turn cid P = Some P'"
  shows "proc_inv G0 P'"
proof -
  obtain bytes where b: "map_of (conns (srv P)) cid = Some bytes"
    using assms(2) by (auto simp: read_turn_def split: option.splits)
  show ?thesis
  proof (cases "serve_turn (cfg (srv P)) bytes")
    case (TurnPut c env rest)
    then have "queue_act c (Enter env) (gw P) = Some (gw P')" "mainAt P' = mainAt P" "final P' = final P"
      "queued (srv P') = queued (srv P) @ map (Pair c) (accepts (Enter env))"
      using assms(2) b by (auto simp: read_turn_def split: option.splits if_splits)
    then show ?thesis
      using proc_inv_queue [OF assms(1)] by blast
  qed (use assms b in \<open>auto simp: read_turn_def serve_step_def intro!: proc_inv_server [OF assms(1)] split: option.splits\<close>)
qed

lemma put_inv:
  assumes "proc_inv G0 P"
  shows "put_accept cid r P = Some P' \<Longrightarrow> proc_inv G0 P'" "put_refuse cid P = Some P' \<Longrightarrow> proc_inv G0 P'"
    "put_return cid P = Some P' \<Longrightarrow> proc_inv G0 P'"
proof -
  assume "put_accept cid r P = Some P'"
  then obtain c env where "queue_act c (case r of None \<Rightarrow> Send env | Some i \<Rightarrow> Handoff env i) (gw P) = Some (gw P')"
    "mainAt P' = mainAt P" "final P' = final P" "queued (srv P') = queued (srv P) @ [(c, env)]"
    by (auto simp: put_accept_def split: option.splits put_state.splits)
  then show "proc_inv G0 P'"
    using proc_inv_queue [OF assms, of c "case r of None \<Rightarrow> Send env | Some i \<Rightarrow> Handoff env i" P']
    by (cases r) simp_all
next
  assume "put_refuse cid P = Some P'"
  then obtain c env where "queue_act c (SeeDone env) (gw P) = Some (gw P')"
    "mainAt P' = mainAt P" "final P' = final P" "queued (srv P') = queued (srv P)"
    by (auto simp: put_refuse_def split: option.splits put_state.splits)
  then show "proc_inv G0 P'"
    using proc_inv_queue [OF assms, of c "SeeDone env" P'] by simp
next
  assume "put_return cid P = Some P'"
  then obtain c ok where "queue_act c (Return ok) (gw P) = Some (gw P')"
    "mainAt P' = mainAt P" "final P' = final P" "queued (srv P') = queued (srv P)"
    by (auto simp: put_return_def split: option.splits put_state.splits)
  then show "proc_inv G0 P'"
    using proc_inv_queue [OF assms, of c "Return ok" P'] by simp
qed

text \<open>The steps of \<open>main\<close>; a queue it closes is in order before it moves on.\<close>

lemma proc_inv_main:
  "proc_inv G0 P \<Longrightarrow> gw P' = gw P \<Longrightarrow> main_ok (mainAt P') (final P') (gw P) \<Longrightarrow> queued (srv P') = queued (srv P) \<Longrightarrow>
   proc_inv G0 P'"
  by (simp add: proc_inv_def queued_on_def)

lemma main_stops_inv:
  assumes "proc_inv G0 P" "main_stops c ph P = Some P'" "final P = None" "ph \<noteq> MainDone"
    "ph = ClosingCritical \<Longrightarrow> Close_returns (normalQ (gw P))"
  shows "proc_inv G0 P'"
proof -
  obtain G where G: "queue_act c StopEnqueue (gw P) = Some G" "P' = P\<lparr>gw := G, mainAt := ph\<rparr>"
    using assms(2) by (auto simp: main_stops_def)
  have "proc_inv G0 (P\<lparr>gw := G\<rparr>)"
    using proc_inv_queue [OF assms(1), of c StopEnqueue "P\<lparr>gw := G\<rparr>"] G(1) by simp
  moreover have "main_ok ph None G"
    using assms(4,5) queue_act_effect(2) [OF G(1), of False] by (auto simp: main_ok_def the_queue_def)
  ultimately show ?thesis
    using proc_inv_main [of G0 "P\<lparr>gw := G\<rparr>" P'] assms(3) by (simp add: G(2))
qed

lemma server_step_inv:
  assumes "proc_inv G0 P" "server_exec a (srv P) = Some s" "a = ShutdownCall \<or> a = CtxDone" "final P = None"
  shows "proc_inv G0 (P\<lparr>srv := s, mainAt := InShutdown\<rparr>)"
  using proc_inv_main [OF assms(1), of "P\<lparr>srv := s, mainAt := InShutdown\<rparr>"] server_only_queued [OF assms(2)] assms(3,4)
  by (auto simp: main_ok_def)

lemma not_final: "proc_inv G0 P \<Longrightarrow> mainAt P \<notin> {MainDone, Aborted} \<Longrightarrow> final P = None"
  by (cases "final P") (auto simp: proc_inv_def main_ok_def)

lemma main_ok_aborted: "main_ok ph fin G \<Longrightarrow> main_ok Aborted fin G"
  by (cases fin) (simp_all add: main_ok_def)

lemma tick_inv:
  assumes "proc_inv G0 P" "proc_step (TickStep up) P = Some P'"
  shows "proc_inv G0 P'"
proof -
  have "final P = None" "gw_exec (RecoveryTick up) (gw P) = Some (gw P')" "mainAt P' = mainAt P" "final P' = final P" "srv P' = srv P"
    using assms(2) by (auto simp del: gw_exec.simps split: if_splits)
  moreover from this(2) obtain g where "gw P' = (gw P)\<lparr>normalQ := (normalQ (gw P))\<lparr>sink := g\<rparr>,
      criticalQ := (criticalQ (gw P))\<lparr>sink := g\<rparr>, history := history (gw P) @ [Retried up]\<rparr>"
    by (auto split: option.splits dest: sym)
  moreover from this have "accepted (the_queue c (gw P')) = accepted (the_queue c (gw P))"
    "Close_returns (normalQ (gw P')) = Close_returns (normalQ (gw P))" "sink (criticalQ (gw P')) = sink (normalQ (gw P'))" for c
    by (simp_all add: the_queue_def)
  ultimately show ?thesis
    using assms(1) reach_step [of gw_exec G0 "gw P" "RecoveryTick up" "gw P'"]
    by (simp add: proc_inv_def main_ok_def del: gw_exec.simps)
qed

lemma proc_inv_step:
  assumes inv: "proc_inv G0 P" and ex: "proc_step a P = Some P'"
  shows "proc_inv G0 P'"
proof (cases a)
  case (ServerStep b)
  then show ?thesis
    using ex server_only_queued [of b "srv P" "srv P'" "mainAt P"]
    by (intro proc_inv_server [OF inv]) (auto split: if_splits)
next
  case (WorkerStep c b)
  then have "queue_act c b (gw P) = Some (gw P')" "mainAt P' = mainAt P" "final P' = final P" "srv P' = srv P" "worker_action b"
    using ex by (auto split: if_splits)
  moreover from this(5) have "accepts b = []"
    by (cases b) simp_all
  ultimately show ?thesis
    using proc_inv_queue [OF inv, of c b P'] by simp
next
  case (TickStep up)
  then show ?thesis
    using tick_inv [OF inv] ex by blast
next
  case (ReadTurn cid)
  then show ?thesis
    using assms read_turn_inv by simp
next
  case (ManagerShutdown b f)
  then show ?thesis
    using ex inv proc_inv_main [OF inv, of P'] by (fastforce simp: proc_inv_def main_ok_def split: if_splits)
next
  case ExitOnError
  then show ?thesis
    using ex inv proc_inv_main [OF inv, of P'] main_ok_aborted
    by (auto simp: proc_inv_def split: if_splits)
qed (use ex not_final [OF inv] in \<open>auto intro: put_inv [OF inv] main_stops_inv [OF inv] server_step_inv [OF inv]
    simp del: server_exec.simps split: if_splits\<close>)

lemma proc_inv_exec: "proc_inv G0 P \<Longrightarrow> proc_exec a P = Some P' \<Longrightarrow> proc_inv G0 P'"
  using proc_inv_step by (auto simp: proc_exec_def split: if_splits)

interpretation proc: invariant_machine proc_exec "proc_inv G0" for G0
  by unfold_locales (rule proc_inv_exec)

section \<open>The end of a process\<close>

lemma start_process_inv:
  assumes "start_process cf w = Some (Inr P)"
  shows "start_queues cf (sink (normalQ (gw P))) = Some (gw P)" "proc_inv (gw P) P" "queued (srv P) = []"
proof -
  obtain m w1 G where st: "start_writers cf w = (Inr m, w1)" "start_queues cf (m, w1) = Some G"
    "P = \<lparr>srv = Server.New (server_config_of cf), gw = G, puts = [], mainAt = AwaitSignal, final = None\<rparr>"
    using assms by (auto simp: start_process_def split: prod.splits sum.splits option.splits)
  have q: "sink (normalQ G) = (m, w1)" "sink (criticalQ G) = (m, w1)" "accepted (normalQ G) = []" "accepted (criticalQ G) = []"
    using st(2) by (auto simp: start_queues_def NewNamed_def Start_def split: if_splits)
  show "start_queues cf (sink (normalQ (gw P))) = Some (gw P)" "queued (srv P) = []"
    using st q by (simp_all add: Server.New_def)
  show "proc_inv (gw P) P"
    using st(3) q by (simp add: proc_inv_def main_ok_def queued_on_def the_queue_def Server.New_def reach_init)
qed

lemma mset_queued: "mset (map snd (queued s)) = mset (queued_on False s) + mset (queued_on True s)"
proof -
  have "mset (map snd ps) = mset (map snd (filter (\<lambda>p. fst p = False) ps)) + mset (map snd (filter (\<lambda>p. fst p = True) ps))"
    for ps :: "(bool \<times> Envelope) list"
    by (induction ps) auto
  then show ?thesis
    by (simp add: queued_on_def)
qed

text \<open>When \<open>main\<close> is done both queues are closed and the server's record is what they accepted.\<close>

lemma process_done:
  assumes "start_process cf w = Some (Inr P0)" "reach proc_exec P0 P" "final P = Some fin"
  shows "reach gw_exec (gw P0) (gw P)" "Close_returns (normalQ (gw P))" "Close_returns (criticalQ (gw P))"
    "mset (map snd (queued (srv P))) = mset (accepted (normalQ (gw P)) @ accepted (criticalQ (gw P)))"
    "\<exists>b f. fin = m_Shutdown b f (fst (sink (normalQ (gw P)))) (snd (sink (normalQ (gw P))))"
proof -
  have inv: "proc_inv (gw P0) P"
    using proc.inv_reach [OF assms(2) start_process_inv(2) [OF assms(1)]] .
  then show "reach gw_exec (gw P0) (gw P)" "Close_returns (normalQ (gw P))" "Close_returns (criticalQ (gw P))"
    "\<exists>b f. fin = m_Shutdown b f (fst (sink (normalQ (gw P)))) (snd (sink (normalQ (gw P))))"
    using assms(3) by (simp_all add: proc_inv_def main_ok_def)
  show "mset (map snd (queued (srv P))) = mset (accepted (normalQ (gw P)) @ accepted (criticalQ (gw P)))"
    unfolding mset_queued using inv by (simp add: proc_inv_def the_queue_def)
qed

section \<open>What is enqueued\<close>

text \<open>
  The envelopes the server has put into a queue, and those its read loops hold inside \<open>Enqueue\<close>: decoded from
  a frame, of the protocol's version and for the queue of their topic.
\<close>

definition typed_entry :: "bool \<Rightarrow> Envelope \<Rightarrow> bool" where
  "typed_entry c env \<longleftrightarrow>
     wf_envelope env \<and> \<not> WriteRaw env \<and> Version env = EnvVersion \<and> (c \<longleftrightarrow> Topic env = TopicEventTracks)"

definition typed :: "Process \<Rightarrow> bool" where
  "typed P \<longleftrightarrow>
     (\<forall>(c, env) \<in> set (queued (srv P)). typed_entry c env) \<and> (\<forall>(cid, c, env, st) \<in> set (puts P). typed_entry c env)"

lemma serve_turn_typed: "serve_turn sc bytes = TurnPut c env rest \<Longrightarrow> typed_entry c env"
  by (auto simp: serve_turn_def typed_entry_def split: sum.splits prod.splits if_splits dest: readFrame_wf)

lemma typed_set_put:
  "typed P \<Longrightarrow> typed_entry c env \<Longrightarrow> typed (set_put cid (Some (c, env, st)) P)" "typed P \<Longrightarrow> typed (set_put cid None P)"
  by (auto simp: typed_def set_put_def)

lemma typed_put_of: "typed P \<Longrightarrow> put_of cid P = Some (c, env, st) \<Longrightarrow> typed_entry c env"
  by (auto simp: typed_def put_of_def dest!: map_of_SomeD)

lemma typed_frame: "typed P \<Longrightarrow> puts P' = puts P \<Longrightarrow> queued (srv P') = queued (srv P) \<Longrightarrow> typed P'"
  by (simp add: typed_def)

lemma read_turn_typed:
  assumes "typed P" "read_turn cid P = Some P'"
  shows "typed P'"
proof -
  obtain bytes where b: "map_of (conns (srv P)) cid = Some bytes"
    using assms(2) by (auto simp: read_turn_def split: option.splits)
  show ?thesis
  proof (cases "serve_turn (cfg (srv P)) bytes")
    case (TurnPut c env rest)
    then obtain G where "P' = P\<lparr>srv := end_serve cid (srv P), gw := G\<rparr> \<or>
        P' = set_put cid (Some (c, env, InSelect)) (P\<lparr>srv := set_bytes cid rest (srv P), gw := G\<rparr>)"
      using assms(2) b by (auto simp: read_turn_def split: option.splits if_splits)
    moreover have "typed (P\<lparr>srv := end_serve cid (srv P), gw := G\<rparr>)" "typed (P\<lparr>srv := set_bytes cid rest (srv P), gw := G\<rparr>)"
      by (rule typed_frame [OF assms(1)], simp_all)+
    ultimately show ?thesis
      using typed_set_put(1) [OF _ serve_turn_typed [OF TurnPut]] by blast
  qed (use assms b in \<open>auto simp: read_turn_def serve_step_def intro!: typed_frame [OF assms(1)] split: option.splits\<close>)
qed

lemma put_typed:
  assumes "typed P"
  shows "put_accept cid r P = Some P' \<Longrightarrow> typed P'" "put_refuse cid P = Some P' \<Longrightarrow> typed P'" "put_return cid P = Some P' \<Longrightarrow> typed P'"
proof -
  show "typed P'" if ex: "put_accept cid r P = Some P'"
  proof -
    obtain c env G where st: "put_of cid P = Some (c, env, InSelect)"
      "P' = set_put cid (Some (c, env, PutDone True)) (P\<lparr>srv := (srv P)\<lparr>queued := queued (srv P) @ [(c, env)]\<rparr>, gw := G\<rparr>)"
      using ex by (auto simp: put_accept_def split: option.splits put_state.splits)
    moreover have "typed (P\<lparr>srv := (srv P)\<lparr>queued := queued (srv P) @ [(c, env)]\<rparr>, gw := G\<rparr>)"
      using assms typed_put_of [OF assms st(1)] by (auto simp: typed_def)
    ultimately show ?thesis
      using typed_set_put(1) [OF _ typed_put_of [OF assms st(1)]] by blast
  qed
  show "typed P'" if ex: "put_refuse cid P = Some P'"
  proof -
    obtain c env G where "put_of cid P = Some (c, env, InSelect)" "P' = set_put cid (Some (c, env, PutDone False)) (P\<lparr>gw := G\<rparr>)"
      using ex by (auto simp: put_refuse_def split: option.splits put_state.splits)
    then show ?thesis
      using typed_set_put(1) typed_put_of [OF assms] typed_frame [OF assms, of "P\<lparr>gw := G\<rparr>"] by simp
  qed
  show "typed P'" if ex: "put_return cid P = Some P'"
  proof -
    obtain ok G where "P' = set_put cid None (P\<lparr>srv := (if ok then srv P else end_serve cid (srv P)), gw := G\<rparr>)"
      using ex by (auto simp: put_return_def split: option.splits put_state.splits)
    then show ?thesis
      using typed_set_put(2) typed_frame [OF assms, of "P\<lparr>srv := (if ok then srv P else end_serve cid (srv P)), gw := G\<rparr>"] by simp
  qed
qed

lemma typed_step:
  assumes "typed P" "proc_step a P = Some P'"
  shows "typed P'"
proof -
  consider cid where "a = ReadTurn cid" | cid r where "a = PutAccept cid r" | cid where "a = PutRefuse cid" | cid where "a = PutReturn cid"
    | "puts P' = puts P \<and> queued (srv P') = queued (srv P)"
    using assms(2)
    by (cases a) (auto simp: main_stops_def simp del: server_exec.simps gw_exec.simps split: if_splits
        dest: server_only_queued [of _ _ _ "mainAt P"])
  then show ?thesis
    using assms(2) by cases (auto intro: read_turn_typed [OF assms(1)] put_typed [OF assms(1)] typed_frame [OF assms(1)])
qed

interpretation typed: invariant_machine proc_exec typed
  by unfold_locales (auto simp: proc_exec_def split: if_splits intro: typed_step)

lemma start_process_typed: "start_process cf w = Some (Inr P) \<Longrightarrow> typed P"
  by (auto simp: start_process_def typed_def Server.New_def split: prod.splits sum.splits option.splits)

end
