(* ===== verification/Process_Ends.thy ===== *)
theory Process_Ends
  imports Process
begin

text \<open>
  The shutdown of the process ends: the read loops inside \<open>Enqueue\<close> are the producers of the queues, so
  whatever \<open>main\<close> waits for always has a goroutine that can act, and a measure bounds their steps.
\<close>

section \<open>The read loops inside Enqueue are the producers of the queues\<close>

definition producers :: "('e, 's) Queue \<Rightarrow> 'e multiset \<times> nat \<times> nat" where
  "producers q = (mset (blocked q), reporting q, leaving q)"

text \<open>The read loops in \<open>Enqueue\<close> of one queue: in its select, past it with true, past it with false.\<close>

definition put_counts :: "bool \<Rightarrow> (nat \<times> bool \<times> Envelope \<times> put_state) multiset \<Rightarrow> Envelope multiset \<times> nat \<times> nat" where
  "put_counts c M =
     (let here = filter_mset (\<lambda>p. fst (snd p) = c) M in
      (image_mset (\<lambda>p. fst (snd (snd p))) (filter_mset (\<lambda>p. snd (snd (snd p)) = InSelect) here),
       size (filter_mset (\<lambda>p. snd (snd (snd p)) = PutDone True) here),
       size (filter_mset (\<lambda>p. snd (snd (snd p)) = PutDone False) here)))"

definition puts_ok :: "Process \<Rightarrow> bool" where
  "puts_ok P \<longleftrightarrow> distinct (map fst (puts P)) \<and> (\<forall>c. producers (the_queue c (gw P)) = put_counts c (mset (puts P)))"

lemma producers_frame [simp]: "producers (q\<lparr>sink := s\<rparr>) = producers q" "producers (reportDepth q) = producers q"
  "producers (set_worker i wk q) = producers q"
  by (simp_all add: producers_def)

lemma put_counts_other [simp]: "c \<noteq> d \<Longrightarrow> put_counts d (add_mset (cid, c, y) M) = put_counts d M"
  by (simp add: put_counts_def)

lemma put_counts_add:
  "put_counts c (add_mset (cid, c, env, InSelect) M) = (case put_counts c M of (s, r, l) \<Rightarrow> (add_mset env s, r, l))"
  "put_counts c (add_mset (cid, c, env, PutDone True) M) = (case put_counts c M of (s, r, l) \<Rightarrow> (s, Suc r, l))"
  "put_counts c (add_mset (cid, c, env, PutDone False) M) = (case put_counts c M of (s, r, l) \<Rightarrow> (s, r, Suc l))"
  by (simp_all add: put_counts_def Let_def)

lemma put_leaves:
  assumes "distinct (map fst (puts P))" "put_of cid P = Some x"
  shows "mset (puts P) = add_mset (cid, x) (mset (puts (set_put cid None P)))"
  using mset_remove_key [of "puts P" cid] assms by (simp add: set_put_def put_of_def)

lemma put_moves: "mset (puts (set_put cid (Some y) P)) = add_mset (cid, y) (mset (puts (set_put cid None P)))"
  by (simp add: set_put_def)

lemma put_enters: "put_of cid P = None \<Longrightarrow> mset (puts (set_put cid (Some y) P)) = add_mset (cid, y) (mset (puts P))"
proof -
  assume "put_of cid P = None"
  then have "filter (\<lambda>q. fst q \<noteq> cid) (puts P) = puts P"
    by (auto simp: put_of_def map_of_eq_None_iff intro!: filter_True)
  then show ?thesis
    by (simp add: set_put_def)
qed

lemma distinct_set_put: "distinct (map fst (puts P)) \<Longrightarrow> distinct (map fst (puts (set_put cid p P)))"
  by (cases p) (auto simp: set_put_def distinct_map_filter)

section \<open>The queues of the process\<close>

lemma queue_act_exec: "queue_act c a G = Some G' \<Longrightarrow> exec gw_fn a (the_queue c G) = Some (the_queue c G')"
  by (auto simp: queue_act_def the_queue_def split: if_splits option.splits)

lemma queue_act_other: "queue_act c a G = Some G' \<Longrightarrow> d \<noteq> c \<Longrightarrow> the_queue d G' = (the_queue d G)\<lparr>sink := sink (the_queue c G')\<rparr>"
  by (auto simp: queue_act_def the_queue_def split: if_splits option.splits)

lemma queue_act_enabled: "exec gw_fn a (the_queue c G) = Some q \<Longrightarrow> \<exists>G'. queue_act c a G = Some G'"
  by (auto simp: queue_act_def the_queue_def split: if_splits)

lemma exec_producers:
  assumes "exec fn a q = Some q'" "producers q = (s, r, l)"
  shows "a = Enter e \<Longrightarrow> producers q' = (if closed q then (s, r, l) else (add_mset e s, r, l))"
    "a = Send e \<or> a = Handoff e i \<Longrightarrow> producers q' = (s - {#e#}, Suc r, l)"
    "a = SeeDone e \<Longrightarrow> producers q' = (s - {#e#}, r, Suc l)"
    "a = Return True \<Longrightarrow> producers q' = (s, r - 1, l)"
    "a = Return False \<Longrightarrow> producers q' = (s, r, l - 1)"
    "worker_action a \<or> a = StopEnqueue \<Longrightarrow> producers q' = (s, r, l)"
  using assms
  by (auto simp: producers_def enter_def send_def handoff_def see_done_def producer_return_def recv_def finish_def stop_enqueue_def
      Let_def split: if_splits list.splits worker.splits elim!: worker_action.elims)

lemma puts_ok_queue:
  assumes "puts_ok P" "queue_act c a (gw P) = Some (gw P')" "distinct (map fst (puts P'))"
    "\<And>d. d \<noteq> c \<Longrightarrow> put_counts d (mset (puts P')) = put_counts d (mset (puts P))"
    "producers (the_queue c (gw P')) = put_counts c (mset (puts P'))"
  shows "puts_ok P'"
proof -
  have "producers (the_queue d (gw P')) = put_counts d (mset (puts P'))" for d
    using assms(1,4,5) queue_act_other [OF assms(2), of d] by (cases "d = c") (auto simp: puts_ok_def)
  then show ?thesis
    using assms(3) by (simp add: puts_ok_def)
qed

text \<open>A queue acts and no read loop moves.\<close>

lemma puts_ok_still:
  assumes "puts_ok P" "queue_act c a (gw P) = Some (gw P')" "worker_action a \<or> a = StopEnqueue" "puts P' = puts P"
  shows "puts_ok P'"
proof (rule puts_ok_queue [OF assms(1,2)])
  show "producers (the_queue c (gw P')) = put_counts c (mset (puts P'))"
    using assms exec_producers(6) [OF queue_act_exec [OF assms(2)]] by (cases "producers (the_queue c (gw P))") (simp add: puts_ok_def)
qed (use assms in \<open>simp_all add: puts_ok_def\<close>)

text \<open>A read loop enters \<open>Enqueue\<close>.\<close>

lemma puts_ok_enter:
  assumes "puts_ok P" "queue_act c (Enter env) (gw P) = Some (gw P')" "put_of cid P = None"
    "puts P' = (if closed (the_queue c (gw P)) then puts P else puts (set_put cid (Some (c, env, InSelect)) P))"
  shows "puts_ok P'"
proof (rule puts_ok_queue [OF assms(1,2)])
  show "distinct (map fst (puts P'))"
    using assms(1,4) distinct_set_put by (simp add: puts_ok_def)
  show "producers (the_queue c (gw P')) = put_counts c (mset (puts P'))"
    using assms exec_producers(1) [OF queue_act_exec [OF assms(2)]] put_enters [OF assms(3)]
    by (cases "producers (the_queue c (gw P))") (simp add: puts_ok_def put_counts_add split: prod.split)
  show "put_counts d (mset (puts P')) = put_counts d (mset (puts P))" if "d \<noteq> c" for d
    using assms(4) put_enters [OF assms(3)] that by simp
qed

text \<open>A read loop goes on in \<open>Enqueue\<close>, or leaves it.\<close>

lemma puts_ok_move:
  assumes "puts_ok P" "queue_act c a (gw P) = Some (gw P')" "put_of cid P = Some (c, env, st)"
    "puts P' = puts (set_put cid p P)"
    "(a = Send env \<or> a = Handoff env i) \<and> st = InSelect \<and> p = Some (c, env, PutDone True) \<or>
     a = SeeDone env \<and> st = InSelect \<and> p = Some (c, env, PutDone False) \<or> a = Return ok \<and> st = PutDone ok \<and> p = None"
  shows "puts_ok P'"
proof (rule puts_ok_queue [OF assms(1,2)])
  let ?M = "mset (puts (set_put cid None P))"
  have dis: "distinct (map fst (puts P))" and prod: "producers (the_queue c (gw P)) = put_counts c (mset (puts P))"
    using assms(1) by (simp_all add: puts_ok_def)
  note old = put_leaves [OF dis assms(3)]
  show "distinct (map fst (puts P'))"
    using dis assms(4) distinct_set_put by simp
  show "put_counts d (mset (puts P')) = put_counts d (mset (puts P))" if "d \<noteq> c" for d
    using assms(4,5) old that by (auto simp: put_moves)
  obtain s r l where M: "put_counts c ?M = (s, r, l)"
    by (cases "put_counts c ?M") auto
  note ex = exec_producers [OF queue_act_exec [OF assms(2)]]
  show "producers (the_queue c (gw P')) = put_counts c (mset (puts P'))"
    using assms(4,5) M prod ex(2-5) [of _ _ _] unfolding old
    by (cases ok) (auto simp: put_moves put_counts_add)
qed

section \<open>The invariant of the shutdown\<close>

text \<open>What \<open>main\<close> has done where it is: the phase of the server's \<open>Shutdown\<close> and the queue it has stopped.\<close>

fun main_at :: "main_phase \<Rightarrow> Server \<Rightarrow> Gateway \<Rightarrow> bool" where
  "main_at AwaitSignal s G = (phase s = Serving)"
| "main_at InShutdown s G = (phase s \<noteq> Serving)"
| "main_at StoppingNormal s G = ((phase s = AwaitAccept \<or> phase s = AwaitConns) \<and> closed (normalQ G))"
| "main_at StoppingCritical s G = ((phase s = AwaitAccept \<or> phase s = AwaitConns) \<and> closed (criticalQ G))"
| "main_at ClosingNormal s G = closed (normalQ G)"
| "main_at ClosingCritical s G = closed (criticalQ G)"
| "main_at MainDone s G = True"
| "main_at Aborted s G = True"

definition keys :: "('k \<times> 'v) list \<Rightarrow> 'k set" where
  "keys kvs = set (map fst kvs)"

lemma keys_map_of: "k \<in> keys kvs \<longleftrightarrow> map_of kvs k \<noteq> None"
  by (simp add: keys_def map_of_eq_None_iff)

lemma keys_filter [simp]: "keys (filter (\<lambda>p. fst p \<noteq> k) kvs) = keys kvs - {k}"
  by (induction kvs) (auto simp: keys_def)

lemma keys_Cons [simp]: "keys (p # kvs) = insert (fst p) (keys kvs)" "keys [] = {}"
  by (simp_all add: keys_def)

definition served :: "Process \<Rightarrow> bool" where
  "served P \<longleftrightarrow> keys (puts P) \<subseteq> keys (conns (srv P))"

definition coupled :: "server_config \<Rightarrow> Process \<Rightarrow> bool" where
  "coupled c P \<longleftrightarrow> puts_ok P \<and> served P \<and> server_inv c (srv P) \<and> main_at (mainAt P) (srv P) (gw P)"

lemma keys_same: "map fst kvs = map fst kvs' \<Longrightarrow> keys kvs = keys kvs'"
  by (simp only: keys_def)

lemma conns_frame [simp]:
  "keys (conns (set_bytes cid b s)) = keys (conns s)" "keys (conns (forceCloseAll s)) = keys (conns s)"
  "keys (conns (end_serve cid s)) = keys (conns s) - {cid}"
  by (rule keys_same, simp add: set_bytes_def map_fst_set_bytes del: map_map)
    (rule keys_same, simp_all add: forceCloseAll_def comp_def end_serve_def)

lemma puts_names [simp]: "keys (puts (set_put cid p P)) = (if p = None then {} else {cid}) \<union> (keys (puts P) - {cid})"
  by (cases p) (simp_all add: set_put_def)

lemma put_of_served: "served P \<Longrightarrow> put_of cid P = Some x \<Longrightarrow> \<exists>b. map_of (conns (srv P)) cid = Some b"
  using keys_map_of [of cid "puts P"] keys_map_of [of cid "conns (srv P)"] by (auto simp: served_def put_of_def)

lemma phase_frame [simp]: "phase (end_serve cid s) = phase s" "phase (set_bytes cid b s) = phase s"
  by (simp_all add: end_serve_def set_bytes_def)

lemma main_at_queue:
  assumes "queue_act c a G = Some G'" "phase s' = phase s" "main_at ph s G"
  shows "main_at ph s' G'"
proof -
  have "closed (the_queue d G) \<Longrightarrow> closed (the_queue d G')" for d
    using closed_exec [OF queue_act_exec [OF assms(1)]] queue_act_other [OF assms(1), of d] by (cases "d = c") auto
  from this [of False] this [of True] show ?thesis
    using assms(2,3) by (cases ph) (auto simp: the_queue_def)
qed

lemma server_step_coupled:
  assumes "coupled c P" "server_only (mainAt P) a" "server_exec a (srv P) = Some s"
  shows "coupled c (P\<lparr>srv := s\<rparr>)"
proof -
  have "keys (conns (srv P)) \<subseteq> keys (conns s)"
    using assms(2,3) by (cases a) (auto simp: start_call_def start_listen_def accept_conn_def split: if_splits)
  moreover have "main_at (mainAt P) s (gw P)"
    using assms by (cases a; cases "mainAt P")
      (auto simp: coupled_def start_call_def start_listen_def accept_conn_def set_bytes_def split: if_splits)
  ultimately show ?thesis
    using assms server_exec_inv [OF _ assms(3)] by (auto simp: coupled_def served_def puts_ok_def)
qed

lemma read_turn_coupled:
  assumes "coupled c P" "read_turn cid P = Some P'"
  shows "coupled c P'"
proof -
  obtain bytes where b: "map_of (conns (srv P)) cid = Some bytes" and new: "put_of cid P = None"
    using assms(2) by (auto simp: read_turn_def split: option.splits)
  have ok: "puts_ok P" "served P" "server_inv c (srv P)" "main_at (mainAt P) (srv P) (gw P)"
    using assms(1) by (simp_all add: coupled_def)
  have "cid \<notin> keys (puts P)" "cid \<in> keys (conns (srv P))"
    using new b by (simp_all add: put_of_def keys_map_of)
  show ?thesis
  proof (cases "serve_turn (cfg (srv P)) bytes")
    case (TurnPut d env rest)
    obtain G where G: "queue_act d (Enter env) (gw P) = Some G"
      using assms(2) b new TurnPut by (auto simp: read_turn_def split: option.splits)
    then have P': "P' = (if closed (the_queue d (gw P)) then P\<lparr>srv := end_serve cid (srv P), gw := G\<rparr>
        else set_put cid (Some (d, env, InSelect)) (P\<lparr>srv := set_bytes cid rest (srv P), gw := G\<rparr>))"
      using assms(2) b new TurnPut by (auto simp: read_turn_def)
    have "puts_ok P'"
      by (rule puts_ok_enter [OF ok(1) _ new, of d env]) (use G P' in \<open>simp_all add: set_put_def\<close>)
    moreover have "served P'" "server_inv c (srv P')" "main_at (mainAt P') (srv P') (gw P')"
      using P' ok end_serve_inv [OF ok(3) b] main_at_queue [OF G _ ok(4)] \<open>cid \<notin> _\<close> \<open>cid \<in> _\<close>
      by (auto simp: served_def set_bytes_inv)
    ultimately show ?thesis
      by (simp add: coupled_def)
  next
    case TurnEnd
    then have "P' = P\<lparr>srv := end_serve cid (srv P)\<rparr>"
      using assms(2) b new by (simp add: read_turn_def serve_step_def)
    then show ?thesis
      using ok end_serve_inv [OF ok(3) b] \<open>cid \<notin> _\<close>
      by (cases "mainAt P") (auto simp: coupled_def served_def puts_ok_def)
  next
    case (TurnSkip t rest)
    then have "P' = P\<lparr>srv := set_bytes cid rest ((srv P)\<lparr>smets := MessageObserved t ''version_dropped'' (smets (srv P))\<rparr>)\<rparr>"
      using assms(2) b new by (simp add: read_turn_def serve_step_def)
    moreover have "server_inv c ((srv P)\<lparr>smets := MessageObserved t ''version_dropped'' (smets (srv P))\<rparr>)"
      using ok(3) by (simp add: server_inv_def conn_gauge_def gauge_calls)
    ultimately show ?thesis
      using ok by (cases "mainAt P") (auto simp: coupled_def served_def puts_ok_def set_bytes_inv)
  qed
qed

text \<open>A read loop that goes on in \<open>Enqueue\<close> or leaves it, with what that means for the server.\<close>

lemma move_coupled:
  assumes "coupled c P" "queue_act d a (gw P) = Some G" "put_of cid P = Some (d, env, st)"
    "P' = set_put cid p (P\<lparr>srv := s, gw := G\<rparr>)"
    "(a = Send env \<or> a = Handoff env i) \<and> st = InSelect \<and> p = Some (d, env, PutDone True) \<or>
     a = SeeDone env \<and> st = InSelect \<and> p = Some (d, env, PutDone False) \<or> a = Return ok \<and> st = PutDone ok \<and> p = None"
    "s = (srv P)\<lparr>queued := q\<rparr> \<or> s = end_serve cid (srv P) \<and> p = None"
  shows "coupled c P'"
proof -
  have ok: "puts_ok P" "served P" "server_inv c (srv P)" "main_at (mainAt P) (srv P) (gw P)"
    using assms(1) by (simp_all add: coupled_def)
  obtain b where b: "map_of (conns (srv P)) cid = Some b"
    using put_of_served [OF ok(2) assms(3)] by blast
  have "puts_ok P'"
    by (rule puts_ok_move [OF ok(1) _ assms(3) _ assms(5)]) (use assms(2,4) in \<open>simp_all add: set_put_def\<close>)
  moreover have "cid \<in> keys (conns (srv P))"
    using b by (simp add: keys_map_of)
  then have "served P'"
    using ok(2) assms(4-6) by (auto simp: served_def)
  moreover have "server_inv c (srv P')"
    using assms(4,6) ok(3) end_serve_inv [OF ok(3) b] by (auto simp: server_inv_def conn_gauge_def)
  moreover have "phase (srv P') = phase (srv P)"
    using assms(4,6) by auto
  then have "main_at (mainAt P') (srv P') (gw P')"
    using main_at_queue [OF assms(2) _ ok(4)] assms(4) by simp
  ultimately show ?thesis
    by (simp add: coupled_def)
qed

lemma put_coupled:
  assumes "coupled c P"
  shows "put_accept cid r P = Some P' \<Longrightarrow> coupled c P'" "put_refuse cid P = Some P' \<Longrightarrow> coupled c P'"
    "put_return cid P = Some P' \<Longrightarrow> coupled c P'"
proof -
  show "coupled c P'" if ex: "put_accept cid r P = Some P'"
  proof -
    obtain d env G where st: "put_of cid P = Some (d, env, InSelect)"
      "queue_act d (case r of None \<Rightarrow> Send env | Some i \<Rightarrow> Handoff env i) (gw P) = Some G"
      "P' = set_put cid (Some (d, env, PutDone True)) (P\<lparr>srv := (srv P)\<lparr>queued := queued (srv P) @ [(d, env)]\<rparr>, gw := G\<rparr>)"
      using ex by (auto simp: put_accept_def split: option.splits put_state.splits)
    show ?thesis
      by (rule move_coupled [OF assms st(2,1,3), where i = "the r"]) (cases r, auto)
  qed
  show "coupled c P'" if ex: "put_refuse cid P = Some P'"
  proof -
    obtain d env G where st: "put_of cid P = Some (d, env, InSelect)" "queue_act d (SeeDone env) (gw P) = Some G"
      "P' = set_put cid (Some (d, env, PutDone False)) (P\<lparr>gw := G\<rparr>)"
      using ex by (auto simp: put_refuse_def split: option.splits put_state.splits)
    show ?thesis
      by (rule move_coupled [OF assms st(2,1), of _ _ "srv P" _ _ "queued (srv P)"]) (use st(3) in auto)
  qed
  show "coupled c P'" if ex: "put_return cid P = Some P'"
  proof -
    obtain d env ok G where st: "put_of cid P = Some (d, env, PutDone ok)" "queue_act d (Return ok) (gw P) = Some G"
      "P' = set_put cid None (P\<lparr>srv := (if ok then srv P else end_serve cid (srv P)), gw := G\<rparr>)"
      using ex by (auto simp: put_return_def split: option.splits put_state.splits)
    show ?thesis
      by (rule move_coupled [OF assms st(2,1,3), where q = "queued (srv P)"]) (cases ok, auto)
  qed
qed

lemma coupled_queue:
  assumes "coupled c P" "queue_act d a (gw P) = Some G" "worker_action a \<or> a = StopEnqueue"
    "main_at ph (srv P) G"
  shows "coupled c (P\<lparr>gw := G, mainAt := ph\<rparr>)"
  using assms puts_ok_still [OF _ _ assms(3), of P d "P\<lparr>gw := G, mainAt := ph\<rparr>"] by (simp add: coupled_def served_def)

lemma main_stops_coupled:
  assumes "coupled c P" "main_stops d ph P = Some P'"
    "\<And>G. closed (the_queue d G) \<Longrightarrow> main_at ph (srv P) G"
  shows "coupled c P'"
proof -
  obtain G where G: "queue_act d StopEnqueue (gw P) = Some G" "P' = P\<lparr>gw := G, mainAt := ph\<rparr>"
    using assms(2) by (auto simp: main_stops_def)
  have "closed (the_queue d G)"
    using queue_act_exec [OF G(1)] by (auto simp: stop_enqueue_def dest: sym)
  then show ?thesis
    using coupled_queue [OF assms(1) G(1), of ph] assms(3) G(2) by simp
qed

lemma main_server_coupled:
  assumes "coupled c P" "server_exec a (srv P) = Some s" "a = ShutdownCall \<or> a = CtxDone"
  shows "coupled c (P\<lparr>srv := s, mainAt := InShutdown\<rparr>)"
proof -
  have "keys (conns s) = keys (conns (srv P))" "phase s \<noteq> Serving"
    using assms(2,3) by (auto simp: shutdown_call_def shutdown_force_def split: if_splits)
  then show ?thesis
    using assms(1) server_exec_inv [OF _ assms(2)] by (simp add: coupled_def served_def puts_ok_def)
qed

lemma tick_coupled:
  assumes "coupled c P" "gw_exec (RecoveryTick up) (gw P) = Some G"
  shows "coupled c (P\<lparr>gw := G\<rparr>)"
proof -
  have same: "producers (the_queue d G) = producers (the_queue d (gw P))" "closed (the_queue d G) = closed (the_queue d (gw P))" for d
    using assms(2) by (auto simp: the_queue_def split: option.splits)
  have "main_at (mainAt P) (srv P) G = main_at (mainAt P) (srv P) (gw P)"
    using same(2) [of False] same(2) [of True] by (cases "mainAt P") (auto simp: the_queue_def)
  then show ?thesis
    using assms(1) same(1) by (auto simp: coupled_def served_def puts_ok_def)
qed

lemma coupled_step:
  assumes "coupled c P" "proc_step a P = Some P'"
  shows "coupled c P'"
proof (cases a)
  case (ServerStep b)
  then show ?thesis
    using assms server_step_coupled [of c P b] by (auto split: if_splits)
next
  case (WorkerStep d b)
  then obtain G where G: "queue_act d b (gw P) = Some G" "worker_action b" "P' = P\<lparr>gw := G\<rparr>"
    using assms(2) by (auto split: if_splits)
  have "main_at (mainAt P) (srv P) G"
    using main_at_queue [OF G(1)] assms(1) by (simp add: coupled_def)
  then show ?thesis
    using coupled_queue [OF assms(1) G(1)] G(2,3) by fastforce
next
  case ExitOnError
  then show ?thesis
    using assms by (auto simp: coupled_def served_def puts_ok_def split: if_splits)
next
  case StopCritical
  moreover from this have "phase (srv P) = AwaitAccept \<or> phase (srv P) = AwaitConns"
    using assms by (auto simp: coupled_def split: if_splits)
  ultimately show ?thesis
    using assms(2) by (auto simp: the_queue_def split: if_splits elim!: main_stops_coupled [OF assms(1)])
next
  case (ManagerShutdown b f)
  then show ?thesis
    using assms by (auto simp: coupled_def served_def puts_ok_def split: if_splits)
qed (use assms in \<open>auto simp: the_queue_def simp del: server_exec.simps gw_exec.simps split: if_splits
    intro: read_turn_coupled [OF assms(1)] put_coupled [OF assms(1)] tick_coupled [OF assms(1)]
      main_server_coupled [OF assms(1)] elim!: main_stops_coupled [OF assms(1)]\<close>)

section \<open>Work left\<close>

text \<open>The steps of the goroutines that are there; the others are those of peers, timers and the signal.\<close>

fun proc_own :: "proc_action \<Rightarrow> bool" where
  "proc_own (ServerStep a) = own_step a"
| "proc_own (TickStep _) = False"
| "proc_own Signal = False"
| "proc_own _ = True"

fun main_work :: "main_phase \<Rightarrow> nat" where
  "main_work AwaitSignal = 7"
| "main_work InShutdown = 6"
| "main_work StoppingNormal = 5"
| "main_work StoppingCritical = 4"
| "main_work ClosingNormal = 3"
| "main_work ClosingCritical = 2"
| "main_work MainDone = 1"
| "main_work Aborted = 0"

definition queues_work :: "Gateway \<Rightarrow> nat" where
  "queues_work G = work_left (normalQ G) + work_left (criticalQ G)"

definition process_work :: "Process \<Rightarrow> nat" where
  "process_work P = 6 * server_work (srv P) + queues_work (gw P) + main_work (mainAt P)"

lemma work_left_frame [simp]: "work_left (q\<lparr>sink := s\<rparr>) = work_left q" "work_left (stop_enqueue q) = work_left q"
  by (simp_all add: work_left_def stop_enqueue_def)

lemma queues_work_at: "queues_work G = work_left (the_queue c G) + work_left (the_queue (\<not> c) G)"
  by (simp add: queues_work_def the_queue_def)

lemma queue_act_work:
  assumes "queue_act c a G = Some G'"
  shows "internal a \<Longrightarrow> queues_work G' < queues_work G" "a = StopEnqueue \<Longrightarrow> queues_work G' = queues_work G"
    "a = Enter env \<Longrightarrow> queues_work G' = queues_work G + (if closed (the_queue c G) then 0 else 5)"
proof -
  have other: "work_left (the_queue (\<not> c) G') = work_left (the_queue (\<not> c) G)"
    using queue_act_other [OF assms, of "\<not> c"] by simp
  note ex = queue_act_exec [OF assms]
  show "queues_work G' < queues_work G" if "internal a"
    using exec_decreases [OF ex that] other by (simp add: queues_work_at [of _ c])
  show "queues_work G' = queues_work G" if "a = StopEnqueue"
  proof -
    have "the_queue c G' = stop_enqueue (the_queue c G)"
      using ex that by simp
    then show ?thesis
      using other by (simp add: queues_work_at [of _ c])
  qed
  show "queues_work G' = queues_work G + (if closed (the_queue c G) then 0 else 5)" if "a = Enter env"
  proof -
    have "the_queue c G' = enter env (the_queue c G)"
      using ex that by simp
    then show ?thesis
      using other by (simp add: queues_work_at [of _ c] enter_def work_left_def)
  qed
qed

lemma worker_internal: "worker_action a \<Longrightarrow> internal a"
  by (cases a) simp_all

lemma server_work_queued [simp]: "server_work (s\<lparr>queued := q\<rparr>) = server_work s"
  by (simp add: server_work_def)

lemma read_turn_work:
  assumes "coupled c P" "read_turn cid P = Some P'"
  shows "process_work P' < process_work P"
proof -
  obtain bytes where b: "map_of (conns (srv P)) cid = Some bytes" and new: "put_of cid P = None"
    using assms(2) by (auto simp: read_turn_def split: option.splits)
  have inv: "server_inv c (srv P)"
    using assms(1) by (simp add: coupled_def)
  show ?thesis
  proof (cases "serve_turn (cfg (srv P)) bytes")
    case (TurnPut d env rest)
    obtain G where G: "queue_act d (Enter env) (gw P) = Some G"
      using assms(2) b new TurnPut by (auto simp: read_turn_def split: option.splits)
    then have "P' = (if closed (the_queue d (gw P)) then P\<lparr>srv := end_serve cid (srv P), gw := G\<rparr>
        else set_put cid (Some (d, env, InSelect)) (P\<lparr>srv := set_bytes cid rest (srv P), gw := G\<rparr>))"
      using assms(2) b new TurnPut by (auto simp: read_turn_def)
    then show ?thesis
      using queue_act_work(3) [OF G refl] end_serve_work [OF inv b]
        set_bytes_work [OF inv b serve_turn_shorter(2) [OF TurnPut]] by (simp add: process_work_def)
  qed (use assms(2) b new serve_step_work [OF inv, of cid False] in \<open>auto simp: read_turn_def process_work_def\<close>)
qed

lemma put_work:
  assumes "coupled c P"
  shows "put_accept cid r P = Some P' \<Longrightarrow> process_work P' < process_work P"
    "put_refuse cid P = Some P' \<Longrightarrow> process_work P' < process_work P"
    "put_return cid P = Some P' \<Longrightarrow> process_work P' < process_work P"
proof -
  have acc: "internal (case r of None \<Rightarrow> Send env | Some i \<Rightarrow> Handoff env i)" for env
    by (cases r) simp_all
  show "put_accept cid r P = Some P' \<Longrightarrow> process_work P' < process_work P"
    using queue_act_work(1) [OF _ acc] by (fastforce simp: put_accept_def process_work_def split: option.splits put_state.splits)
  show "put_refuse cid P = Some P' \<Longrightarrow> process_work P' < process_work P"
    using queue_act_work(1) by (fastforce simp: put_refuse_def process_work_def split: option.splits put_state.splits)
  have "server_work (end_serve cid (srv P)) < server_work (srv P)" if "put_of cid P = Some x" for x
    using put_of_served [OF _ that] end_serve_work assms by (fastforce simp: coupled_def)
  then show "put_return cid P = Some P' \<Longrightarrow> process_work P' < process_work P"
    using queue_act_work(1) by (fastforce simp: put_return_def process_work_def split: option.splits put_state.splits if_splits)
qed

lemma main_stops_work: "main_stops c ph P = Some P' \<Longrightarrow> main_work ph < main_work (mainAt P) \<Longrightarrow> process_work P' < process_work P"
  using queue_act_work(2) by (auto simp: main_stops_def process_work_def)

lemma proc_step_work:
  assumes "coupled c P" "mainAt P \<noteq> Aborted" "proc_own a" "proc_step a P = Some P'"
  shows "process_work P' < process_work P"
proof (cases a)
  case (ServerStep b)
  then show ?thesis
    using assms server_exec_work [of c "srv P" b "srv P'"] by (auto simp: coupled_def process_work_def split: if_splits)
next
  case ForceClose
  then show ?thesis
    using assms server_exec_work [of c "srv P" CtxDone "srv P'"]
    by (auto simp: coupled_def process_work_def simp del: server_exec.simps split: if_splits)
next
  case (WorkerStep d b)
  then show ?thesis
    using assms queue_act_work(1) [OF _ worker_internal] by (auto simp: process_work_def split: if_splits)
next
  case ExitOnError
  then show ?thesis
    using assms by (cases "mainAt P") (auto simp: process_work_def split: if_splits)
next
  case (ManagerShutdown b f)
  then show ?thesis
    using assms by (auto simp: process_work_def split: if_splits)
qed (use assms read_turn_work put_work main_stops_work in \<open>auto split: if_splits\<close>)

section \<open>Never stuck\<close>

lemma put_of_producer:
  assumes "puts_ok P" "put_of cid P = Some (d, env, st)"
  shows "st = InSelect \<Longrightarrow> env \<in> set (blocked (the_queue d (gw P)))"
    "st = PutDone True \<Longrightarrow> 0 < reporting (the_queue d (gw P))" "st = PutDone False \<Longrightarrow> 0 < leaving (the_queue d (gw P))"
proof -
  have "mset (puts P) = add_mset (cid, d, env, st) (mset (puts (set_put cid None P)))"
    using put_leaves assms by (simp add: puts_ok_def)
  then have prod: "producers (the_queue d (gw P)) = put_counts d (add_mset (cid, d, env, st) (mset (puts (set_put cid None P))))"
    using assms(1) by (simp add: puts_ok_def)
  show "st = InSelect \<Longrightarrow> env \<in> set (blocked (the_queue d (gw P)))"
    using prod by (auto simp: producers_def put_counts_add split: prod.splits simp flip: set_mset_mset)
  show "st = PutDone True \<Longrightarrow> 0 < reporting (the_queue d (gw P))" "st = PutDone False \<Longrightarrow> 0 < leaving (the_queue d (gw P))"
    using prod by (auto simp: producers_def put_counts_add split: prod.splits)
qed

lemma producer_put_of:
  assumes "puts_ok P" "\<not> no_producers (the_queue d (gw P))"
  shows "\<exists>cid env st. put_of cid P = Some (d, env, st)"
proof -
  have "put_counts d (mset (puts P)) \<noteq> ({#}, 0, 0)"
    using assms by (auto simp: puts_ok_def no_producers_def producers_def dest!: spec [of _ d])
  then have "filter_mset (\<lambda>p. fst (snd p) = d) (mset (puts P)) \<noteq> {#}"
    by (auto simp: put_counts_def Let_def)
  then obtain p where "p \<in># filter_mset (\<lambda>p. fst (snd p) = d) (mset (puts P))"
    by (rule multiset_nonemptyE)
  moreover obtain cid c env st where "p = (cid, c, env, st)"
    by (cases p)
  ultimately have "(cid, d, env, st) \<in> set (puts P)"
    by auto
  then have "put_of cid P = Some (d, env, st)"
    using assms(1) by (simp add: put_of_def puts_ok_def)
  then show ?thesis
    by blast
qed

lemma own_enabled: "mainAt P \<noteq> Aborted \<Longrightarrow> proc_own a \<Longrightarrow> proc_step a P \<noteq> None \<Longrightarrow> \<exists>a P'. proc_own a \<and> proc_exec a P = Some P'"
  by (auto simp: proc_exec_def)

lemma queue_enabled: "exec gw_fn a (the_queue d G) \<noteq> None \<Longrightarrow> \<exists>G'. queue_act d a G = Some G'"
  using queue_act_enabled by blast

text \<open>A read loop past its select can return, one in the select of a closed queue can leave it.\<close>

lemma put_progress:
  assumes "puts_ok P" "mainAt P \<noteq> Aborted" "put_of cid P = Some (d, env, st)" "st = InSelect \<longrightarrow> closed (the_queue d (gw P))"
  shows "\<exists>a P'. proc_own a \<and> proc_exec a P = Some P'"
proof (cases st)
  case InSelect
  then have "exec gw_fn (SeeDone env) (the_queue d (gw P)) \<noteq> None"
    using put_of_producer(1) [OF assms(1,3)] assms(4) by (simp add: see_done_def)
  then have "proc_step (PutRefuse cid) P \<noteq> None"
    using queue_enabled assms(3) InSelect by (fastforce simp: put_refuse_def)
  then show ?thesis
    using own_enabled [OF assms(2), of "PutRefuse cid"] by simp
next
  case (PutDone ok)
  then have "exec gw_fn (Return ok) (the_queue d (gw P)) \<noteq> None"
    using put_of_producer(2,3) [OF assms(1,3)] by (cases ok) (simp_all add: producer_return_def)
  then have "proc_step (PutReturn cid) P \<noteq> None"
    using queue_enabled assms(3) PutDone by (fastforce simp: put_return_def)
  then show ?thesis
    using own_enabled [OF assms(2), of "PutReturn cid"] by simp
qed

lemma worker_enabled:
  assumes "mainAt P \<noteq> Aborted" "worker_action a" "exec gw_fn a (the_queue d (gw P)) \<noteq> None"
  shows "\<exists>a P'. proc_own a \<and> proc_exec a P = Some P'"
proof -
  have "proc_step (WorkerStep d a) P \<noteq> None"
    using queue_enabled [OF assms(3)] assms(2) by auto
  then show ?thesis
    using own_enabled [OF assms(1), of "WorkerStep d a"] by simp
qed

text \<open>\<open>StopEnqueue\<close> and \<open>Close\<close> of a queue wait for something that can act.\<close>

lemma stop_progress:
  assumes "puts_ok P" "mainAt P \<noteq> Aborted" "closed (the_queue d (gw P))" "\<not> stopped_q (the_queue d (gw P))"
  shows "\<exists>a P'. proc_own a \<and> proc_exec a P = Some P'"
proof -
  have "\<not> no_producers (the_queue d (gw P))"
    using assms(3,4) by (simp add: stopped_q_def)
  then obtain cid env st where "put_of cid P = Some (d, env, st)"
    using producer_put_of [OF assms(1)] by blast
  then show ?thesis
    using put_progress [OF assms(1,2)] assms(3) by blast
qed

lemma wait_progress:
  assumes "puts_ok P" "mainAt P \<noteq> Aborted" "closed (the_queue d (gw P))" "\<not> Close_returns (the_queue d (gw P))"
  shows "\<exists>a P'. proc_own a \<and> proc_exec a P = Some P'"
proof (cases "stopped_q (the_queue d (gw P))")
  case True
  let ?q = "the_queue d (gw P)"
  obtain a q' where a: "internal a" "exec gw_fn a ?q = Some q'"
    using close_progress [OF assms(3,4)] by blast
  moreover have "blocked ?q = []" "reporting ?q = 0" "leaving ?q = 0"
    using True by (simp_all add: stopped_q_def no_producers_def)
  then have "worker_action a"
    using a by (cases a) (auto simp: send_def handoff_def see_done_def producer_return_def split: if_splits)
  ultimately show ?thesis
    using worker_enabled [OF assms(2), of a d] by simp
qed (use stop_progress [OF assms(1-3)] in blast)

text \<open>While the queue is open, one of its workers takes an envelope or finishes one.\<close>

lemma open_progress:
  assumes "puts_ok P" "mainAt P \<noteq> Aborted" "put_of cid P = Some (d, env, InSelect)" "q_inv (the_queue d (gw P))"
    "workers (the_queue d (gw P)) \<noteq> []" "\<not> closed (the_queue d (gw P))"
  shows "\<exists>a P'. proc_own a \<and> proc_exec a P = Some P'"
proof -
  let ?q = "the_queue d (gw P)"
  have "workers ?q ! 0 \<in> set (workers ?q)" "\<not> stopped_q ?q"
    using assms(5,6) by (simp_all add: stopped_q_def)
  then have "\<not> drains (workers ?q ! 0)" "workers ?q ! 0 \<noteq> AwaitProducers"
    using assms(4,6) by (auto simp: q_inv_def)
  then consider "worker_at 0 ?q = Selecting" | e where "worker_at 0 ?q = Running e"
    using assms(5) by (cases "workers ?q ! 0") (auto simp: worker_at_def)
  then show ?thesis
  proof cases
    case 1
    show ?thesis
    proof (cases "ch ?q")
      case Nil
      then have "exec gw_fn (Handoff env 0) ?q \<noteq> None"
        using 1 put_of_producer(1) [OF assms(1,3)] by (simp add: handoff_def)
      then have "proc_step (PutAccept cid (Some 0)) P \<noteq> None"
        using queue_enabled assms(3) by (fastforce simp: put_accept_def)
      then show ?thesis
        using own_enabled [OF assms(2), of "PutAccept cid (Some 0)"] by simp
    next
      case (Cons x xs)
      then show ?thesis
        using worker_enabled [OF assms(2), of "Recv 0" d] 1 by (simp add: recv_def Let_def)
    qed
  next
    case 2
    then show ?thesis
      using worker_enabled [OF assms(2), of "Finish 0" d] by (simp add: finish_def Let_def)
  qed
qed

lemma conn_progress:
  assumes "coupled c P" "mainAt P \<noteq> Aborted" "map_of (conns (srv P)) cid = Some bytes"
    "\<And>d. q_inv (the_queue d (gw P)) \<and> workers (the_queue d (gw P)) \<noteq> []"
  shows "\<exists>a P'. proc_own a \<and> proc_exec a P = Some P'"
proof (cases "put_of cid P")
  case None
  have "\<exists>G. queue_act d (Enter env) (gw P) = Some G" for d env
    using queue_enabled [of "Enter env"] by simp
  then have "proc_step (ReadTurn cid) P \<noteq> None"
    using None assms(3)
    by (cases "serve_turn (cfg (srv P)) bytes") (auto simp: read_turn_def serve_step_def split: option.splits)
  then show ?thesis
    using own_enabled [OF assms(2), of "ReadTurn cid"] by simp
next
  case (Some x)
  moreover obtain d env st where "x = (d, env, st)"
    by (cases x)
  ultimately show ?thesis
    using put_progress [of P cid d env st] open_progress [of P cid d env] assms(1,2,4) by (auto simp: coupled_def)
qed

lemma server_enabled:
  assumes "mainAt P \<noteq> Aborted" "own_step a" "server_only (mainAt P) a" "server_exec a (srv P) \<noteq> None"
  shows "\<exists>a P'. proc_own a \<and> proc_exec a P = Some P'"
proof -
  have "proc_step (ServerStep a) P \<noteq> None"
    using assms(3,4) by auto
  then show ?thesis
    using own_enabled [OF assms(1), of "ServerStep a"] assms(2) by simp
qed

lemma main_stops_enabled: "main_stops d ph P \<noteq> None"
  using queue_enabled [of StopEnqueue d "gw P"] by (auto simp: main_stops_def)

text \<open>\<open>main\<close> in the loops of \<open>srv.Shutdown\<close>.\<close>

lemma shutdown_progress:
  assumes "coupled c P" "mainAt P = InShutdown" "\<And>d. q_inv (the_queue d (gw P)) \<and> workers (the_queue d (gw P)) \<noteq> []"
  shows "\<exists>a P'. proc_own a \<and> proc_exec a P = Some P'"
proof -
  have ph: "phase (srv P) \<noteq> Serving" "mainAt P \<noteq> Aborted"
    using assms(1,2) by (simp_all add: coupled_def)
  consider "phase (srv P) = AwaitAccept \<or> phase (srv P) = AwaitConns" | "phase (srv P) = ShutdownReturned"
    | cid b cs where "conns (srv P) = (cid, b) # cs" | "conns (srv P) = []" "0 < returning (srv P)"
    | "phase (srv P) = AwaitGoroutines" "conns (srv P) = []" "returning (srv P) = 0"
    using ph(1) by (cases "phase (srv P)"; cases "conns (srv P)") auto
  then show ?thesis
  proof cases
    case 1
    then have "proc_step Deadline P \<noteq> None"
      using assms(2) main_stops_enabled by simp
    then show ?thesis
      using own_enabled [OF ph(2), of Deadline] by simp
  next
    case 2
    then have "proc_step CloseNormal P \<noteq> None"
      using assms(2) main_stops_enabled by simp
    then show ?thesis
      using own_enabled [OF ph(2), of CloseNormal] by simp
  next
    case (3 cid b cs)
    then show ?thesis
      using conn_progress [OF assms(1) ph(2) _ assms(3), of cid b] by simp
  next
    case 4
    then show ?thesis
      using server_enabled [OF ph(2), of ServeDone] by simp
  next
    case 5
    then show ?thesis
      using server_enabled [OF ph(2), of GoroutinesDone] assms(2) by simp
  qed
qed

lemma process_progress:
  assumes "coupled c P" "mainAt P \<notin> {AwaitSignal, MainDone, Aborted}"
    "\<And>d. q_inv (the_queue d (gw P)) \<and> workers (the_queue d (gw P)) \<noteq> []"
  shows "\<exists>a P'. proc_own a \<and> proc_exec a P = Some P'"
proof -
  have ok: "puts_ok P" "main_at (mainAt P) (srv P) (gw P)" "mainAt P \<noteq> Aborted"
    using assms(1,2) by (auto simp: coupled_def)
  note enabled = own_enabled [OF ok(3)] and closing = wait_progress [OF ok(1,3)] and stopping = stop_progress [OF ok(1,3)]
  show ?thesis
  proof (cases "mainAt P")
    case InShutdown
    then show ?thesis
      using shutdown_progress [OF assms(1) _ assms(3)] by blast
  next
    case StoppingNormal
    then show ?thesis
      using enabled [of StopCritical] stopping [of False] ok(2) main_stops_enabled [of True StoppingCritical P]
      by (cases "stopped_q (normalQ (gw P))") (auto simp: the_queue_def)
  next
    case StoppingCritical
    then show ?thesis
      using enabled [of ForceClose] stopping [of True] ok(2)
      by (cases "stopped_q (criticalQ (gw P))") (auto simp: the_queue_def)
  next
    case ClosingNormal
    then show ?thesis
      using enabled [of CloseCritical] closing [of False] ok(2) main_stops_enabled [of True ClosingCritical P]
      by (cases "Close_returns (normalQ (gw P))") (auto simp: the_queue_def)
  next
    case ClosingCritical
    then show ?thesis
      using enabled [of "ManagerShutdown False (\<lambda>_. False)"] closing [of True] ok(2)
      by (cases "Close_returns (criticalQ (gw P))") (auto simp: the_queue_def)
  qed (use assms(2) in simp_all)
qed

section \<open>The shutdown ends\<close>

definition ending :: "Config \<Rightarrow> Process \<Rightarrow> bool" where
  "ending cf P \<longleftrightarrow>
     (\<exists>g0 G0. start_queues cf g0 = Some G0 \<and> proc_inv G0 P) \<and> coupled (server_config_of cf) P \<and> mainAt P \<noteq> AwaitSignal \<and>
     0 < sc_WorkerCount (cf_Server cf) \<and> 0 < sc_CriticalWorkerCount (cf_Server cf)"

lemma ending_queues:
  assumes "ending cf P"
  shows "q_inv (the_queue d (gw P)) \<and> workers (the_queue d (gw P)) \<noteq> []"
proof -
  obtain g0 G0 where st: "start_queues cf g0 = Some G0" "reach gw_exec G0 (gw P)"
    and pos: "0 < sc_WorkerCount (cf_Server cf)" "0 < sc_CriticalWorkerCount (cf_Server cf)"
    using assms by (auto simp: ending_def proc_inv_def)
  have "gw_inv g0 (gw P)"
    using gwm.inv_reach [OF st(2)] start_queues_inv(1) [OF st(1)] by blast
  moreover have "length (workers (normalQ (gw P))) = nat (sc_WorkerCount (cf_Server cf)) \<and>
      length (workers (criticalQ (gw P))) = nat (sc_CriticalWorkerCount (cf_Server cf))"
    using gw_workers.inv_reach [OF st(2)] start_queues_inv(2,3) [OF st(1)] by blast
  ultimately show ?thesis
    using pos by (auto simp: gw_inv_def the_queue_def)
qed

lemma signalled_step: "proc_step a P = Some P' \<Longrightarrow> mainAt P \<noteq> AwaitSignal \<Longrightarrow> mainAt P' \<noteq> AwaitSignal"
  by (cases a) (auto simp: read_turn_def put_accept_def put_refuse_def put_return_def main_stops_def
      simp del: server_exec.simps gw_exec.simps split: if_splits option.splits put_state.splits turn.splits)

interpretation pe: ending_machine proc_exec "ending cf" proc_own "\<lambda>P. mainAt P \<in> {MainDone, Aborted}" process_work for cf
proof unfold_locales
  show "ending cf P'" if inv: "ending cf P" and ex: "proc_exec a P = Some P'" for P a P'
  proof -
    have "proc_step a P = Some P'"
      using ex by (simp add: proc_exec_def split: if_splits)
    then show ?thesis
      using inv proc_inv_step coupled_step signalled_step unfolding ending_def by blast
  qed
  show "process_work P' < process_work P" if "ending cf P" "proc_own a" "proc_exec a P = Some P'" for P a P'
    using that proc_step_work by (auto simp: ending_def proc_exec_def split: if_splits)
  show "\<exists>a P'. proc_own a \<and> proc_exec a P = Some P'" if "ending cf P" "mainAt P \<notin> {MainDone, Aborted}" for P
    using that process_progress [of "server_config_of cf" P] ending_queues [OF that(1)] by (auto simp: ending_def)
qed

interpretation coupled: invariant_machine proc_exec "coupled c" for c
  by unfold_locales (auto simp: proc_exec_def split: if_splits intro: coupled_step)

lemma start_process_coupled:
  assumes "start_process cf w = Some (Inr P)"
  shows "coupled (server_config_of cf) P"
proof -
  obtain m w1 G where st: "start_queues cf (m, w1) = Some G"
    "P = \<lparr>srv = Server.New (server_config_of cf), gw = G, puts = [], mainAt = AwaitSignal, final = None\<rparr>"
    using assms by (auto simp: start_process_def split: prod.splits sum.splits option.splits)
  have "producers (the_queue c G) = ({#}, 0, 0)" for c
    using st(1) by (auto simp: start_queues_def NewNamed_def Start_def producers_def the_queue_def split: if_splits)
  then show ?thesis
    using st(2) server_inv_New by (simp add: coupled_def puts_ok_def served_def put_counts_def) (simp add: Server.New_def)
qed

lemma signalled_ending:
  assumes "start_process cf w = Some (Inr P0)" "reach proc_exec P0 P" "mainAt P \<noteq> AwaitSignal"
    "0 < sc_WorkerCount (cf_Server cf)" "0 < sc_CriticalWorkerCount (cf_Server cf)"
  shows "ending cf P"
  using assms proc.inv_reach [OF assms(2) start_process_inv(2) [OF assms(1)]]
    coupled.inv_reach [OF assms(2) start_process_coupled [OF assms(1)]] start_process_inv(1) [OF assms(1)]
  unfolding ending_def by blast

end
