(* ===== verification/Process_Order.thy ===== *)
theory Process_Order
  imports Process_Ends "HOL-Library.Sublist"
begin

text \<open>
  The order of what one connection puts into the queues. Along a run of the process the envelopes a read loop
  enqueues are the ones its bytes decode to, in order; a connection that is neither cut off nor refused
  has all of them enqueued.
\<close>

section \<open>What connections put into the queues\<close>

text \<open>The envelope a step puts into a queue, with its connection, and those of a run.\<close>

fun fed :: "proc_action \<Rightarrow> Process \<Rightarrow> (nat \<times> bool \<times> Envelope) list" where
  "fed (PutAccept cid r) P = (case put_of cid P of None \<Rightarrow> [] | Some (c, env, st) \<Rightarrow> [(cid, c, env)])"
| "fed _ P = []"

fun feeds :: "proc_action list \<Rightarrow> Process \<Rightarrow> (nat \<times> bool \<times> Envelope) list" where
  "feeds [] P = []"
| "feeds (a # as) P = (case proc_exec a P of None \<Rightarrow> [] | Some P1 \<Rightarrow> fed a P @ feeds as P1)"

text \<open>Those of one connection, and what is still to come from it: in its read loop's hands and in its bytes.\<close>

definition of_conn :: "nat \<Rightarrow> (nat \<times> bool \<times> Envelope) list \<Rightarrow> (bool \<times> Envelope) list" where
  "of_conn cid fs = map snd (filter (\<lambda>x. fst x = cid) fs)"

definition unread :: "nat \<Rightarrow> Server \<Rightarrow> (bool \<times> Envelope) list" where
  "unread cid s = (case map_of (conns s) cid of None \<Rightarrow> [] | Some bytes \<Rightarrow> serve_all (cfg s) bytes)"

definition to_come :: "nat \<Rightarrow> Process \<Rightarrow> (bool \<times> Envelope) list" where
  "to_come cid P =
     (case put_of cid P of
        None \<Rightarrow> unread cid (srv P)
      | Some (c, env, InSelect) \<Rightarrow> (c, env) # unread cid (srv P)
      | Some (c, env, PutDone ok) \<Rightarrow> if ok then unread cid (srv P) else [])"

lemma of_conn_simps [simp]: "of_conn cid [] = []" "of_conn cid (fs @ gs) = of_conn cid fs @ of_conn cid gs"
  "of_conn cid ((i, x) # fs) = (if i = cid then [x] else []) @ of_conn cid fs"
  by (simp_all add: of_conn_def)

lemma map_of_set_bytes: "map_of (conns (set_bytes i b s)) cid = (if i = cid then map_option (\<lambda>_. b) (map_of (conns s) cid) else map_of (conns s) cid)"
proof -
  have "map_of (map (\<lambda>p. if fst p = i then (i, b) else p) cs) cid =
     (if i = cid then map_option (\<lambda>_. b) (map_of cs cid) else map_of cs cid)" for cs
    by (induction cs) auto
  then show ?thesis
    by (simp add: set_bytes_def)
qed

lemma map_of_end_serve: "map_of (conns (end_serve i s)) cid = (if i = cid then None else map_of (conns s) cid)"
  by (auto simp: end_serve_def map_of_filter_fst)

lemma cfg_frame [simp]: "cfg (set_bytes i b s) = cfg s" "cfg (end_serve i s) = cfg s" "cfg (forceCloseAll s) = cfg s"
  by (simp_all add: set_bytes_def end_serve_def forceCloseAll_def)

lemma serve_all_Nil [simp]: "serve_all c [] = []"
  by (simp add: serve_all.simps serve_turn_def readFrame_def ReadFull_def)

lemma unread_frame [simp]:
  "unread cid (set_bytes i b s) = (if i = cid \<and> map_of (conns s) cid \<noteq> None then serve_all (cfg s) b else unread cid s)"
  "unread cid (end_serve i s) = (if i = cid then [] else unread cid s)"
  "unread cid (s\<lparr>queued := q\<rparr>) = unread cid s" "unread cid (s\<lparr>smets := m\<rparr>) = unread cid s"
  by (auto simp: unread_def map_of_set_bytes map_of_end_serve split: option.split)

lemma put_of_set_put [simp]: "put_of cid (set_put i p P) = (if i = cid then p else put_of cid P)"
  by (auto simp: put_of_def set_put_def map_of_filter_fst split: option.split)

lemma put_of_frame [simp]: "put_of cid (P\<lparr>srv := s\<rparr>) = put_of cid P" "put_of cid (P\<lparr>gw := G\<rparr>) = put_of cid P"
  "put_of cid (P\<lparr>mainAt := ph\<rparr>) = put_of cid P" "put_of cid (P\<lparr>final := f\<rparr>) = put_of cid P"
  by (simp_all add: put_of_def)

lemma of_conn_mset: "mset (map snd (of_conn cid fs)) \<subseteq># mset (map snd (map snd fs))"
  unfolding of_conn_def mset_map mset_filter by (intro image_mset_subseteq_mono multiset_filter_subset)

section \<open>Steps and what they cut off\<close>

text \<open>
  A step cuts a connection when its bytes end, when \<open>Shutdown\<close> closes it, or when \<open>Enqueue\<close> refuses.
\<close>

definition uncut :: "nat \<Rightarrow> proc_action \<Rightarrow> Process \<Rightarrow> bool" where
  "uncut cid a P \<longleftrightarrow> a \<noteq> ServerStep (RunDry cid) \<and> a \<noteq> ForceClose \<and> a \<noteq> PutRefuse cid \<and>
     (a = ReadTurn cid \<longrightarrow> \<not> closed (normalQ (gw P)) \<and> \<not> closed (criticalQ (gw P)))"

text \<open>What is passed on and what is still to come then make up what was to come, or a prefix of it.\<close>

definition passes_on :: "bool \<Rightarrow> (bool \<times> Envelope) list \<Rightarrow> (bool \<times> Envelope) list \<Rightarrow> (bool \<times> Envelope) list \<Rightarrow> bool" where
  "passes_on whole xs ys zs \<longleftrightarrow> (if whole then xs @ ys = zs else prefix (xs @ ys) zs)"

lemma passes_on_refl [simp]: "passes_on u [] zs zs" "passes_on u [x] zs (x # zs)"
  by (simp_all add: passes_on_def)

lemma read_turn_passes:
  assumes "read_turn i P = Some P'"
  shows "passes_on (uncut cid (ReadTurn i) P) [] (to_come cid P') (to_come cid P)"
proof -
  obtain bytes where b: "map_of (conns (srv P)) i = Some bytes" "put_of i P = None"
    using assms by (auto simp: read_turn_def split: option.splits)
  show ?thesis
  proof (cases "serve_turn (cfg (srv P)) bytes")
    case (TurnPut c env rest)
    obtain G where "queue_act c (Enter env) (gw P) = Some G"
      using assms b TurnPut by (auto simp: read_turn_def split: option.splits)
    then have "P' = (if closed (the_queue c (gw P)) then P\<lparr>srv := end_serve i (srv P), gw := G\<rparr>
      else set_put i (Some (c, env, InSelect)) (P\<lparr>srv := set_bytes i rest (srv P), gw := G\<rparr>))"
      using assms b TurnPut by (auto simp: read_turn_def)
    then show ?thesis
      using b TurnPut by (auto simp: to_come_def unread_def serve_all.simps [of "cfg (srv P)" bytes] passes_on_def uncut_def the_queue_def
         map_of_set_bytes map_of_end_serve split: if_splits option.splits put_state.splits)
  next
    case TurnEnd
    then have "P' = P\<lparr>srv := end_serve i (srv P)\<rparr>"
      using assms b by (simp add: read_turn_def serve_step_def)
    then show ?thesis
      using b TurnEnd by (auto simp: to_come_def unread_def serve_all.simps [of "cfg (srv P)" bytes] passes_on_def
          map_of_end_serve split: option.splits put_state.splits)
  next
    case (TurnSkip t rest)
    then have "P' = P\<lparr>srv := set_bytes i rest ((srv P)\<lparr>smets := MessageObserved t ''version_dropped'' (smets (srv P))\<rparr>)\<rparr>"
      using assms b by (simp add: read_turn_def serve_step_def)
    then show ?thesis
      using b TurnSkip by (auto simp: to_come_def unread_def serve_all.simps [of "cfg (srv P)" bytes] passes_on_def
          map_of_set_bytes split: option.splits put_state.splits)
  qed
qed

lemma put_passes:
  shows "put_accept i r P = Some P' \<Longrightarrow> passes_on u (of_conn cid (fed (PutAccept i r) P)) (to_come cid P') (to_come cid P)"
    "put_refuse i P = Some P' \<Longrightarrow> passes_on (uncut cid (PutRefuse i) P) [] (to_come cid P') (to_come cid P)"
    "put_return i P = Some P' \<Longrightarrow> passes_on u [] (to_come cid P') (to_come cid P)"
  by (auto simp: put_accept_def put_refuse_def put_return_def to_come_def uncut_def passes_on_def
      split: option.splits put_state.splits if_splits)

lemma unread_forced [simp]: "unread cid (shutdown_force s) = []"
proof -
  have "map_of (map (\<lambda>p. (fst p, [] :: string)) cs) cid = map_option (\<lambda>_. []) (map_of cs cid)" for cs :: "(nat \<times> string) list"
    by (induction cs) auto
  then show ?thesis
    by (auto simp: unread_def shutdown_force_def forceCloseAll_def split: option.split)
qed

lemma unread_server:
  assumes "server_exec a s = Some s'" "server_only ph a \<or> a = ShutdownCall \<or> a = CtxDone" "\<forall>b. a \<noteq> Accept cid b"
  shows "unread cid s' = unread cid s \<or> unread cid s' = [] \<and> (a = RunDry cid \<or> a = CtxDone)"
proof (cases "a = CtxDone")
  case True
  then show ?thesis
    using assms(1) by (auto split: if_splits)
next
  case False
  then show ?thesis
    using assms by (cases a) (auto simp: start_call_def start_listen_def accept_conn_def shutdown_call_def
      unread_def map_of_set_bytes split: if_splits option.splits)
qed

lemma server_passes:
  assumes "server_exec b (srv P) = Some s" "server_only ph b \<or> b = ShutdownCall \<or> b = CtxDone" "\<forall>d. b \<noteq> Accept cid d"
    "puts P' = puts P" "srv P' = s" "b = RunDry cid \<or> b = CtxDone \<longrightarrow> \<not> u"
  shows "passes_on u [] (to_come cid P') (to_come cid P)"
proof -
  have "put_of cid P' = put_of cid P"
    using assms(4) by (simp add: put_of_def)
  then show ?thesis
    using unread_server [OF assms(1-3)] assms(5,6)
    by (auto simp: to_come_def passes_on_def split: option.split put_state.split)
qed

lemma still_passes:
  "puts P' = puts P \<Longrightarrow> srv P' = srv P \<Longrightarrow> passes_on u [] (to_come cid P') (to_come cid P)"
proof -
  assume "puts P' = puts P" "srv P' = srv P"
  then have "to_come cid P' = to_come cid P"
    by (simp only: to_come_def put_of_def)
  then show ?thesis
    by simp
qed

lemma step_passes:
  assumes "proc_exec a P = Some P'" "\<forall>b. a \<noteq> ServerStep (Accept cid b)"
  shows "passes_on (uncut cid a P) (of_conn cid (fed a P)) (to_come cid P') (to_come cid P)"
proof -
  have ex: "proc_step a P = Some P'"
    using assms(1) by (simp add: proc_exec_def split: if_splits)
  show ?thesis
  proof (cases a)
    case (ServerStep b)
    then show ?thesis
      using ex assms(2) by (auto simp: uncut_def simp del: server_exec.simps split: if_splits intro!: server_passes [where b = b])
  next
    case Signal
    then show ?thesis
      using ex by (auto simp del: server_exec.simps split: if_splits intro!: server_passes [where b = ShutdownCall])
  next
    case ForceClose
    then show ?thesis
      using ex by (auto simp: uncut_def simp del: server_exec.simps split: if_splits intro!: server_passes [where b = CtxDone])
  qed (use ex read_turn_passes put_passes in \<open>auto simp: main_stops_def simp del: fed.simps(1) gw_exec.simps split: if_splits intro!: still_passes\<close>)
qed

lemma passes_on_prefix: "passes_on u xs ys zs \<Longrightarrow> prefix xs zs"
  by (auto simp: passes_on_def split: if_splits dest: append_prefixD)

lemma passes_on_trans:
  "passes_on u xs ys zs \<Longrightarrow> passes_on v xs' ys' ys \<Longrightarrow> passes_on (u \<and> v) (xs @ xs') ys' zs"
  by (auto simp: passes_on_def prefix_def split: if_splits)

fun all_uncut :: "nat \<Rightarrow> proc_action list \<Rightarrow> Process \<Rightarrow> bool" where
  "all_uncut cid [] P = True"
| "all_uncut cid (a # as) P = (uncut cid a P \<and> (case proc_exec a P of None \<Rightarrow> True | Some P1 \<Rightarrow> all_uncut cid as P1))"

lemma run_passes:
  "run proc_exec as P = Some P' \<Longrightarrow> \<forall>b. ServerStep (Accept cid b) \<notin> set as \<Longrightarrow>
   passes_on (all_uncut cid as P) (of_conn cid (feeds as P)) (to_come cid P') (to_come cid P)"
proof (induction as arbitrary: P)
  case (Cons a as)
  then obtain P1 where P1: "proc_exec a P = Some P1" "run proc_exec as P1 = Some P'"
    by (auto split: option.splits)
  then show ?case
    using passes_on_trans [OF step_passes [OF P1(1), of cid] Cons.IH [OF P1(2)]] Cons.prems(2) by auto
qed simp

lemma step_queued: "proc_exec a P = Some P' \<Longrightarrow> queued (srv P') = queued (srv P) @ map snd (fed a P)"
  by (cases a) (auto simp: proc_exec_def put_accept_def put_refuse_def put_return_def read_turn_def serve_step_def main_stops_def
     simp del: server_exec.simps gw_exec.simps split: if_splits option.splits put_state.splits turn.splits dest: server_only_queued [of _ _ _ "mainAt P"])

lemma run_queued: "run proc_exec as P = Some P' \<Longrightarrow> queued (srv P') = queued (srv P) @ map snd (feeds as P)"
  by (induction as arbitrary: P) (auto split: option.splits dest!: step_queued)


section \<open>Connections that are not cut\<close>

text \<open>
  A process that listens and whose shutdown has not met its deadline: its queues are closed only when the
  server's \<open>Shutdown\<close> has returned, and then no connection is left.
\<close>

definition quiet :: "Process \<Rightarrow> bool" where
  "quiet P \<longleftrightarrow>
     shut_inv (srv P) \<and> listener (srv P) \<noteq> NoListener \<and> (phase (srv P) \<noteq> Serving \<longrightarrow> listener (srv P) = ListenerClosed) \<and>
     mainAt P \<noteq> StoppingNormal \<and> mainAt P \<noteq> StoppingCritical \<and> (\<forall>c. closed (the_queue c (gw P)) \<longrightarrow> phase (srv P) = ShutdownReturned)"

lemma quiet_conns: "quiet P \<Longrightarrow> closed (the_queue c (gw P)) \<Longrightarrow> conns (srv P) = []"
  by (auto simp: quiet_def shut_inv_def)

lemma quiet_uncut:
  assumes "quiet P" "coupled sc P" "proc_exec a P = Some P'" "a \<noteq> ServerStep (RunDry cid)"
  shows "uncut cid a P"
proof -
  have "conns (srv P) \<noteq> [] \<Longrightarrow> \<not> closed (the_queue c (gw P))" for c
    using quiet_conns assms(1) by blast
  from this [of False] this [of True]
  have open_q: "conns (srv P) \<noteq> [] \<Longrightarrow> \<not> closed (normalQ (gw P)) \<and> \<not> closed (criticalQ (gw P))"
    by (simp add: the_queue_def)
  have "a \<noteq> PutRefuse cid"
  proof
    assume "a = PutRefuse cid"
    then obtain c env G where st: "put_of cid P = Some (c, env, InSelect)" "queue_act c (SeeDone env) (gw P) = Some G"
      using assms(3) by (auto simp: proc_exec_def put_refuse_def split: if_splits option.splits put_state.splits)
    then have "closed (the_queue c (gw P))"
      using queue_act_exec by (fastforce simp: see_done_def split: if_splits)
    moreover have "conns (srv P) \<noteq> []"
      using put_of_served [OF _ st(1)] assms(2) by (auto simp: coupled_def)
    ultimately show False
      using quiet_conns [OF assms(1)] by blast
  qed
  moreover have "a \<noteq> ForceClose"
    using assms(1,3) by (auto simp: quiet_def proc_exec_def split: if_splits)
  moreover have "a = ReadTurn cid \<Longrightarrow> conns (srv P) \<noteq> []"
    using assms(3) by (auto simp: proc_exec_def read_turn_def split: if_splits option.splits)
  ultimately show ?thesis
    using open_q assms(4) by (auto simp: uncut_def)
qed


lemma exec_closed: "exec fn a q = Some q' \<Longrightarrow> a \<noteq> StopEnqueue \<Longrightarrow> closed q' = closed q"
  by (cases a) (auto simp: enter_def send_def handoff_def see_done_def producer_return_def recv_def finish_def
      Let_def split: if_splits list.splits worker.splits)

lemma queue_act_closed: "queue_act c a G = Some G' \<Longrightarrow> a \<noteq> StopEnqueue \<Longrightarrow> closed (the_queue d G') = closed (the_queue d G)"
  using exec_closed [OF queue_act_exec, of c a G G'] queue_act_other [of c a G G' d] by (cases "d = c") simp_all

definition same_control :: "Process \<Rightarrow> Process \<Rightarrow> bool" where
  "same_control P P' \<longleftrightarrow>
     phase (srv P') = phase (srv P) \<and> listener (srv P') = listener (srv P) \<and> mainAt P' = mainAt P \<and>
     (\<forall>c. closed (the_queue c (gw P')) = closed (the_queue c (gw P)))"

lemma quiet_frame: "quiet P \<Longrightarrow> same_control P P' \<Longrightarrow> conns (srv P) \<noteq> [] \<or> srv P' = srv P \<Longrightarrow> quiet P'"
  by (auto simp: same_control_def quiet_def shut_inv_def)

lemma same_control_queue:
  "queue_act c a (gw P) = Some (gw P') \<Longrightarrow> a \<noteq> StopEnqueue \<Longrightarrow> phase (srv P') = phase (srv P) \<Longrightarrow>
   listener (srv P') = listener (srv P) \<Longrightarrow> mainAt P' = mainAt P \<Longrightarrow> same_control P P'"
  using queue_act_closed [of c a "gw P" "gw P'"] by (simp add: same_control_def)

lemma listener_frame [simp]: "listener (end_serve cid s) = listener s" "listener (set_bytes cid b s) = listener s"
  by (simp_all add: end_serve_def set_bytes_def)

lemma read_turn_control:
  assumes "read_turn cid P = Some P'"
  shows "conns (srv P) \<noteq> [] \<and> same_control P P'"
proof -
  obtain bytes where b: "map_of (conns (srv P)) cid = Some bytes" "put_of cid P = None"
    using assms by (auto simp: read_turn_def split: option.splits)
  have "same_control P P'"
  proof (cases "serve_turn (cfg (srv P)) bytes")
    case (TurnPut c env rest)
    then show ?thesis
      using assms b by (intro same_control_queue [of c "Enter env"]) (auto simp: read_turn_def split: option.splits if_splits)
  qed (use assms b in \<open>auto simp: read_turn_def serve_step_def same_control_def\<close>)
  then show ?thesis
    using b by auto
qed

lemma put_control:
  assumes "served P" "put_accept cid r P = Some P' \<or> put_refuse cid P = Some P' \<or> put_return cid P = Some P'"
  shows "conns (srv P) \<noteq> [] \<and> same_control P P'"
proof -
  obtain c env st a where "put_of cid P = Some (c, env, st)" "queue_act c a (gw P) = Some (gw P')" "a \<noteq> StopEnqueue"
    "phase (srv P') = phase (srv P)" "listener (srv P') = listener (srv P)" "mainAt P' = mainAt P"
    using assms(2) by (auto simp: put_accept_def put_refuse_def put_return_def
      split: option.splits put_state.splits if_splits)
  then show ?thesis
    using same_control_queue put_of_served [OF assms(1)] by fastforce
qed

lemma server_control:
  "server_exec b s = Some s' \<Longrightarrow> server_only ph b \<Longrightarrow> listener s \<noteq> NoListener \<Longrightarrow>
   phase s \<noteq> Serving \<longrightarrow> listener s = ListenerClosed \<Longrightarrow>
   listener s' \<noteq> NoListener \<and> (phase s' \<noteq> Serving \<longrightarrow> listener s' = ListenerClosed) \<and>
   (phase s = ShutdownReturned \<longrightarrow> phase s' = ShutdownReturned)"
  by (cases b) (auto simp: start_call_def start_listen_def accept_conn_def split: if_splits)

text \<open>The steps of read loops, workers and the recovery loop.\<close>

fun control_action :: "proc_action \<Rightarrow> bool" where
  "control_action (ServerStep _) = True"
| "control_action (ReadTurn _) = False"
| "control_action (PutAccept _ _) = False"
| "control_action (PutRefuse _) = False"
| "control_action (PutReturn _) = False"
| "control_action (WorkerStep _ _) = False"
| "control_action (TickStep _) = False"
| "control_action _ = True"

lemma flow_step:
  assumes "served P" "proc_step a P = Some P'" "\<not> control_action a"
  shows "same_control P P' \<and> (conns (srv P) \<noteq> [] \<or> srv P' = srv P)"
proof (cases a)
  case (WorkerStep c b)
  then have "queue_act c b (gw P) = Some (gw P')" "b \<noteq> StopEnqueue" "srv P' = srv P" "mainAt P' = mainAt P"
    using assms(2) by (auto split: if_splits)
  then show ?thesis
    using same_control_queue [of c b P P'] by simp
next
  case (TickStep up)
  then show ?thesis
    using assms(2) by (auto simp: same_control_def the_queue_def split: if_splits option.splits)
qed (use assms put_control [OF assms(1)] read_turn_control in auto)

lemma quiet_step:
  assumes "quiet P" "coupled sc P" "proc_step a P = Some P'" "a \<noteq> Deadline"
  shows "quiet P'"
proof (cases "control_action a")
  case False
  then show ?thesis
    using flow_step [OF _ assms(3)] quiet_frame [OF assms(1)] assms(2) by (simp add: coupled_def)
next
  case True
  show ?thesis
  proof (cases a)
    case (ServerStep b)
    then have "server_exec b (srv P) = Some (srv P')" "server_only (mainAt P) b" "gw P' = gw P" "mainAt P' = mainAt P"
      using assms(3) by (auto simp del: server_exec.simps split: if_splits)
    then show ?thesis
      using assms(1) shut_inv_exec server_control unfolding quiet_def by metis
  next
    case Signal
    then show ?thesis
      using assms(1,3) by (cases "listener (srv P)") (auto simp: quiet_def shut_inv_def shutdown_call_def split: if_splits)
  next
    case CloseCritical
    then show ?thesis
      using assms(1-3) by (auto simp: quiet_def main_stops_def coupled_def the_queue_def split: if_splits)
  qed (use True assms in \<open>auto simp: quiet_def main_stops_def split: if_splits\<close>)
qed

lemma quiet_run:
  assumes "quiet P" "coupled sc P" "run proc_exec as P = Some P'" "Deadline \<notin> set as" "ServerStep (RunDry cid) \<notin> set as"
  shows "all_uncut cid as P"
  using assms
proof (induction as arbitrary: P)
  case (Cons a as)
  then obtain P1 where P1: "proc_exec a P = Some P1" "run proc_exec as P1 = Some P'"
    by (auto split: option.splits)
  then have "proc_step a P = Some P1"
    by (simp add: proc_exec_def split: if_splits)
  then have "quiet P1" "coupled sc P1"
    using quiet_step coupled_step Cons.prems(1,2,4) by auto
  then show ?case
    using Cons P1 quiet_uncut [OF Cons.prems(1,2) P1(1)] by auto
qed simp


lemma quiet_keeps:
  assumes "quiet P" "coupled sc P" "run proc_exec as P = Some P'" "Deadline \<notin> set as"
  shows "quiet P'"
  using assms
proof (induction as arbitrary: P)
  case (Cons a as)
  then obtain P1 where P1: "proc_exec a P = Some P1" "run proc_exec as P1 = Some P'"
    by (auto split: option.splits)
  then have "proc_step a P = Some P1"
    by (simp add: proc_exec_def split: if_splits)
  then show ?case
    using Cons.IH [OF _ _ P1(2)] quiet_step [OF Cons.prems(1,2)] coupled_step [OF Cons.prems(2)] Cons.prems(4) by auto
qed simp

text \<open>Before the signal no queue is closed.\<close>

interpretation unsignalled: invariant_machine proc_exec
  "\<lambda>P. coupled sc P \<and> (mainAt P = AwaitSignal \<longrightarrow> (\<forall>c. \<not> closed (the_queue c (gw P))))" for sc
proof unfold_locales
  fix P a P'
  assume inv: "coupled sc P \<and> (mainAt P = AwaitSignal \<longrightarrow> (\<forall>c. \<not> closed (the_queue c (gw P))))" and ex: "proc_exec a P = Some P'"
  have step: "proc_step a P = Some P'"
    using ex by (simp add: proc_exec_def split: if_splits)
  have "closed (the_queue c (gw P')) = closed (the_queue c (gw P))" if "mainAt P' = AwaitSignal" for c
  proof (cases "control_action a")
    case False
    then show ?thesis
      using flow_step [OF _ step] inv by (simp add: coupled_def same_control_def)
  next
    case True
    then show ?thesis
      using step that by (cases a) (auto simp: main_stops_def simp del: server_exec.simps split: if_splits)
  qed
  then show "coupled sc P' \<and> (mainAt P' = AwaitSignal \<longrightarrow> (\<forall>c. \<not> closed (the_queue c (gw P'))))"
    using inv coupled_step [OF _ step] signalled_step [OF step] by blast
qed

lemma accept_quiet:
  assumes "coupled sc P1" "mainAt P1 = AwaitSignal" "\<forall>c. \<not> closed (the_queue c (gw P1))"
    "proc_exec (ServerStep (Accept cid bytes)) P1 = Some P2"
  shows "quiet P2"
  using assms by (auto simp: quiet_def shut_inv_def coupled_def proc_exec_def accept_conn_def split: if_splits)

lemma accept_to_come:
  assumes "coupled sc P1" "proc_exec (ServerStep (Accept cid bytes)) P1 = Some P2"
  shows "to_come cid P2 = (if connCount (srv P1) < MaxConnections sc then serve_all sc bytes else [])"
proof -
  have "map_of (conns (srv P1)) cid = None" "P2 = P1\<lparr>srv := accept_conn cid bytes (srv P1)\<rparr>"
    using assms(2) by (auto simp: proc_exec_def split: if_splits)
  moreover have "put_of cid P1 = None"
    using assms(1) put_of_served [of P1 cid] \<open>map_of (conns (srv P1)) cid = None\<close> by (cases "put_of cid P1") (auto simp: coupled_def)
  ultimately show ?thesis
    using assms(1) by (auto simp: to_come_def unread_def accept_conn_def coupled_def server_inv_def)
qed

text \<open>A connection that nothing cuts off: accepted before the signal and within the limit, and no deadline met.\<close>

definition undisturbed :: "server_config \<Rightarrow> nat \<Rightarrow> Process \<Rightarrow> proc_action list \<Rightarrow> bool" where
  "undisturbed sc cid P1 bs \<longleftrightarrow>
     mainAt P1 = AwaitSignal \<and> connCount (srv P1) < MaxConnections sc \<and>
     Deadline \<notin> set bs \<and> ServerStep (RunDry cid) \<notin> set bs"

lemma undisturbed_quiet:
  assumes "start_process cf w = Some (Inr P0)" "run proc_exec as P0 = Some P1"
    "proc_exec (ServerStep (Accept cid bytes)) P1 = Some P2" "undisturbed sc cid P1 bs"
  shows "quiet P2"
proof -
  have "\<forall>c. \<not> closed (the_queue c (gw P0))"
    using assms(1) by (auto simp: start_process_def start_queues_def NewNamed_def Start_def the_queue_def
        split: prod.splits sum.splits option.splits if_splits)
  then have "coupled (server_config_of cf) P1 \<and> (mainAt P1 = AwaitSignal \<longrightarrow> (\<forall>c. \<not> closed (the_queue c (gw P1))))"
    using unsignalled.inv_run [OF assms(2)] start_process_coupled [OF assms(1)] by blast
  then show ?thesis
    using accept_quiet [OF _ _ _ assms(3)] assms(4) by (auto simp: undisturbed_def)
qed

lemma undisturbed_done:
  assumes "start_process cf w = Some (Inr P0)" "run proc_exec as P0 = Some P1"
    "proc_exec (ServerStep (Accept cid bytes)) P1 = Some P2" "run proc_exec bs P2 = Some P"
    "undisturbed sc cid P1 bs" "final P \<noteq> None"
  shows "conns (srv P) = []"
proof (rule quiet_conns)
  have "coupled (server_config_of cf) P2"
    using coupled.keeps [OF coupled.inv_run [OF assms(2) start_process_coupled [OF assms(1)]] assms(3)] .
  then show "quiet P"
    using quiet_keeps [OF undisturbed_quiet [OF assms(1-3,5)] _ assms(4)] assms(5) by (simp add: undisturbed_def)
  have "reach proc_exec P0 P"
    using reach_run [OF reach_step [OF reach_run [OF reach_init assms(2)] assms(3)] assms(4)] .
  then show "closed (the_queue False (gw P))"
    using process_done(2) [OF assms(1)] assms(6) by (auto simp: the_queue_def Close_returns_def stopped_q_def)
qed

end
