(* ===== verification/Process_Theorems.thy ===== *)
theory Process_Theorems
  imports Process_Order Gateway_Theorems Server_Theorems
begin

text \<open>
  The properties of the whole gateway process: what the server puts into the queues, what has become of it
  when \<open>main\<close> has shut everything down, and that the shutdown ends.
\<close>

section \<open>What is enqueued\<close>

text \<open>
  C4: whatever bytes the peers send: every envelope the server puts into a queue is well-formed (its strings
  are valid UTF-8, its time stamp fits 64 bits, its payload is absent or valid JSON with room for the
  enclosing level), has the protocol's version and no raw flag, and is in the critical queue exactly
  when it is an \<open>event-tracks\<close> message; each queue has accepted exactly its share, in this order.
\<close>

theorem enqueued_well_formed:
  assumes "server_main fmul b showVersion env w0 = Some (Started P0)" "reach proc_exec P0 P"
  shows "(\<forall>(c, env) \<in> set (queued (srv P)). wf_envelope env \<and> \<not> WriteRaw env \<and> Version env = EnvVersion \<and>
      (c \<longleftrightarrow> Topic env = TopicEventTracks)) \<and>
    accepted (normalQ (gw P)) = map snd (filter (\<lambda>p. \<not> fst p) (queued (srv P))) \<and>
    accepted (criticalQ (gw P)) = map snd (filter fst (queued (srv P)))"
proof -
  note start = server_main_started(1) [OF assms(1)]
  have "typed P"
    using typed.inv_reach [OF assms(2) start_process_typed [OF start]] .
  moreover have "queued_on c (srv P) = accepted (the_queue c (gw P))" for c
    using proc.inv_reach [OF assms(2) start_process_inv(2) [OF start]] by (simp add: proc_inv_def)
  from this [of False] this [of True] have "accepted (normalQ (gw P)) = map snd (filter (\<lambda>p. \<not> fst p) (queued (srv P)))"
    "accepted (criticalQ (gw P)) = map snd (filter fst (queued (srv P)))"
    by (simp_all add: queued_on_def the_queue_def)
  ultimately show ?thesis
    by (auto simp: typed_def typed_entry_def)
qed

section \<open>Every envelope is accounted for\<close>

text \<open>
  What the disk has to offer for an envelope in case Kafka fails: the line fits the reader's buffer, a new
  file gets a new name, rotation has room, and a raw payload is compact already.
\<close>

definition disk_fits :: "Envelope \<Rightarrow> gateway \<Rightarrow> bool" where
  "disk_fits env g \<longleftrightarrow>
     line_fits env \<and> replayable env \<and> fresh_from (step (snd g)) (fallback (fst g)) (snd g) \<and> room (fallback (fst g)) (snd g)"

lemma routed_wf: "routed env = Some env1 \<Longrightarrow> wf_envelope env \<Longrightarrow> wf_envelope env1"
proof -
  have "levelTopic l = Some t \<Longrightarrow> ValidString t" for l t
    by (auto simp: levelTopic_def topic_defs ValidString_ascii split: if_splits)
  then show "routed env = Some env1 \<Longrightarrow> wf_envelope env \<Longrightarrow> wf_envelope env1"
    by (auto simp: routed_def wf_envelope_def split: if_splits option.splits list.splits)
qed

lemma all_fit_wf:
  "all_fit disk_fits f retry evs g \<Longrightarrow> \<forall>env \<in> set (dispatched evs). wf_envelope env \<Longrightarrow> all_fit gw_fits f retry evs g"
  by (induction disk_fits f retry evs g rule: all_fit.induct)
    (auto simp: disk_fits_def gw_fits_def writable_def dest: routed_wf split: option.splits)

lemma dispatched_enqueued:
  assumes "gw_inv g0 G"
  shows "set (dispatched (history G)) \<subseteq> set (accepted (normalQ G)) \<union> set (accepted (criticalQ G))"
proof -
  have "set (handled q) \<subseteq> set (accepted q)" if "q_inv q" for q :: "(Envelope, gateway) Queue"
  proof -
    have "set_mset (mset (handled q)) \<subseteq> set_mset (mset (taken q))"
      using that by (simp add: q_inv_def del: set_mset_mset)
    then show ?thesis
      using that by (auto simp: q_inv_def)
  qed
  moreover have "set (dispatched (history G)) = set (handled (normalQ G)) \<union> set (handled (criticalQ G))"
    using assms set_shuffles [of "dispatched (history G)"] by (simp add: gw_inv_def)
  ultimately show ?thesis
    using assms by (auto simp: gw_inv_def)
qed

lemma process_fits:
  assumes "start_process cf w = Some (Inr P0)" "reach proc_exec P0 P"
    "all_fit disk_fits manager_write gw_tick (history (gw P)) (sink (normalQ (gw P0)))"
  shows "gw_inv (sink (normalQ (gw P0))) (gw P)"
    "all_fit gw_fits manager_write gw_tick (history (gw P)) (sink (normalQ (gw P0)))"
proof -
  have pinv: "proc_inv (gw P0) P"
    using proc.inv_reach [OF assms(2) start_process_inv(2) [OF assms(1)]] .
  then have "reach gw_exec (gw P0) (gw P)"
    by (simp add: proc_inv_def)
  then show inv: "gw_inv (sink (normalQ (gw P0))) (gw P)"
    by (rule gwm.inv_reach) (rule start_queues_inv(1) [OF start_process_inv(1) [OF assms(1)]])
  have "typed P"
    using typed.inv_reach [OF assms(2) start_process_typed [OF assms(1)]] .
  then have "wf_envelope env" if "env \<in> set (queued_on c (srv P))" for env c
    using that by (auto simp: typed_def typed_entry_def queued_on_def)
  moreover have "queued_on c (srv P) = accepted (the_queue c (gw P))" for c
    using pinv by (simp add: proc_inv_def)
  ultimately have "wf_envelope env" if "env \<in> set (accepted (the_queue c (gw P)))" for env c
    using that by metis
  from this [where c = False] this [where c = True]
  have "\<forall>env \<in> set (dispatched (history (gw P))). wf_envelope env"
    using dispatched_enqueued [OF inv] by (auto simp: the_queue_def)
  then show "all_fit gw_fits manager_write gw_tick (history (gw P)) (sink (normalQ (gw P0)))"
    using all_fit_wf [OF assms(3)] by blast
qed

text \<open>The manager's shutdown leaves what was delivered and keeps the records on disk, rolled.\<close>

lemma m_Shutdown_keeps:
  assumes "gw_good g" "m_Shutdown expired close_fails (fst g) (snd g) = (m', w')"
  shows "delivered w' = gw_sent g" "pending (fallback m') w' = backlog ((fallback (fst g))\<lparr>peekState := None\<rparr>) (snd g)"
proof -
  have "store_inv (fallback (fst g)) (snd g)"
    using assms(1) by (simp add: gw_good_def m_inv_def)
  then obtain fw1 w1 where cl: "fb_Close (fallback (fst g)) (snd g) = (None, fw1, w1)"
    "pending fw1 w1 = backlog ((fallback (fst g))\<lparr>peekState := None\<rparr>) (snd g)"
    using fb_Close_all by blast
  then have "w' = w1" "fallback m' = fw1"
    using assms(2) by (auto simp: m_Shutdown_def Let_def split: prod.splits)
  then show "delivered w' = gw_sent g" "pending (fallback m') w' = backlog ((fallback (fst g))\<lparr>peekState := None\<rparr>) (snd g)"
    using cl fb_Close_frame [OF cl(1)] by (simp_all add: delivered_def gw_sent_def)
qed

text \<open>The state of the writer whenever the process is stopped: sound, tidy, and every dispatched message accounted for.\<close>

lemma start_process_tidy: "start_process cf w = Some (Inr P0) \<Longrightarrow> gw_tidy (sink (normalQ (gw P0)))"
  by (auto simp: start_process_def start_writers_def start_queues_def NewNamed_def Start_def NewManager_def gw_tidy_def
      Let_def dest: NewFallbackWriter_tidy split: prod.splits sum.splits option.splits if_splits)

lemma process_sound:
  assumes "start_process cf w = Some (Inr P0)" "reach proc_exec P0 P" "g0 = sink (normalQ (gw P0))" "g = sink (normalQ (gw P))"
    "gw_good g0" "all_fit disk_fits manager_write gw_tick (history (gw P)) g0"
  shows "gw_good g" "gw_tidy g" "\<exists>lost. length lost \<le> retries (history (gw P)) \<and>
    mset (gw_sent g) + mset (map record_message (gw_kept g)) + mset lost =
    mset (gw_sent g0) + mset (map record_message (gw_kept g0)) +
      mset (map record_message (List.map_filter routed (dispatched (history (gw P)))))"
proof -
  note fits = process_fits [OF assms(1,2), folded assms(3), OF assms(6)]
  have "gw_good g0 \<and> gw_tidy g0"
    using start_process_tidy [OF assms(1)] assms(3,5) by simp
  from gwt.all_accounted [OF this fits(2)] fits(1) assms(4)
  show "gw_good g" "gw_tidy g" "\<exists>lost. length lost \<le> retries (history (gw P)) \<and>
      mset (gw_sent g) + mset (map record_message (gw_kept g)) + mset lost =
      mset (gw_sent g0) + mset (map record_message (gw_kept g0)) +
        mset (map record_message (List.map_filter routed (dispatched (history (gw P)))))"
    by (auto simp: gw_inv_def)
qed

lemma done_accounted:
  assumes "server_main fmul b showVersion env w0 = Some (Started P0)" "reach proc_exec P0 P" "final P = Some (m', w')"
    "0 < sc_WorkerCount (cf_Server (Load fmul env))" "g0 = sink (normalQ (gw P0))" "g = sink (normalQ (gw P))"
    "gw_good g0" "all_fit disk_fits manager_write gw_tick (history (gw P)) g0"
  shows "(\<exists>lost. length lost \<le> retries (history (gw P)) \<and>
      mset (delivered w') + mset (map record_message (gw_kept g)) + mset lost =
      mset (gw_sent g0) + mset (map record_message (gw_kept g0)) +
      mset (map record_message (List.map_filter routed (map snd (queued (srv P)))))) \<and>
    pending (fallback m') w' = backlog ((fallback (fst g))\<lparr>peekState := None\<rparr>) (snd g)"
proof -
  note started = server_main_started [OF assms(1)]
  note fin = process_done [OF started(1) assms(2,3)]
  have start: "start_queues (Load fmul env) g0 = Some (gw P0)"
    using start_process_inv(1) [OF started(1)] assms(5) by simp
  note fits = process_fits [OF started(1) assms(2), folded assms(5), OF assms(8)]
  have keeps: "delivered w' = gw_sent g"
    "pending (fallback m') w' = backlog ((fallback (fst g))\<lparr>peekState := None\<rparr>) (snd g)"
    using fin(5) m_Shutdown_keeps [OF process_sound(1) [OF started(1) assms(2,5-8)], of _ _ m' w'] assms(6) by auto
  have "mset (map record_message (List.map_filter routed (map snd (queued (srv P))))) =
      mset (map record_message (List.map_filter routed (accepted (normalQ (gw P)) @ accepted (criticalQ (gw P)))))"
    using fin(4) by (simp only: mset_map mset_map_filter)
  then show ?thesis
    using accepted_accounted [OF start fin(1-3) assms(4) started(2) assms(7) fits(2)] keeps assms(6) by simp
qed


section \<open>The next process\<close>

text \<open>The directory a process leaves behind: after \<open>main\<close>, or when it is killed at this point.\<close>

definition left_world :: "Process \<Rightarrow> world" where
  "left_world P = (case final P of None \<Rightarrow> snd (sink (normalQ (gw P))) | Some (m, w) \<Rightarrow> w)"

lemma left_world_exit:
  assumes "start_process cf w = Some (Inr P0)" "reach proc_exec P0 P"
  shows "\<exists>how. left_world P = exit_world how (fst (sink (normalQ (gw P)))) (snd (sink (normalQ (gw P))))"
proof (cases "final P")
  case None
  then show ?thesis
    by (intro exI [of _ None]) (simp add: left_world_def exit_world_def)
next
  case (Some fin)
  then obtain b f where "fin = m_Shutdown b f (fst (sink (normalQ (gw P)))) (snd (sink (normalQ (gw P))))"
    using process_done(5) [OF assms Some] by blast
  then show ?thesis
    using Some by (intro exI [of _ "Some (b, f)"]) (simp add: left_world_def exit_world_def split: prod.split)
qed


section \<open>A run of the process\<close>

definition ex_fw0 :: FallbackWriter where
  "ex_fw0 = \<lparr>maxFileSize = 104857600, maxFiles = 10, current = None, currentPath = [], currentSize = 0, peekState = None\<rparr>"

definition ex_m0 :: Manager where
  "ex_m0 = NewManager (NewKafkaWriter (kc_Brokers (cf_Kafka ex_config)) (kc_BatchSize (cf_Kafka ex_config))
     (kc_BatchTimeout (cf_Kafka ex_config)) (kc_WriteTimeout (cf_Kafka ex_config))) ex_fw0"

definition ex_w0 :: world where
  "ex_w0 = metric (FallbackFilesSet 0) (tick (tick (tick (ex_world False))))"

definition ex_main :: "main_outcome option" where
  "ex_main = server_main (\<lambda>_ _ _. 0) default_build False
     (map_of [(''LOG_TRACK_SERVER_WORKER_COUNT'', ''1''), (''LOG_TRACK_SERVER_CRITICAL_WORKER_COUNT'', ''1'')]) (ex_world False)"

lemma ex_main_eq: "ex_main =
    map_option (\<lambda>r. case r of Inl e \<Rightarrow> ExitStatus1 e | Inr P \<Rightarrow> Started P) (start_process ex_config (ex_world False))"
  by (simp only: ex_main_def server_main_def ex_config_def if_False)

lemma ex_started:
  "ex_main = Some (Started P) \<Longrightarrow> server_main (\<lambda>_ _ _. 0) default_build False
     (map_of [(''LOG_TRACK_SERVER_WORKER_COUNT'', ''1''), (''LOG_TRACK_SERVER_CRITICAL_WORKER_COUNT'', ''1'')]) (ex_world False) =
   Some (Started P)"
  "0 < sc_WorkerCount (cf_Server (Load (\<lambda>_ _ _. 0)
     (map_of [(''LOG_TRACK_SERVER_WORKER_COUNT'', ''1''), (''LOG_TRACK_SERVER_CRITICAL_WORKER_COUNT'', ''1'')])))"
  using ex_config_simps(1) unfolding ex_main_def ex_config_def by simp_all

lemma ex_start_writers: "start_writers ex_config (ex_world False) = (Inr ex_m0, ex_w0)"
proof -
  have "failing (ex_world False) = None" "failing (tick (ex_world False)) = None" "failing (tick (tick (ex_world False))) = None"
    "dirents (ex_world False) = []"
    by (simp_all add: ex_world_def)
  moreover have "fc_MaxFileSize (cf_Fallback ex_config) = 104857600" "fc_MaxFiles (cf_Fallback ex_config) = 10"
    by (simp_all add: ex_config_def Load_def getInt_def)
  ultimately show ?thesis
    by (simp add: start_writers_def ex_m0_def ex_w0_def ex_fw0_def NewFallbackWriter_def os_MkdirAll_def adoptStaleLogs_def
        os_ReadDir_def set_files_gauge_def listDoneFiles_def done_files_def Let_def)
qed

lemma ex_start_good: "gw_good (ex_m0, ex_w0)" "gw_kept (ex_m0, ex_w0) = []" "gw_sent (ex_m0, ex_w0) = []"
proof -
  have "store_inv ex_fw0 (ex_world False)"
    by (rule store_inv_closed [OF _ _ _ _ ex_store_inv]) (simp_all add: ex_fw_def ex_fw0_def)
  moreover have "\<not> panicked (ex_world False)" "kw_inv (NewKafkaWriter a b c d)" for a b c d
    by (simp_all add: ex_world_def NewKafkaWriter_def kw_inv_def)
  ultimately have "m_inv ex_m0 ex_w0"
    by (simp add: m_inv_def ex_m0_def ex_w0_def NewManager_def)
  moreover show kept: "gw_kept (ex_m0, ex_w0) = []" "gw_sent (ex_m0, ex_w0) = []"
    by (simp_all add: gw_kept_def gw_sent_def ex_m0_def NewManager_def ex_fw0_def ex_w0_def backlog_def pending_def active_def
        delivered_def ex_world_def done_files_def)
  ultimately show "gw_good (ex_m0, ex_w0)"
    by (simp add: gw_good_def)
qed

lemma ex_received: "received ex_env = ex_env\<lparr>Data := Some ''{\"a\":1}''\<rparr>"
  by (simp add: received_def ex_marshal EnsureTimestampAt_def ex_env_def zero_envelope_def TimestampAtFromMillis_def)

lemma ex_received_fits: "disk_fits (received ex_env) (ex_m0, ex_w0)" "routed (received ex_env) = Some (received ex_env)"
proof -
  have mr: "marshal_raw (Some ''{\"a\":1}'') = Some ''{\"a\":1}''"
    by (simp add: json_simps)
  have "marshal_envelope (received ex_env) = marshal_envelope ex_env"
    using mr ex_marshal ex_fields(1)
    by (simp add: marshal_envelope_def envelope_members_def ex_received)
  moreover have "stamped (received ex_env) = received ex_env"
    unfolding ex_received by (simp add: stamped_def ex_env_def zero_envelope_def EnsureTimestampAt_def TimestampAtFromMillis_def)
  moreover have "WriteRaw (received ex_env) = False"
    by (simp add: ex_received ex_fields)
  ultimately have "line_fits (received ex_env)"
    by (simp add: line_fits_def encode_line_def ex_body maxLine_def)
  moreover have "fresh_from (step ex_w0) ex_fw0 ex_w0"
    by (simp add: fresh_from_def fresh_def newest_def ex_fw0_def ex_w0_def ex_world_def done_files_def is_int64_def
      minInt64_def maxInt64_def)
  ultimately show "disk_fits (received ex_env) (ex_m0, ex_w0)"
    by (simp add: disk_fits_def replayable_def room_def ex_m0_def NewManager_def ex_received ex_fields)
      (simp add: ex_w0_def ex_world_def done_files_def ex_fw0_def)
  show "routed (received ex_env) = Some (received ex_env)"
    by (simp add: routed_def raw_topics_def topic_defs ex_fields ex_received)
qed

definition ex_proc_run :: "proc_action list" where
  "ex_proc_run =
     [ServerStep StartCall, ServerStep (Listen True), ServerStep (Accept 1 ex_frame), ReadTurn 1, PutAccept 1 None, PutReturn 1,
      WorkerStep False (Recv 0), WorkerStep False (Finish 0), ReadTurn 1, ServerStep ServeDone,
      Signal, ServerStep AcceptClosed, ServerStep SeeAcceptDone, ServerStep SeeNoConns, ServerStep GoroutinesDone,
      CloseNormal, WorkerStep False (WorkerDone 0), WorkerStep False (Waited 0), WorkerStep False (DrainExit 0),
      CloseCritical, WorkerStep True (WorkerDone 0), WorkerStep True (Waited 0), WorkerStep True (DrainExit 0),
      ManagerShutdown False (\<lambda>_. False)]"

lemma ex_server_config: "MaxConnections (server_config_of ex_config) = 3000" "MaxMessageSize (server_config_of ex_config) = 10485760"
  by (simp_all add: server_config_of_def ex_config_def Load_def getInt_def)

lemma ex_turns: "serve_turn (server_config_of ex_config) ex_frame = TurnPut False (received ex_env) []"
  "serve_turn (server_config_of ex_config) [] = TurnEnd"
proof -
  have "readFrame 10485760 (ex_frame @ []) = Inr (received ex_env, [])"
    by (rule readFrame_encodeFrame [OF ex_env_wf ex_frame_ok(1)]) (use ex_frame_ok(2) in simp_all)
  moreover have "Version (received ex_env) = EnvVersion" "Topic (received ex_env) \<noteq> TopicEventTracks"
    unfolding ex_received by (simp_all add: ex_env_def EnvVersion_def TopicEventTracks_def)
  ultimately show "serve_turn (server_config_of ex_config) ex_frame = TurnPut False (received ex_env) []"
    by (simp add: serve_turn_def ex_server_config)
qed (simp add: serve_turn_def readFrame_def ReadFull_def)

lemmas proc_step_simps = read_turn_def put_accept_def put_return_def put_of_def set_put_def queue_act_def the_queue_def
  main_stops_def serve_step_def end_serve_def set_bytes_def accept_conn_def start_call_def start_listen_def shutdown_call_def

lemma ex_proc_run_ok:
  "\<exists>P0 P. ex_main = Some (Started P0) \<and> sink (normalQ (gw P0)) = (ex_m0, ex_w0) \<and>
     run proc_exec ex_proc_run P0 = Some P \<and> final P \<noteq> None \<and> history (gw P) = [Dispatched (received ex_env)] \<and>
     queued (srv P) = [(False, received ex_env)]"
  by (simp add: ex_main_eq start_process_def ex_start_writers start_queues_def NewNamed_def Start_def ex_config_simps ex_proc_run_def
      proc_exec_def Server.New_def proc_step_simps queue_step_simps ex_turns ex_server_config Let_def)


theorem enqueued_well_formed_witness:
  "\<exists>P0 P. ex_main = Some (Started P0) \<and> run proc_exec ex_proc_run P0 = Some P \<and>
     queued (srv P) = [(False, received ex_env)] \<and> wf_envelope (received ex_env) \<and> accepted (normalQ (gw P)) = [received ex_env]"
proof -
  obtain P0 P where run: "ex_main = Some (Started P0)" "run proc_exec ex_proc_run P0 = Some P"
    "queued (srv P) = [(False, received ex_env)]"
    using ex_proc_run_ok by blast
  then show ?thesis
    using enqueued_well_formed [OF ex_started(1) [OF run(1)] reach_run [OF reach_init run(2)]] by auto
qed


section \<open>The order of a connection\<close>

lemma conn_enqueued:
  assumes "server_main fmul b showVersion env w0 = Some (Started P0)" "sc = server_config_of (Load fmul env)"
    "run proc_exec as P0 = Some P1" "proc_exec (ServerStep (Accept cid bytes)) P1 = Some P2"
    "run proc_exec bs P2 = Some P" "\<forall>b. ServerStep (Accept cid b) \<notin> set bs"
  shows "queued (srv P) = queued (srv P1) @ map snd (feeds bs P2)" "prefix (of_conn cid (feeds bs P2)) (serve_all sc bytes)"
    "undisturbed sc cid P1 bs \<Longrightarrow> map_of (conns (srv P)) cid = None \<Longrightarrow> of_conn cid (feeds bs P2) = serve_all sc bytes"
proof -
  note start = server_main_started(1) [OF assms(1)]
  have cp: "coupled sc P1" "coupled sc P2" "coupled sc P"
    using start_process_coupled [OF start, folded assms(2)] coupled.inv_run [OF assms(3)] coupled.keeps [OF _ assms(4)]
      coupled.inv_run [OF assms(5)] by blast+
  note flow = run_passes [OF assms(5,6)] and first = accept_to_come [OF cp(1) assms(4)]
  show "prefix (of_conn cid (feeds bs P2)) (serve_all sc bytes)"
    using passes_on_prefix [OF flow] first by (simp split: if_splits)
  show "of_conn cid (feeds bs P2) = serve_all sc bytes" if ud: "undisturbed sc cid P1 bs" and gone: "map_of (conns (srv P)) cid = None"
  proof -
    have "all_uncut cid bs P2"
      using quiet_run [OF undisturbed_quiet [OF start assms(3,4) ud] cp(2) assms(5)] ud by (simp add: undisturbed_def)
    moreover have "to_come cid P = []"
      using gone put_of_served [of P cid] cp(3) by (cases "put_of cid P") (auto simp: to_come_def unread_def coupled_def)
    ultimately show ?thesis
      using flow first ud by (simp add: passes_on_def undisturbed_def)
  qed
  have "queued (srv P2) = queued (srv P1)"
    using step_queued [OF assms(4)] by simp
  then show "queued (srv P) = queued (srv P1) @ map snd (feeds bs P2)"
    using run_queued [OF assms(5)] by simp
qed

text \<open>
  C6: the envelopes of one connection reach the queues in the order of its bytes. From the moment the connection
  is accepted, whatever the other goroutines do, what its read loop has enqueued is a prefix of what
  its bytes decode to, and the record of enqueued envelopes grows by exactly what the connections put in; when
  its loop has ended, it is all of it, provided that the connection was accepted before the signal and within
  the limit, its bytes did not end early and the shutdown did not reach its deadline.
\<close>

theorem connection_enqueued_in_order:
  assumes "server_main fmul b showVersion env w0 = Some (Started P0)" "sc = server_config_of (Load fmul env)"
    "run proc_exec as P0 = Some P1" "proc_exec (ServerStep (Accept cid bytes)) P1 = Some P2"
    "run proc_exec bs P2 = Some P" "\<forall>b. ServerStep (Accept cid b) \<notin> set bs"
  shows "queued (srv P) = queued (srv P1) @ map snd (feeds bs P2) \<and>
    prefix (of_conn cid (feeds bs P2)) (serve_all sc bytes) \<and>
    (undisturbed sc cid P1 bs \<and> map_of (conns (srv P)) cid = None \<longrightarrow> of_conn cid (feeds bs P2) = serve_all sc bytes)"
  using conn_enqueued [OF assms] by blast

lemma ex_conn_run_ok:
  "\<exists>P0 P1 P2 P. ex_main = Some (Started P0) \<and> run proc_exec [ServerStep StartCall, ServerStep (Listen True)] P0 = Some P1 \<and>
     proc_exec (ServerStep (Accept 1 ex_frame)) P1 = Some P2 \<and> run proc_exec (drop 3 ex_proc_run) P2 = Some P \<and>
     mainAt P1 = AwaitSignal \<and> connCount (srv P1) = 0 \<and> conns (srv P) = [] \<and> sink (normalQ (gw P0)) = (ex_m0, ex_w0) \<and>
     final P \<noteq> None \<and> history (gw P) = [Dispatched (received ex_env)]"
  by (simp add: ex_main_eq start_process_def ex_start_writers start_queues_def NewNamed_def Start_def ex_config_simps ex_proc_run_def
      proc_exec_def Server.New_def proc_step_simps queue_step_simps ex_turns ex_server_config Let_def)

lemma ex_conn_calm: "\<forall>b. ServerStep (Accept 1 b) \<notin> set (drop 3 ex_proc_run)" "Deadline \<notin> set (drop 3 ex_proc_run)"
    "ServerStep (RunDry 1) \<notin> set (drop 3 ex_proc_run)"
  by (simp_all add: ex_proc_run_def)

lemma ex_undisturbed:
  "mainAt P1 = AwaitSignal \<Longrightarrow> connCount (srv P1) = 0 \<Longrightarrow> undisturbed (server_config_of ex_config) 1 P1 (drop 3 ex_proc_run)"
  using ex_conn_calm ex_server_config(1) by (simp add: undisturbed_def)

theorem connection_enqueued_in_order_witness:
  "\<exists>P0 P1 P2 P. ex_main = Some (Started P0) \<and> run proc_exec [ServerStep StartCall, ServerStep (Listen True)] P0 = Some P1 \<and>
     proc_exec (ServerStep (Accept 1 ex_frame)) P1 = Some P2 \<and> run proc_exec (drop 3 ex_proc_run) P2 = Some P \<and>
     of_conn 1 (feeds (drop 3 ex_proc_run) P2) = [(False, received ex_env)]"
proof -
  obtain P0 P1 P2 P where run: "ex_main = Some (Started P0)" "run proc_exec [ServerStep StartCall, ServerStep (Listen True)] P0 = Some P1"
    "proc_exec (ServerStep (Accept 1 ex_frame)) P1 = Some P2" "run proc_exec (drop 3 ex_proc_run) P2 = Some P"
    "mainAt P1 = AwaitSignal" "connCount (srv P1) = 0" "conns (srv P) = []"
    using ex_conn_run_ok by blast
  have "serve_all (server_config_of ex_config) ex_frame = [(False, received ex_env)]"
    by (simp add: serve_all.simps [of _ ex_frame] ex_turns)
  then have "of_conn 1 (feeds (drop 3 ex_proc_run) P2) = [(False, received ex_env)]"
    using connection_enqueued_in_order [OF ex_started(1) [OF run(1)] refl run(2-4), folded ex_config_def] run(5-7) ex_conn_calm(1)
      ex_undisturbed by simp
  then show ?thesis
    using run by blast
qed

section \<open>From a connection to Kafka or disk\<close>

lemma routed_mono:
  assumes "mset xs \<subseteq># mset ys"
  shows "mset (map record_message (List.map_filter routed xs)) \<subseteq># mset (map record_message (List.map_filter routed ys))"
  using assms unfolding mset_map mset_map_filter by (intro image_mset_subseteq_mono multiset_filter_mono)



section \<open>The shutdown ends\<close>

text \<open>
  C3: once the signal has arrived, the goroutines of the process make at most \<open>process_work\<close> steps, whatever
  connections, producers and workers are doing then; before \<open>main\<close> has shut everything down, or the process has
  ended because it could not listen, one of them can always go on, and so the end can be reached from
  everywhere.
\<close>

theorem process_shutdown_ends:
  assumes "server_main fmul b showVersion env w0 = Some (Started P0)" "reach proc_exec P0 P" "mainAt P \<noteq> AwaitSignal"
    "0 < sc_WorkerCount (cf_Server (Load fmul env))"
    "run proc_exec as P = Some P'" "\<forall>a \<in> set as. proc_own a"
  shows "length as \<le> process_work P \<and>
    (mainAt P' \<in> {MainDone, Aborted} \<or> (\<exists>a P''. proc_own a \<and> proc_exec a P' = Some P'')) \<and>
    (\<exists>bs P''. (\<forall>b \<in> set bs. proc_own b) \<and> run proc_exec bs P' = Some P'' \<and> mainAt P'' \<in> {MainDone, Aborted})"
proof -
  note started = server_main_started [OF assms(1)]
  have "ending (Load fmul env) P"
    using signalled_ending [OF started(1) assms(2-4) started(2)] .
  then show ?thesis
    using pe.run_bounded [OF _ assms(5,6)] pe.progress [OF pe.inv_run [OF assms(5)]] pe.run_to_goal [OF pe.inv_run [OF assms(5)]]
    by fastforce
qed

lemma ex_signal_run:
  "\<exists>P0 P. ex_main = Some (Started P0) \<and>
     run proc_exec [ServerStep StartCall, ServerStep (Listen True), ServerStep (Accept 1 ex_frame), ReadTurn 1, Signal] P0 = Some P \<and>
     mainAt P = InShutdown \<and> puts P = [(1, False, received ex_env, InSelect)]"
  by (simp add: ex_main_eq start_process_def ex_start_writers start_queues_def NewNamed_def Start_def ex_config_simps
      proc_exec_def Server.New_def proc_step_simps queue_step_simps ex_turns ex_server_config Let_def)

theorem process_shutdown_ends_witness:
  "\<exists>P0 P P'' bs. ex_main = Some (Started P0) \<and>
     run proc_exec [ServerStep StartCall, ServerStep (Listen True), ServerStep (Accept 1 ex_frame), ReadTurn 1, Signal] P0 = Some P \<and>
     puts P = [(1, False, received ex_env, InSelect)] \<and>
     run proc_exec bs P = Some P'' \<and> mainAt P'' \<in> {MainDone, Aborted}"
proof -
  obtain P0 P where run: "ex_main = Some (Started P0)"
    "run proc_exec [ServerStep StartCall, ServerStep (Listen True), ServerStep (Accept 1 ex_frame), ReadTurn 1, Signal] P0 = Some P"
    "mainAt P = InShutdown" "puts P = [(1, False, received ex_env, InSelect)]"
    using ex_signal_run by blast
  then show ?thesis
    using process_shutdown_ends [OF ex_started(1) [OF run(1)] reach_run [OF reach_init run(2)] _ ex_started(2), of "[]" P]
    by simp blast
qed

end
