(* ===== verification/Spec2Isabelle.thy ===== *)
theory Spec2Isabelle
  imports Writer_Theorems Queue_Props Server_Theorems Gateway_Theorems Client_Theorems Http_Theorems Http_Api
    Messages_Theorems Pipeline Process_Theorems
begin

text \<open>
  LogTrack is a log pipeline: an SDK linked into services (\<open>pkg/logtrack\<close>) wraps payloads into
  envelopes and sends them over TCP as length-prefixed JSON frames; a gateway (\<open>cmd/server\<close>) reads the
  frames, puts the envelopes into two in-memory queues, and its workers route them by topic through
  handlers to a writer that delivers them to Kafka or, while Kafka is down, keeps them in rolling
  files and replays them later. A second program (\<open>cmd/http-api\<close>) posts request bodies to Kafka directly.

  \<^bold>\<open>Parts and theories.\<close>
  \<^item> \<open>Prelude\<close>: error values, 64-bit bounds, the collections of rewrite rules.
  \<^item> \<open>Go_Strings\<close>, \<open>Go_Text\<close>, \<open>Go_Json\<close>, \<open>Go_Json_Props\<close>, \<open>Go_Time\<close>: what the program uses of Go's
    \<open>strings\<close>, \<open>strconv\<close>, \<open>unicode\<close>, \<open>encoding/json\<close> and \<open>time\<close>; \<open>Go_Values\<close>: values as reflection
    shows them and \<open>json.Marshal\<close> on them and on structs and maps; \<open>Go_Marshal\<close>: marshalled structs are
    valid, compact JSON.
  \<^item> \<open>Envelope\<close> (\<open>pkg/logtrack/envelope\<close>) and \<open>Frame\<close> (\<open>encodeFrame\<close>, \<open>readFrame\<close>): the wire format;
    \<open>Decode\<close>: what decoding arbitrary bytes guarantees.
  \<^item> \<open>World\<close>: the file system, clock and Kafka as the gateway sees them, with faults as inputs;
    \<open>Metrics\<close> (\<open>internal/metrics\<close>): the log of collector calls.
  \<^item> \<open>Fallback\<close> (\<open>internal/writer/fallback.go\<close>) with \<open>Fallback_Props\<close> and \<open>Fallback_Store\<close>, which
    interpret the contract of a replayable log from \<open>Log_Store\<close>; \<open>Kafka_Writer\<close>
    (\<open>internal/writer/kafka.go\<close>); \<open>Manager\<close> (\<open>internal/writer/manager.go\<close>) with \<open>Manager_Props\<close> and
    \<open>Writer_Threads\<close>, concurrent calls beside the recovery loop; their properties are in \<open>Writer_Theorems\<close>.
  \<^item> \<open>State_Machine\<close>: runs of a partial step function, invariants and ending machines as locales;
    \<open>Queue\<close> (\<open>internal/queue\<close>) and \<open>Server\<close> (\<open>internal/server/tcp.go\<close>) are such machines, with their
    invariants and properties in \<open>Queue_Props\<close>, \<open>Server_Props\<close> and \<open>Server_Theorems\<close>.
  \<^item> \<open>Handlers\<close> (\<open>internal/router\<close>, \<open>internal/writeradapter\<close>, \<open>internal/handler\<close>, the dispatch function)
    with \<open>Handlers_Props\<close>; \<open>Config\<close> (\<open>internal/config\<close>); \<open>Gateway\<close> and \<open>Gateway_Theorems\<close>
    (\<open>cmd/server/main.go\<close>): both queues over the shared writer; \<open>Restart\<close>: the end of one process and the
    start of the next over the same directory; \<open>Crash\<close>: the order every step keeps the files in, so that the
    next process finds the whole backlog also after one that was killed between two steps; \<open>Process\<close>: \<open>main\<close> and the whole process as one machine, in
    which the server's read loops are the producers of the queues, the recovery loop ticks and \<open>main\<close> shuts
    the parts down in its order; \<open>Process_Ends\<close>: why that shutdown ends; \<open>Process_Order\<close>: in which order
    the read loop of a connection feeds the queues; \<open>Process_Theorems\<close>: the properties of the process.
  \<^item> \<open>Client\<close> (\<open>pkg/logtrack/client.go\<close>, \<open>option.go\<close>, \<open>send.go\<close>) with \<open>Client_Props\<close> and \<open>Client_Theorems\<close>;
    \<open>Senders\<close> (\<open>app_log.go\<close>, \<open>event.go\<close>, \<open>rpc.go\<close>); \<open>Messages\<close> (\<open>app_message.go\<close>, \<open>sys_message.go\<close>,
    \<open>exp_assignment.go\<close>) with \<open>Messages_Props\<close> and \<open>Messages_Theorems\<close>; \<open>Http_Log\<close> (\<open>http.go\<close>) with
    \<open>Http_Log_Props\<close> and \<open>Http_Theorems\<close>.
  \<^item> \<open>Http_Api\<close> (\<open>cmd/http-api/main.go\<close>): the handler and the process around it; \<open>Version\<close>
    (\<open>internal/version\<close>).
  \<^item> \<open>Pipeline\<close>: the way of a message from the SDK through the server to the dispatch function;
    \<open>Examples\<close>: concrete states on which the properties are applied. The properties below span the SDK,
    the server and the writer.

  \<^bold>\<open>How the code is rendered.\<close> Strings are lists of bytes. A struct is a record, a nil pointer \<open>None\<close>,
  an error a value; a call that touches files, clock or Kafka takes and returns the world. The
  outcome of the \<open>n\<close>-th interaction (a fault, a clock reading, a refusal of Kafka, a failed dial or
  write) is an input of the model, so a theorem about all worlds covers every sequence of failures. The
  queue, the server, the gateway and the client are machines whose steps are the atomic actions of the
  goroutines; a theorem about all runs covers every interleaving of them. In the machine
  of the process a step of a worker is a whole call of the handler and a tick a whole recovery pass; the
  manager takes no lock around either, only the fallback writer locks its calls, and \<open>Writer_Threads\<close> shows
  the accounting of messages for the writer alone with both interleaved at every shared access. Loops are total functions with a measure,
  or, where the files and the clock decide (\<open>Peek\<close>, the drain loop), partial functions whose returning is
  proved; no fuel is used.
  A value of type \<open>any\<close> is given by what reflection and \<open>json.Marshal\<close> show of it. A floating point number is
  the text \<open>encoding/json\<close> writes for it, or nothing when it is infinite or not a number.

  \<^bold>\<open>What is shown.\<close>
  \<^item> The process: the bytes a client wrote on a connection become the envelopes of its frames, and these are
    delivered or stored when \<open>main\<close> is done; each connection feeds the queues in its own order; what the
    server enqueued is accounted for, the shutdown ends, and every enqueued envelope is well-formed whatever
    the peers send; the next process over the same directory finds what the one before it stored, whether that
    one returned from \<open>main\<close> or was killed at any step (not inside a single write to a file).
  \<^item> Delivery: what a queue accepted is handled when \<open>Close\<close> returns; what the writer is given is delivered or
    stored exactly once; recovery replays a prefix of the stored records in order; files carry over to the
    next run; the exceptions (a replay that fails, rotation, a full disk) are stated as they are.
  \<^item> Wire: frames round-trip, a connection yields the envelopes of its frames, the client never breaks
    the frame boundaries, bad frames are refused; shutdown of server and queue ends and quiesces.
  \<^item> SDK: shards and back-off, acceptance of messages, partition keys, the size limit of logged bodies.
  \<^item> Configuration, routing and the HTTP API's answers.

  \<^bold>\<open>Not modelled.\<close> Logging, the \<open>/metrics\<close> handler and its listener (the Prometheus library and \<open>net/http\<close>),
  the parsing of flags, the connections below the HTTP API; deadlines of TCP reads appear only as
  connections that deliver no more, the shutdown's deadline and a signal as steps that may happen at any
  moment; the options of Kafka's transport beyond the fields the writers set; the quoting of a level
  inside an error text (\<open>%q\<close>).
\<close>

section \<open>From the SDK to Kafka\<close>

text \<open>
  C7: a valid experiment assignment sent over a working link reaches its destination: the call reports
  success, the server reads the envelope behind everything the connection carried before and puts it
  into the normal queue, and dispatching it delivers the marshalled record, bare, to the assignment topic
  under the key of its experiment and subject, or, when Kafka fails, appends it to the fallback files
  with topic, key, trace and payload.
\<close>

theorem exp_assignment_reaches_kafka:
  assumes "valid_exp_assignment ea" "tr = o_traceID (applyOpts opts)" "link_ready sc TopicExpAssignment tr c n"
    "marshal_exp_assignment ea = Some p"
    "e = make_envelope c TopicExpAssignment p tr (assignment_key ea) (nclock n (Suc (nstep n)))" "framed sc e frame"
    "gw_good g" "gw_fits ((received e)\<lparr>WriteRaw := True\<rparr>) g"
  shows "\<exists>c1 n1 k. SendExpAssignmentMessage False (Some ea) opts (Some c, n) = (None, Some c1, n1) \<and>
    serve_all sc (wire n1 k) = serve_all sc (stream_before TopicExpAssignment tr c n) @ [(False, received e)] \<and>
    gw_good (gw_fn (received e) g) \<and>
    (gw_sent (gw_fn (received e) g) = gw_sent g @ [(TopicExpAssignment, \<lparr>Key = Some (assignment_key ea), Value = Some p\<rparr>)] \<and>
       gw_kept (gw_fn (received e) g) = gw_kept g \<or>
     gw_sent (gw_fn (received e) g) = gw_sent g \<and>
       gw_kept (gw_fn (received e) g) = gw_kept g @ [zero_envelope\<lparr>Topic := TopicExpAssignment,
         PartitionKey := assignment_key ea, TraceID := tr, Data := Some p, WriteRaw := True\<rparr>])"
proof -
  have p: "marshalled (Suc 0) p"
    using marshal_exp_assignment_ok [of ea] assms(4) by auto
  have "TopicExpAssignment \<in> raw_topics" "assignment_key ea \<noteq> []" "Suc 0 < maxNestingDepth"
    "TopicExpAssignment \<noteq> TopicEventTracks"
    by (simp_all add: raw_topics_def assignment_key_def json_array_def maxNestingDepth_def topic_defs)
  moreover have "SendExpAssignmentMessage False (Some ea) opts (Some c, n) =
      (None, sdk_send False TopicExpAssignment (Some p) tr (assignment_key ea) (Some c, n))"
    using assms(1,2,4) by (simp add: SendExpAssignmentMessage_def ExpAssignmentMessage_Validate_None [THEN iffD2])
  ultimately show ?thesis
    using sdk_send_served [OF assms(3,5,6)] raw_dispatched [OF _ _ p _ _ assms(7,8), of TopicExpAssignment "assignment_key ea" c tr]
      assms(5) by auto
qed

lemmas text_simps = json_object_def quote_def quote_body_ascii quote_ascii_def omit_empty_def FormatInt_def
  fmt_nat.simps digit_char_def byte_eq_iff

lemma ex_assignment_payload: "marshal_exp_assignment ex_assignment =
  Some ''{\"experiment_id\":\"exp\",\"subject_id\":\"user\",\"variant\":\"B\",\"assigned_time_ms\":5,\"event_id\":\"e1\"}''"
  by (simp add: marshal_exp_assignment_def ex_assignment_def NewExpAssignmentMessage_def member_defs json_struct_def
      sequence_snd_def text_simps)

lemma ex_assignment_key: "assignment_key ex_assignment = ''[\"exp\",\"user\"]''"
  by (simp add: assignment_key_def json_array_def ex_assignment_def NewExpAssignmentMessage_def text_simps)

definition ex_sent :: Envelope where
  "ex_sent = make_envelope ex_client TopicExpAssignment (the (marshal_exp_assignment ex_assignment)) []
     (assignment_key ex_assignment) zero_time"

lemma ex_sent_simps:
  "marshal_raw (Data ex_sent) = Data ex_sent" "received ex_sent = ex_sent" "wf_envelope ex_sent"
proof -
  obtain p where p: "marshal_exp_assignment ex_assignment = Some p" "marshalled (Suc 0) p"
    using marshal_exp_assignment_ok by blast
  show "marshal_raw (Data ex_sent) = Data ex_sent"
    using compact_marshalled [OF p(2)] by (simp add: ex_sent_def make_envelope_def p(1) marshal_raw_def maxNestingDepth_def)
  then show "received ex_sent = ex_sent"
    by (simp add: received_def ex_sent_def make_envelope_def EnsureTimestampAt_def TimestampAtFromMillis_def
        TimestampAtFromTime_def zero_time_def UnixMilli_def)
  show "wf_envelope ex_sent"
    unfolding ex_sent_def
    by (rule wf_make_envelope [where lim = "Suc 0"])
      (simp_all add: p ex_client_def ValidString_ascii ex_assignment_key topic_defs zero_time_def UnixMilli_def
        is_int64_def minInt64_def maxInt64_def maxNestingDepth_def)
qed

lemma ex_sent_fields: "Version ex_sent = ''1.0''" "Topic ex_sent = ''dw.exp-assignment-v1''" "Service ex_sent = ''svc''" "Host ex_sent = ''h''"
  "Timestamp ex_sent = -62135596800000" "TimestampAt ex_sent = []" "TraceID ex_sent = []"
  "PartitionKey ex_sent = ''[\"exp\",\"user\"]''" "WriteRaw ex_sent = False"
  "Data ex_sent = Some ''{\"experiment_id\":\"exp\",\"subject_id\":\"user\",\"variant\":\"B\",\"assigned_time_ms\":5,\"event_id\":\"e1\"}''"
  by (simp_all add: ex_sent_def make_envelope_def EnvVersion_def topic_defs ex_client_def UnixMilli_def zero_time_def
      TimestampAtFromTime_def ex_assignment_key ex_assignment_payload)

lemma ex_sent_line: "line_fits (ex_sent\<lparr>WriteRaw := True\<rparr>)"
  using ex_sent_simps(1)
  by (simp add: line_fits_def encode_line_def stamped_def marshal_raw_record_def EnsureTimestampAt_def raw_members_def
      ex_sent_fields fallbackRawFmt_def text_simps maxLine_def)

lemma ex_sent_frame: "\<exists>f. encodeFrame ex_sent = Inr f \<and> length f < 400"
  using ex_sent_simps(1)
  by (simp add: encodeFrame_def marshal_envelope_def envelope_members_def ex_sent_fields text_simps)

lemma ex_link: "link_ready sc topic [] ex_client ex_net"
proof -
  have "the_shard topic [] ex_client = zero_shard" "pools_ok ex_client" "\<not> cl_closed ex_client"
    by (simp_all add: the_shard_def shards_of_def ex_client_def shardIndex_def pools_ok_def pool_size_def)
  moreover from this have "stream_before topic [] ex_client ex_net = concat []"
    by (simp add: stream_before_def zero_shard_def)
  ultimately show ?thesis
    unfolding link_ready_def by (intro conjI exI [of _ "[]"]) (simp_all add: zero_shard_def ex_net_def)
qed


theorem exp_assignment_reaches_kafka_witness:
  "\<exists>c1 n1 k. SendExpAssignmentMessage False (Some ex_assignment) [] (Some ex_client, ex_net) = (None, Some c1, n1) \<and>
     serve_all ex_cfg (wire n1 k) = serve_all ex_cfg [] @ [(False, ex_sent)] \<and>
     gw_good (gw_fn ex_sent (ex_manager, ex_world True))"
proof -
  obtain f where f: "encodeFrame ex_sent = Inr f" "length f < 400"
    using ex_sent_frame by blast
  have "framed ex_cfg ex_sent f"
    using f ex_sent_simps(3) by (simp add: framed_def ex_cfg_def)
  moreover have "gw_fits ((received ex_sent)\<lparr>WriteRaw := True\<rparr>) (ex_manager, ex_world True)"
    using ex_sent_line ex_sent_simps ex_writable [of True]
    by (simp add: gw_fits_def writable_def wf_envelope_def replayable_def)
  moreover note ex_gw_good [of True]
  moreover have "stream_before TopicExpAssignment [] ex_client ex_net = []"
    by (simp add: stream_before_def the_shard_def shards_of_def ex_client_def shardIndex_def zero_shard_def)
  moreover have "o_traceID (applyOpts []) = []" "nclock ex_net (Suc (nstep ex_net)) = zero_time"
    by (simp_all add: applyOpts_def ex_net_def)
  ultimately show ?thesis
    using exp_assignment_reaches_kafka [OF ex_assignment_valid, of "[]" "[]" ex_cfg ex_client ex_net
        "the (marshal_exp_assignment ex_assignment)" ex_sent f "(ex_manager, ex_world True)"]
      ex_link [of ex_cfg TopicExpAssignment] ex_sent_simps(2) ex_assignment_payload
    by (auto simp: ex_sent_def)
qed

section \<open>Application logs\<close>

text \<open>
  C22: an application log sent over a working link is read by the server into the normal queue, and
  dispatching it delivers the whole envelope to the topic of its level, or stores it under that topic
  when Kafka fails; a log without a message or with a level the gateway does not know is dropped there,
  although the SDK accepted it.
\<close>

theorem app_log_reaches_level_topic:
  assumes "\<forall>f \<in> set (al_Fields l). any_ok lim (snd f)" "Suc (Suc lim) < maxNestingDepth"
    "link_ready sc TopicAppLogs (o_traceID (applyOpts opts)) c n" "marshal_app_log l = Some p"
    "e = make_envelope c TopicAppLogs p (o_traceID (applyOpts opts)) (o_partitionKey (applyOpts opts)) (nclock n (Suc (nstep n)))"
    "framed sc e frame" "gw_good g"
    "\<forall>t. levelTopic (ToValid (al_Level l)) = Some t \<longrightarrow> gw_fits ((received e)\<lparr>Topic := t\<rparr>) g"
  shows "\<exists>c1 n1 k. App False (Some l) opts (Some c, n) = (Some c1, n1) \<and>
    serve_all sc (wire n1 k) =
      serve_all sc (stream_before TopicAppLogs (o_traceID (applyOpts opts)) c n) @ [(False, received e)] \<and>
    (case (if ToValid (al_Message l) = [] then None else levelTopic (ToValid (al_Level l))) of
       None \<Rightarrow> gw_sent (gw_fn (received e) g) = gw_sent g \<and> gw_kept (gw_fn (received e) g) = gw_kept g
     | Some t \<Rightarrow>
         gw_sent (gw_fn (received e) g) = gw_sent g @ [(t, message (stamped ((received e)\<lparr>Topic := t\<rparr>)))] \<and>
           gw_kept (gw_fn (received e) g) = gw_kept g \<or>
         gw_sent (gw_fn (received e) g) = gw_sent g \<and>
           gw_kept (gw_fn (received e) g) = gw_kept g @ [stored (stamped ((received e)\<lparr>Topic := t\<rparr>))])"
proof -
  have p: "marshalled (Suc (Suc lim)) p" and
    strs: "\<And>env. Data env = Some p \<Longrightarrow>
      strings_of [''level'', ''message''] env = Some [ToValid (al_Level l), ToValid (al_Message l)]"
    using app_log_payload [OF assms(1)] assms(2,4) by auto
  have env: "Topic (received e) = TopicAppLogs" "Data (received e) = Some p"
    using received_make_envelope [OF p assms(2)] assms(5) by (simp_all add: make_envelope_def)
  have "levelTopic [] = None"
    by (simp add: levelTopic_def)
  then have routed: "routed (received e) = map_option (\<lambda>t. (received e)\<lparr>Topic := t\<rparr>)
      (if ToValid (al_Message l) = [] then None else levelTopic (ToValid (al_Level l)))"
    using env strs [OF env(2)] by (simp add: routed_def)
  have "TopicAppLogs \<noteq> TopicEventTracks"
    by (simp add: topic_defs)
  moreover have "App False (Some l) opts (Some c, n) =
      sdk_send False TopicAppLogs (Some p) (o_traceID (applyOpts opts)) (o_partitionKey (applyOpts opts)) (Some c, n)"
    using assms(4) by (simp add: App_def Send_def Let_def)
  moreover note sdk_send_served [OF assms(3,5,6)]
  moreover have "case (if ToValid (al_Message l) = [] then None else levelTopic (ToValid (al_Level l))) of
       None \<Rightarrow> gw_sent (gw_fn (received e) g) = gw_sent g \<and> gw_kept (gw_fn (received e) g) = gw_kept g
     | Some t \<Rightarrow>
         gw_sent (gw_fn (received e) g) = gw_sent g @ [(t, message (stamped ((received e)\<lparr>Topic := t\<rparr>)))] \<and>
           gw_kept (gw_fn (received e) g) = gw_kept g \<or>
         gw_sent (gw_fn (received e) g) = gw_sent g \<and>
           gw_kept (gw_fn (received e) g) = gw_kept g @ [stored (stamped ((received e)\<lparr>Topic := t\<rparr>))]"
    using routed gw.dispatch_invalid [of "received e" g] gw.dispatch_one [OF assms(7), of "received e"] assms(8)
    by (auto simp: gw_fn_def adapter_Set_def split: option.splits if_splits)
  ultimately show ?thesis
    by auto
qed

definition ex_app_log :: AppLog where
  "ex_app_log = \<lparr>al_AppID = 0, al_Country = [], al_BID = [], al_Level = ''ERROR'', al_Message = ''m'', al_File = [],
     al_Line = 0, al_Function = [], al_Stack = [], al_Fields = []\<rparr>"

definition ex_log_sent :: Envelope where
  "ex_log_sent = make_envelope ex_client TopicAppLogs ''{\"level\":\"ERROR\",\"message\":\"m\"}'' [] [] zero_time"

lemma ex_app_log_payload: "marshal_app_log ex_app_log = Some ''{\"level\":\"ERROR\",\"message\":\"m\"}''"
  by (simp add: marshal_app_log_def ex_app_log_def member_defs json_struct_def sequence_snd_def text_simps)

lemma ex_log_sent_fields: "Version ex_log_sent = ''1.0''" "Topic ex_log_sent = ''app-logs''" "Service ex_log_sent = ''svc''"
  "Host ex_log_sent = ''h''" "Timestamp ex_log_sent = -62135596800000" "TimestampAt ex_log_sent = []" "TraceID ex_log_sent = []"
  "PartitionKey ex_log_sent = []" "WriteRaw ex_log_sent = False"
  "Data ex_log_sent = Some ''{\"level\":\"ERROR\",\"message\":\"m\"}''"
  by (simp_all add: ex_log_sent_def make_envelope_def EnvVersion_def topic_defs ex_client_def UnixMilli_def zero_time_def
      TimestampAtFromTime_def)

lemma ex_log_sent_simps:
  "marshal_raw (Data ex_log_sent) = Data ex_log_sent" "received ex_log_sent = ex_log_sent" "wf_envelope ex_log_sent"
proof -
  have p: "marshalled (Suc (Suc 0)) ''{\"level\":\"ERROR\",\"message\":\"m\"}''"
    using app_log_payload [of ex_app_log 0] ex_app_log_payload by (auto simp: ex_app_log_def maxNestingDepth_def)
  show "marshal_raw (Data ex_log_sent) = Data ex_log_sent"
    using compact_marshalled [OF p] by (simp add: ex_log_sent_fields marshal_raw_def maxNestingDepth_def)
  then show "received ex_log_sent = ex_log_sent"
    by (simp add: received_def EnsureTimestampAt_def TimestampAtFromMillis_def ex_log_sent_fields)
  show "wf_envelope ex_log_sent"
    unfolding ex_log_sent_def
    by (rule wf_make_envelope [OF _ _ _ _ _ _ p])
      (simp_all add: ex_client_def ValidString_ascii topic_defs zero_time_def UnixMilli_def
        is_int64_def minInt64_def maxInt64_def maxNestingDepth_def)
qed

lemma ex_log_sent_frame: "\<exists>f. encodeFrame ex_log_sent = Inr f \<and> length f < 400"
  "line_fits (ex_log_sent\<lparr>Topic := ''app-logs-error''\<rparr>)"
  using ex_log_sent_simps(1)
  by (simp_all add: encodeFrame_def marshal_envelope_def envelope_members_def ex_log_sent_fields text_simps line_fits_def
      encode_line_def stamped_def EnsureTimestampAt_def TimestampAtFromMillis_def maxLine_def)

theorem app_log_reaches_level_topic_witness:
  "\<exists>c1 n1 k. App False (Some ex_app_log) [] (Some ex_client, ex_net) = (Some c1, n1) \<and>
     serve_all ex_cfg (wire n1 k) = serve_all ex_cfg [] @ [(False, ex_log_sent)]"
proof -
  let ?g = "(ex_manager, ex_world True)"
  obtain f where f: "encodeFrame ex_log_sent = Inr f" "length f < 400"
    using ex_log_sent_frame(1) by blast
  have "framed ex_cfg ex_log_sent f"
    using f ex_log_sent_simps(3) by (simp add: framed_def ex_cfg_def)
  moreover have "gw_fits (ex_log_sent\<lparr>Topic := ''app-logs-error''\<rparr>) ?g"
    using ex_log_sent_frame(2) ex_log_sent_simps(3) ex_writable [of True]
    by (simp add: gw_fits_def writable_def wf_envelope_def ValidString_ascii replayable_def ex_log_sent_fields)
  moreover have "levelTopic (ToValid ''ERROR'') = Some ''app-logs-error''"
    by (simp add: levelTopic_def topic_defs ToValid_ascii)
  moreover note ex_gw_good [of True]
  moreover have "stream_before TopicAppLogs [] ex_client ex_net = []"
    by (simp add: stream_before_def the_shard_def shards_of_def ex_client_def shardIndex_def zero_shard_def)
  moreover have "applyOpts [] = \<lparr>o_traceID = [], o_partitionKey = []\<rparr>" "nclock ex_net (Suc (nstep ex_net)) = zero_time"
    "al_Fields ex_app_log = []" "al_Level ex_app_log = ''ERROR''" "Suc (Suc 0) < maxNestingDepth"
    by (simp_all add: applyOpts_def ex_net_def ex_app_log_def maxNestingDepth_def)
  ultimately show ?thesis
    using app_log_reaches_level_topic [of ex_app_log 0 ex_cfg "[]" ex_client ex_net _ ex_log_sent f ?g]
      ex_link [of ex_cfg TopicAppLogs] ex_log_sent_simps(2) ex_app_log_payload
    by (auto simp: ex_log_sent_def)
qed

end
